(* ===== verification/Prelude.thy ===== *)
theory Prelude
  imports Main "HOL-Library.Word"
begin

text \<open>
  Prelude of the aetherport development: the types every component shares and the generic
  lemmas its proofs use.

  Go's \<open>byte\<close>, \<open>[]byte\<close> and \<open>string\<close> are all sequences of 8-bit values, so they share one
  representation, lists of HOL's 8-bit \<open>char\<close>; the conversions \<open>[]byte(s)\<close> and \<open>string(b)\<close>
  of the source are then identities. A call that can return an error or panic has a result of
  type \<open>('e, 'a) res\<close>.
\<close>

type_synonym byte = char
type_synonym bytes = "char list"

named_theorems go_defs \<open>definitions of the Go library routines the components use\<close>

section \<open>Results: a value, an error, or a panic\<close>

text \<open>
  \<open>Ok a\<close> is a return with a nil error, \<open>Err e\<close> a return with a non-nil error, \<open>Panic\<close> a
  run-time panic that unwinds the goroutine.
\<close>

datatype ('e, 'a) res = Ok 'a | Err 'e | Panic

primrec rbind :: "('e, 'a) res \<Rightarrow> ('a \<Rightarrow> ('e, 'b) res) \<Rightarrow> ('e, 'b) res" where
  "rbind (Ok a) f = f a"
| "rbind (Err e) f = Err e"
| "rbind Panic f = Panic"

primrec map_err :: "('e \<Rightarrow> 'f) \<Rightarrow> ('e, 'a) res \<Rightarrow> ('f, 'a) res" where
  "map_err f (Ok a) = Ok a"
| "map_err f (Err e) = Err (f e)"
| "map_err f Panic = Panic"

lemma rbind_eq_Ok: "rbind m f = Ok b \<longleftrightarrow> (\<exists>a. m = Ok a \<and> f a = Ok b)"
  by (cases m) auto

lemma rbind_eq_Panic: "rbind m f = Panic \<longleftrightarrow> m = Panic \<or> (\<exists>a. m = Ok a \<and> f a = Panic)"
  by (cases m) auto

lemma map_err_eq_Ok [simp]: "map_err f m = Ok a \<longleftrightarrow> m = Ok a"
  by (cases m) auto

lemma Ok_eq_map_err [simp]: "Ok a = map_err f m \<longleftrightarrow> m = Ok a"
  by (cases m) auto

lemma map_err_eq_Panic [simp]: "map_err f m = Panic \<longleftrightarrow> m = Panic"
  by (cases m) auto

lemmas res_elims = rbind_eq_Ok rbind_eq_Panic

section \<open>Bytes as numbers\<close>

definition byte_val :: "byte \<Rightarrow> nat" where
  "byte_val c = of_char c"

definition byte_of :: "nat \<Rightarrow> byte" where
  "byte_of n = char_of n"

lemma byte_val_less [simp]: "byte_val c < 256"
  by (simp add: byte_val_def)

lemma byte_val_of [simp]: "byte_val (byte_of n) = n mod 256"
  by (simp add: byte_val_def byte_of_def)

lemma byte_of_val [simp]: "byte_of (byte_val c) = c"
  by (simp add: byte_val_def byte_of_def)

lemma byte_of_eq_iff: "byte_of m = byte_of n \<longleftrightarrow> m mod 256 = n mod 256"
  by (metis byte_of_def byte_val_of char_of_mod_256)

lemma byte_eq_iff: "c = d \<longleftrightarrow> byte_val c = byte_val d"
  by (metis byte_of_val)

section \<open>Lists\<close>

lemma replicate_append_eq_iff:
  "replicate m x @ xs = replicate m x @ ys \<longleftrightarrow> xs = ys"
  by simp

lemma take_length_append [simp]: "take (length xs) (xs @ ys) = xs"
  by simp

lemma drop_length_append [simp]: "drop (length xs) (xs @ ys) = ys"
  by simp

lemma takeWhile_append_stop:
  "\<forall>x\<in>set xs. P x \<Longrightarrow> \<not> P y \<Longrightarrow> takeWhile P (xs @ y # ys) = xs"
  by (induction xs) auto

lemma dropWhile_append_stop:
  "\<forall>x\<in>set xs. P x \<Longrightarrow> \<not> P y \<Longrightarrow> dropWhile P (xs @ y # ys) = y # ys"
  by (induction xs) auto

lemma filter_idem_all: "\<forall>x\<in>set xs. P x \<Longrightarrow> filter P xs = xs"
  by (induction xs) auto

section \<open>The interface of a codec\<close>

text \<open>
  What every printer and parser pair of the program promises, on the values \<open>ok\<close> it is meant
  for: decoding an encoding gives the value back. Injectivity of the encoder follows once for
  all of them.
\<close>

locale codec =
  fixes enc :: "'a \<Rightarrow> 'b"
    and dec :: "'b \<Rightarrow> 'a option"
    and ok :: "'a \<Rightarrow> bool"
  assumes dec_enc: "ok a \<Longrightarrow> dec (enc a) = Some a"
begin

lemma enc_inj: "ok a \<Longrightarrow> ok b \<Longrightarrow> enc a = enc b \<longleftrightarrow> a = b"
  by (metis dec_enc option.inject)

lemma enc_inj_on: "inj_on enc {a. ok a}"
  by (rule inj_onI) (metis enc_inj mem_Collect_eq)

end

text \<open>A sum of measures goes down with one of its elements.\<close>

lemma sum_list_update_less:
  fixes f :: "'a \<Rightarrow> nat"
  shows "i < length xs \<Longrightarrow> f y < f (xs ! i) \<Longrightarrow> sum_list (map f (xs[i := y])) < sum_list (map f xs)"
  by (induction xs arbitrary: i) (auto simp: nth_Cons split: nat.splits)

end
