(* ===== verification/GoHex.thy ===== *)
theory GoHex
  imports Prelude
begin

text \<open>
  Go's \<open>encoding/hex\<close>: \<open>EncodeToString\<close> prints each byte as two lower-case digits,
  \<open>DecodeString\<close> accepts digits of either case and fails on an odd length or another byte.
\<close>

definition hex_digits :: "bytes" where
  "hex_digits = ''0123456789abcdef''"

definition hex_char :: "nat \<Rightarrow> byte" where
  "hex_char n = hex_digits ! n"

text \<open>\<open>fromHexChar\<close> of the library.\<close>

definition hex_val :: "byte \<Rightarrow> nat option" where
  "hex_val c =
     (let n = byte_val c in
      if 48 \<le> n \<and> n \<le> 57 then Some (n - 48)
      else if 97 \<le> n \<and> n \<le> 102 then Some (n - 97 + 10)
      else if 65 \<le> n \<and> n \<le> 70 then Some (n - 65 + 10)
      else None)"

fun hex_encode :: "bytes \<Rightarrow> bytes" where
  "hex_encode [] = []"
| "hex_encode (c # s) = hex_char (byte_val c div 16) # hex_char (byte_val c mod 16) # hex_encode s"

fun hex_decode :: "bytes \<Rightarrow> bytes option" where
  "hex_decode [] = Some []"
| "hex_decode [c] = None"
| "hex_decode (c # d # s) =
     (case hex_val c of
        None \<Rightarrow> None
      | Some a \<Rightarrow>
          (case hex_val d of
             None \<Rightarrow> None
           | Some b \<Rightarrow> map_option (\<lambda>r. byte_of (16 * a + b) # r) (hex_decode s)))"

lemma hex_val_char: "n < 16 \<Longrightarrow> hex_val (hex_char n) = Some n"
proof -
  have "\<forall>n\<in>set [0..<16]. hex_val (hex_char n) = Some n"
    by (simp add: upt_rec hex_char_def hex_digits_def hex_val_def byte_val_def)
  then show "n < 16 \<Longrightarrow> hex_val (hex_char n) = Some n" by simp
qed

lemma hex_decode_encode [simp]: "hex_decode (hex_encode s) = Some s"
proof (induction s)
  case Nil
  then show ?case by simp
next
  case (Cons c s)
  have "byte_val c div 16 < 16" using byte_val_less [of c] by linarith
  then show ?case using Cons by (simp add: hex_val_char)
qed

lemma length_hex_encode [simp]: "length (hex_encode s) = 2 * length s"
  by (induction s) auto

lemma hex_encode_Nil_iff [simp]: "hex_encode s = [] \<longleftrightarrow> s = []"
  by (cases s) auto

interpretation hex: codec hex_encode hex_decode "\<lambda>_. True"
  by unfold_locales simp

text \<open>The strings the encoder produces: lower-case digits, an even number of them.\<close>

definition canonical_hex :: "bytes \<Rightarrow> bool" where
  "canonical_hex s \<longleftrightarrow> (\<exists>b. s = hex_encode b)"

lemma canonical_hex_encode [simp]: "canonical_hex (hex_encode b)"
  by (auto simp: canonical_hex_def)

lemma canonical_hex_Nil [simp]: "canonical_hex []"
  using canonical_hex_encode [of "[]"] by simp

lemma canonical_hex_decode:
  "canonical_hex s \<Longrightarrow> \<exists>b. hex_decode s = Some b \<and> hex_encode b = s"
  by (auto simp: canonical_hex_def)

end
