(* ===== verification/GoTime.thy ===== *)
theory GoTime
  imports Prelude
begin

text \<open>
  The part of Go's package \<open>time\<close> the program uses. An instant is the number of nanoseconds
  since the Unix epoch; a \<open>time.Duration\<close> is a signed 64-bit number of nanoseconds, kept at its
  width. \<open>UnixNano\<close> truncates an instant to 64 bits, \<open>Sub\<close> saturates.
\<close>

type_synonym time = int
type_synonym duration = "64 word"

definition UnixNano :: "time \<Rightarrow> 64 word" where
  "UnixNano t = word_of_int t"

text \<open>\<open>time.Unix(0, n)\<close>.\<close>

definition time_Unix0 :: "64 word \<Rightarrow> time" where
  "time_Unix0 n = sint n"

definition time_Before :: "time \<Rightarrow> time \<Rightarrow> bool" where
  "time_Before t u \<longleftrightarrow> t < u"

definition time_After :: "time \<Rightarrow> time \<Rightarrow> bool" where
  "time_After t u \<longleftrightarrow> u < t"

definition time_Add :: "time \<Rightarrow> duration \<Rightarrow> time" where
  "time_Add t d = t + sint d"

definition max_duration :: int where "max_duration = 2 ^ 63 - 1"
definition min_duration :: int where "min_duration = - (2 ^ 63)"

definition time_Sub :: "time \<Rightarrow> time \<Rightarrow> duration" where
  "time_Sub t u = word_of_int (max min_duration (min max_duration (t - u)))"

text \<open>\<open>Duration.Abs\<close>: the smallest duration maps to the largest.\<close>

definition duration_Abs :: "duration \<Rightarrow> duration" where
  "duration_Abs d =
     (if 0 \<le> sint d then d
      else if sint d = min_duration then word_of_int max_duration
      else - d)"

definition time_Second :: duration where "time_Second = 1000000000"
definition time_Hour :: duration where "time_Hour = 3600 * time_Second"

text \<open>The instants \<open>UnixNano\<close> represents: the years 1678 to 2262.\<close>

definition nano_range :: "time \<Rightarrow> bool" where
  "nano_range t \<longleftrightarrow> min_duration \<le> t \<and> t \<le> max_duration"

lemma sint_word_of_int_range:
  "min_duration \<le> t \<Longrightarrow> t \<le> max_duration \<Longrightarrow> sint (word_of_int t :: 64 word) = t"
  by (simp add: min_duration_def max_duration_def sint_sbintrunc' signed_take_bit_int_eq_self)

lemma time_Unix0_UnixNano: "time_Unix0 (UnixNano t) = t \<longleftrightarrow> nano_range t"
proof
  assume "nano_range t"
  then show "time_Unix0 (UnixNano t) = t"
    by (simp add: time_Unix0_def UnixNano_def nano_range_def sint_word_of_int_range)
next
  assume "time_Unix0 (UnixNano t) = t"
  then have "t = sint (UnixNano t)" by (simp add: time_Unix0_def)
  then show "nano_range t"
    using sint_ge [of "UnixNano t"] sint_lt [of "UnixNano t"]
    by (simp add: nano_range_def min_duration_def max_duration_def)
qed

lemma time_Unix0_id: "nano_range t \<Longrightarrow> time_Unix0 (UnixNano t) = t"
  by (simp add: time_Unix0_UnixNano)

lemma UnixNano_time_Unix0 [simp]: "UnixNano (time_Unix0 n) = n"
  by (simp add: time_Unix0_def UnixNano_def)

lemma nano_range_Unix0 [simp]: "nano_range (time_Unix0 n)"
  by (simp flip: time_Unix0_UnixNano)

lemma time_Add_Sub: "nano_range (u - t) \<Longrightarrow> time_Add t (time_Sub u t) = u"
  using sint_word_of_int_range [of "u - t"]
  by (simp add: time_Add_def time_Sub_def nano_range_def)

interpretation instant: codec UnixNano "\<lambda>n. Some (time_Unix0 n)" nano_range
  by unfold_locales (simp add: time_Unix0_UnixNano)

end
