(* ===== verification/GoStrings.thy ===== *)
theory GoStrings
  imports Prelude
begin

text \<open>
  The routines of Go's packages \<open>bytes\<close> and \<open>strings\<close> that the program calls: prefixes and
  suffixes, \<open>Index\<close>, \<open>Cut\<close>, \<open>Split\<close>, \<open>TrimRight\<close> and the emptiness test after \<open>TrimSpace\<close>.
  An index of -1 is \<open>None\<close>.
\<close>

definition has_prefix :: "bytes \<Rightarrow> bytes \<Rightarrow> bool" where [go_defs]:
  "has_prefix s p \<longleftrightarrow> take (length p) s = p"

definition has_suffix :: "bytes \<Rightarrow> bytes \<Rightarrow> bool" where [go_defs]:
  "has_suffix s p \<longleftrightarrow> length p \<le> length s \<and> drop (length s - length p) s = p"

fun bytes_index :: "bytes \<Rightarrow> bytes \<Rightarrow> nat option" where
  "bytes_index [] p = (if p = [] then Some 0 else None)"
| "bytes_index (c # s) p =
     (if has_prefix (c # s) p then Some 0 else map_option Suc (bytes_index s p))"

fun index_byte :: "bytes \<Rightarrow> byte \<Rightarrow> nat option" where
  "index_byte [] b = None"
| "index_byte (c # s) b = (if c = b then Some 0 else map_option Suc (index_byte s b))"

definition bytes_cut :: "bytes \<Rightarrow> bytes \<Rightarrow> (bytes \<times> bytes) option" where [go_defs]:
  "bytes_cut s p =
     (case bytes_index s p of
        None \<Rightarrow> None
      | Some i \<Rightarrow> Some (take i s, drop (i + length p) s))"

fun last_index_byte :: "bytes \<Rightarrow> byte \<Rightarrow> nat option" where
  "last_index_byte [] b = None"
| "last_index_byte (c # s) b =
     (case last_index_byte s b of
        Some i \<Rightarrow> Some (Suc i)
      | None \<Rightarrow> if c = b then Some 0 else None)"

text \<open>\<open>strings.Split(s, sep)\<close> for a separator of one byte.\<close>

fun strings_split :: "byte \<Rightarrow> bytes \<Rightarrow> bytes list" where
  "strings_split b [] = [[]]"
| "strings_split b (c # s) =
     (if c = b then [] # strings_split b s
      else (case strings_split b s of [] \<Rightarrow> [[c]] | w # ws \<Rightarrow> (c # w) # ws))"

definition trim_right :: "bytes \<Rightarrow> byte list \<Rightarrow> bytes" where [go_defs]:
  "trim_right s cutset = rev (dropWhile (\<lambda>c. c \<in> set cutset) (rev s))"

text \<open>
  \<open>strings.TrimSpace(s) == ""\<close>: every rune of the string is white space in the sense of
  \<open>unicode.IsSpace\<close>, the ASCII ones as single bytes, the others in their UTF-8 encoding.
\<close>

definition ascii_space :: "byte \<Rightarrow> bool" where [go_defs]:
  "ascii_space c \<longleftrightarrow> c \<in> set [CHR 0x09, CHR 0x0A, CHR 0x0B, CHR 0x0C, CHR 0x0D, CHR 0x20]"

definition space_runes :: "bytes list" where [go_defs]:
  "space_runes =
     [[CHR 0xC2, CHR 0x85], [CHR 0xC2, CHR 0xA0], [CHR 0xE1, CHR 0x9A, CHR 0x80],
      [CHR 0xE2, CHR 0x80, CHR 0xA8], [CHR 0xE2, CHR 0x80, CHR 0xA9],
      [CHR 0xE2, CHR 0x80, CHR 0xAF], [CHR 0xE2, CHR 0x81, CHR 0x9F],
      [CHR 0xE3, CHR 0x80, CHR 0x80]]
     @ map (\<lambda>n. [CHR 0xE2, CHR 0x80, byte_of n]) [128..<139]"

fun all_space :: "bytes \<Rightarrow> bool" where
  "all_space [] = True"
| "all_space [a] = ascii_space a"
| "all_space [a, b] =
     (if ascii_space a then all_space [b] else [a, b] \<in> set space_runes)"
| "all_space (a # b # c # s) =
     (if ascii_space a then all_space (b # c # s)
      else if [a, b] \<in> set space_runes then all_space (c # s)
      else [a, b, c] \<in> set space_runes \<and> all_space s)"

section \<open>Prefixes, suffixes, indices\<close>

lemma has_prefix_append [simp]: "has_prefix (p @ s) p"
  by (simp add: has_prefix_def)

lemma has_suffix_append [simp]: "has_suffix (s @ p) p"
  by (simp add: go_defs)

lemma has_suffixE: "has_suffix s p \<Longrightarrow> (\<And>t. s = t @ p \<Longrightarrow> thesis) \<Longrightarrow> thesis"
  unfolding has_suffix_def by (metis append_take_drop_id)

lemma has_prefixE: "has_prefix s p \<Longrightarrow> (\<And>t. s = p @ t \<Longrightarrow> thesis) \<Longrightarrow> thesis"
  unfolding has_prefix_def by (metis append_take_drop_id)

lemma has_prefix_Cons_Cons [simp]:
  "has_prefix (c # s) (d # p) \<longleftrightarrow> c = d \<and> has_prefix s p"
  by (auto simp: has_prefix_def)

lemma has_prefix_Nil [simp]: "has_prefix s []" "has_prefix [] (d # p) = False"
  by (auto simp: has_prefix_def)

lemma bytes_index_Some:
  "bytes_index s p = Some i \<Longrightarrow> i + length p \<le> length s \<and> has_prefix (drop i s) p"
proof (induction s arbitrary: i)
  case Nil
  then show ?case by (auto split: if_splits)
next
  case (Cons c s)
  show ?case
  proof (cases "has_prefix (c # s) p")
    case True
    with Cons.prems have "i = 0" by simp
    moreover from True have "length p \<le> length (c # s)"
      by (metis has_prefixE length_append le_add1)
    ultimately show ?thesis using True by simp
  next
    case False
    with Cons show ?thesis by auto
  qed
qed

lemma bytes_cut_length:
  "bytes_cut s p = Some (l, r) \<Longrightarrow> length r + length p \<le> length s"
  by (auto simp: go_defs dest!: bytes_index_Some split: option.splits)

lemma index_byte_None: "index_byte s b = None \<longleftrightarrow> b \<notin> set s"
  by (induction s) auto

lemma index_byte_append_notin: "b \<notin> set s \<Longrightarrow> index_byte (s @ b # t) b = Some (length s)"
  by (induction s) auto

lemma index_byte_Some:
  "index_byte s b = Some i \<longleftrightarrow> i < length s \<and> s ! i = b \<and> b \<notin> set (take i s)"
proof (induction s arbitrary: i)
  case Nil
  then show ?case by simp
next
  case (Cons c s)
  then show ?case by (cases i) auto
qed

lemma last_index_byte_None: "last_index_byte s b = None \<longleftrightarrow> b \<notin> set s"
  by (induction s) (auto split: option.splits)

lemma last_index_byte_append:
  "b \<notin> set t \<Longrightarrow> last_index_byte (s @ b # t) b = Some (length s)"
proof (induction s)
  case Nil
  then have "last_index_byte t b = None" by (simp add: last_index_byte_None)
  then show ?case by simp
next
  case (Cons c s)
  then show ?case by simp
qed

section \<open>Splitting and joining\<close>

lemma strings_split_not_Nil [simp]: "strings_split b s \<noteq> []"
  by (cases s) (auto split: list.splits)

fun strings_join :: "bytes list \<Rightarrow> bytes \<Rightarrow> bytes" where
  "strings_join [] sep = []"
| "strings_join [w] sep = w"
| "strings_join (w # ws) sep = w @ sep @ strings_join ws sep"

lemma strings_join_Cons:
  "ws \<noteq> [] \<Longrightarrow> strings_join (w # ws) sep = w @ sep @ strings_join ws sep"
  by (cases ws) auto

lemma join_split: "strings_join (strings_split b s) [b] = s"
proof (induction s)
  case Nil
  then show ?case by simp
next
  case (Cons c s)
  obtain w ws where ws: "strings_split b s = w # ws"
    by (cases "strings_split b s") auto
  with Cons show ?case
    by (cases ws) (auto simp: strings_join_Cons)
qed

lemma split_pieces: "\<forall>w\<in>set (strings_split b s). b \<notin> set w"
  by (induction s) (auto split: list.splits)

lemma split_append_sep:
  "b \<notin> set w \<Longrightarrow> strings_split b (w @ b # s) = w # strings_split b s"
  by (induction w) auto

lemma split_no_sep: "b \<notin> set w \<Longrightarrow> strings_split b w = [w]"
  by (induction w) auto

lemma length_split: "length (strings_split b s) = Suc (count_list s b)"
  by (induction s) (auto split: list.splits)

end
