(* ===== verification/Label.thy ===== *)
theory Label
  imports GoStrings
begin

text \<open>
  \<open>certificate.go\<close>, type \<open>label\<close>: an arbitrary key with a value, printed as \<open>key=value\<close>.
  The parser is the code's, index arithmetic included.
\<close>

record label =
  l_key :: bytes
  l_value :: bytes

definition zero_label :: label where
  "zero_label = \<lparr>l_key = [], l_value = []\<rparr>"

datatype label_error = InvalidLabel bytes

definition newLabel :: "bytes \<Rightarrow> bytes \<Rightarrow> label" where
  "newLabel key value = \<lparr>l_key = key, l_value = value\<rparr>"

definition label_String :: "label \<Rightarrow> bytes" where
  "label_String l = (if l_key l = [] then [] else l_key l @ ''='' @ l_value l)"

definition label_MarshalText :: "label \<Rightarrow> (label_error, bytes) res" where
  "label_MarshalText l = Ok (label_String l)"

definition label_MarshalBinary :: "label \<Rightarrow> (label_error, bytes) res" where
  "label_MarshalBinary l = label_MarshalText l"

text \<open>The receiver \<open>l\<close> is returned updated; an error leaves it as it was.\<close>

definition label_UnmarshalText :: "label \<Rightarrow> bytes \<Rightarrow> (label_error, label) res" where
  "label_UnmarshalText l text =
     (if length text = 0 then Ok l
      else
        case index_byte text CHR ''='' of
          None \<Rightarrow> Err (InvalidLabel text)
        | Some i \<Rightarrow>
            if i < 1 then Err (InvalidLabel text)
            else
              let l1 = l\<lparr>l_key := take (i - 1) text\<rparr> in
              Ok (if i < length text - 1 then l1\<lparr>l_value := drop (i + 1) text\<rparr> else l1))"

definition label_UnmarshalBinary :: "label \<Rightarrow> bytes \<Rightarrow> (label_error, label) res" where
  "label_UnmarshalBinary l data = label_UnmarshalText l data"

definition labelFromString :: "bytes \<Rightarrow> (label_error, label) res" where
  "labelFromString s = label_UnmarshalText zero_label s"

text \<open>A key the printed form can be split at.\<close>

definition label_ok :: "label \<Rightarrow> bool" where
  "label_ok l \<longleftrightarrow> l_key l \<noteq> [] \<and> CHR ''='' \<notin> set (l_key l)"

lemma label_String_zero [simp]: "label_String zero_label = []"
  by (simp add: label_String_def zero_label_def)

lemma labelFromString_Nil [simp]: "labelFromString [] = Ok zero_label"
  by (simp add: labelFromString_def label_UnmarshalText_def)

lemma label_UnmarshalText_split:
  assumes "k \<noteq> []" and "CHR ''='' \<notin> set k"
  shows "label_UnmarshalText l (k @ CHR ''='' # v)
           = Ok \<lparr>l_key = butlast k, l_value = (if v = [] then l_value l else v)\<rparr>"
proof -
  have "index_byte (k @ CHR ''='' # v) CHR ''='' = Some (length k)"
    using assms(2) by (rule index_byte_append_notin)
  then show ?thesis
    using assms(1) by (cases k rule: rev_cases) (auto simp: label_UnmarshalText_def Let_def)
qed

lemma labelFromString_cases:
  "labelFromString s =
     (case index_byte s CHR ''='' of
        None \<Rightarrow> if s = [] then Ok zero_label else Err (InvalidLabel s)
      | Some i \<Rightarrow>
          if i = 0 then Err (InvalidLabel s)
          else Ok \<lparr>l_key = take (i - 1) s, l_value = drop (i + 1) s\<rparr>)"
proof (cases "index_byte s CHR ''=''")
  case None
  then show ?thesis by (simp add: labelFromString_def label_UnmarshalText_def)
next
  case (Some i)
  then have "i < length s" by (simp add: index_byte_Some)
  with Some show ?thesis
    by (auto simp: labelFromString_def label_UnmarshalText_def zero_label_def Let_def)
qed

lemma labelFromString_no_panic [simp]: "labelFromString s \<noteq> Panic"
  by (simp add: labelFromString_def label_UnmarshalText_def Let_def split: option.split)

end
