(* ===== verification/Certificate.thy ===== *)
theory Certificate
  imports GoHex GoTime Label
begin

text \<open>
  \<open>certificate.go\<close> up to the signature operations: the certificate, its protobuf form, marshalling
  both ways, the fingerprint, signing and signature checking, and the match of a private key.

  What the code calls outside the repository is a field of the record \<open>extern\<close>, an argument of
  every definition that uses it: the protobuf runtime, the IDNA profile, X25519, HKDF and the
  NaCl box, and the primitives of \<open>crypto/ed25519\<close> and \<open>crypto/sha256\<close>.
\<close>

section \<open>The protobuf messages and the environment\<close>

record details_raw =
  r_Name :: bytes
  r_Labels :: "bytes list"
  r_NotBefore :: "64 word"
  r_NotAfter :: "64 word"
  r_PublicKey :: bytes
  r_IsCA :: bool
  r_Issuer :: bytes

record cert_raw =
  r_Details :: "details_raw option"
  r_Signature :: bytes

record extern =
  proto_marshal_details :: "details_raw \<Rightarrow> bytes option"
  proto_marshal_cert :: "cert_raw \<Rightarrow> bytes option"
  proto_unmarshal_cert :: "bytes \<Rightarrow> cert_raw option"
  idna_lookup :: "bytes \<Rightarrow> bool"
  ed25519_verify :: "bytes \<Rightarrow> bytes \<Rightarrow> bytes \<Rightarrow> bool"
  ed25519_sign :: "bytes \<Rightarrow> bytes \<Rightarrow> bytes"
  sha256_sum :: "bytes \<Rightarrow> bytes"
  x25519_base :: "bytes \<Rightarrow> bytes option"
  hkdf_sha256 :: "bytes \<Rightarrow> nat \<Rightarrow> bytes option"

section \<open>The certificate\<close>

definition x25519KeyLen :: nat where "x25519KeyLen = 32"
definition ed25519_PublicKeySize :: nat where "ed25519_PublicKeySize = 32"
definition ed25519_PrivateKeySize :: nat where "ed25519_PrivateKeySize = 64"

record cert_details =
  d_Name :: bytes
  d_Labels :: "label list"
  d_NotBefore :: time
  d_NotAfter :: time
  d_PublicKey :: bytes
  d_IsCA :: bool
  d_Issuer :: bytes

record certificate =
  Details :: cert_details
  Signature :: bytes

datatype cert_error =
    NilByte | InvalidCertificate | NoDetails | BadLabel bytes label_error | ShortPublicKey nat
  | BadName | InvalidIssuer bytes | MarshalFailed
  | BadKeyLength | KeyMismatch | X25519Failed
  | Blocked | NoIssuer | UnknownCA | RootExpired | CertExpired | SignatureMismatch
  | ExpiresAfterSigner | ValidBeforeSigner

section \<open>Marshalling\<close>

text \<open>
  The loop over the labels: each parsed label is appended to the slice, which was made with as
  many zero labels as there are strings.
\<close>

fun append_labels :: "label list \<Rightarrow> bytes list \<Rightarrow> (cert_error, label list) res" where
  "append_labels ls [] = Ok ls"
| "append_labels ls (s # ss) =
     (case labelFromString s of
        Ok l \<Rightarrow> append_labels (ls @ [l]) ss
      | Err e \<Rightarrow> Err (BadLabel s e)
      | Panic \<Rightarrow> Panic)"

definition UnmarshalAetherportCertificate ::
    "extern \<Rightarrow> bytes \<Rightarrow> (cert_error, certificate) res" where
  "UnmarshalAetherportCertificate E b =
     (if length b = 0 then Err NilByte
      else
        case proto_unmarshal_cert E b of
          None \<Rightarrow> Err InvalidCertificate
        | Some acr \<Rightarrow>
            (case r_Details acr of
               None \<Rightarrow> Err NoDetails
             | Some d \<Rightarrow>
                 rbind (append_labels (replicate (length (r_Labels d)) zero_label) (r_Labels d))
                   (\<lambda>labels.
                      if length (r_PublicKey d) < x25519KeyLen
                      then Err (ShortPublicKey (length (r_PublicKey d)))
                      else if \<not> idna_lookup E (r_Name d) then Err BadName
                      else Ok \<lparr>Details =
                                 \<lparr>d_Name = r_Name d, d_Labels = labels,
                                  d_NotBefore = time_Unix0 (r_NotBefore d),
                                  d_NotAfter = time_Unix0 (r_NotAfter d),
                                  d_PublicKey = r_PublicKey d, d_IsCA = r_IsCA d,
                                  d_Issuer = hex_encode (r_Issuer d)\<rparr>,
                               Signature = r_Signature acr\<rparr>)))"

definition getDetailsRaw :: "extern \<Rightarrow> certificate \<Rightarrow> (cert_error, details_raw) res" where
  "getDetailsRaw E ac =
     (let d = Details ac;
          labels = replicate (length (d_Labels d)) [] @ map label_String (d_Labels d)
      in case hex_decode (d_Issuer d) of
           None \<Rightarrow> Err (InvalidIssuer (d_Issuer d))
         | Some issuer \<Rightarrow>
             if \<not> idna_lookup E (d_Name d) then Err BadName
             else Ok \<lparr>r_Name = d_Name d, r_Labels = labels,
                      r_NotBefore = UnixNano (d_NotBefore d),
                      r_NotAfter = UnixNano (d_NotAfter d),
                      r_PublicKey = d_PublicKey d, r_IsCA = d_IsCA d, r_Issuer = issuer\<rparr>)"

definition of_option :: "'e \<Rightarrow> 'a option \<Rightarrow> ('e, 'a) res" where
  "of_option e x = (case x of None \<Rightarrow> Err e | Some a \<Rightarrow> Ok a)"

definition Marshal :: "extern \<Rightarrow> certificate \<Rightarrow> (cert_error, bytes) res" where
  "Marshal E ac =
     rbind (getDetailsRaw E ac)
       (\<lambda>dr. of_option MarshalFailed
               (proto_marshal_cert E \<lparr>r_Details = Some dr, r_Signature = Signature ac\<rparr>))"

definition Sha256Sum :: "extern \<Rightarrow> certificate \<Rightarrow> (cert_error, bytes) res" where
  "Sha256Sum E ac = rbind (Marshal E ac) (\<lambda>b. Ok (hex_encode (sha256_sum E b)))"

section \<open>Keys, signatures, validity\<close>

text \<open>\<open>ed25519.PrivateKey.Public\<close>: the second half of the key.\<close>

definition ed25519_Public :: "bytes \<Rightarrow> bytes" where
  "ed25519_Public key = drop 32 key"

definition VerifyPrivateKey :: "extern \<Rightarrow> certificate \<Rightarrow> bytes \<Rightarrow> (cert_error, unit) res" where
  "VerifyPrivateKey E ac key =
     (if d_IsCA (Details ac) then
        (if length key \<noteq> ed25519_PrivateKeySize then Err BadKeyLength
         else if d_PublicKey (Details ac) \<noteq> ed25519_Public key then Err KeyMismatch
         else Ok ())
      else
        case x25519_base E key of
          None \<Rightarrow> Err X25519Failed
        | Some pub \<Rightarrow> if pub \<noteq> d_PublicKey (Details ac) then Err KeyMismatch else Ok ())"

text \<open>The bytes a signature covers.\<close>

definition details_bytes :: "extern \<Rightarrow> certificate \<Rightarrow> (cert_error, bytes) res" where
  "details_bytes E ac =
     rbind (getDetailsRaw E ac) (\<lambda>r. of_option MarshalFailed (proto_marshal_details E r))"

text \<open>
  \<open>Sign\<close> updates its receiver, also when it fails after the issuer was set; \<open>key.Sign\<close> panics on
  a key of the wrong length.
\<close>

definition set_issuer :: "certificate \<Rightarrow> bytes \<Rightarrow> certificate" where
  "set_issuer ac i = ac\<lparr>Details := (Details ac)\<lparr>d_Issuer := i\<rparr>\<rparr>"

definition sign_details ::
    "extern \<Rightarrow> bytes \<Rightarrow> certificate \<Rightarrow> certificate \<times> (cert_error, unit) res" where
  "sign_details E key ac =
     (case details_bytes E ac of
        Ok b \<Rightarrow>
          if length key \<noteq> ed25519_PrivateKeySize then (ac, Panic)
          else (ac\<lparr>Signature := ed25519_sign E key b\<rparr>, Ok ())
      | Err e \<Rightarrow> (ac, Err e)
      | Panic \<Rightarrow> (ac, Panic))"

definition Sign ::
    "extern \<Rightarrow> bytes \<Rightarrow> certificate option \<Rightarrow> certificate
     \<Rightarrow> certificate \<times> (cert_error, unit) res" where
  "Sign E key cert ac =
     (case cert of
        None \<Rightarrow> sign_details E key ac
      | Some c \<Rightarrow>
          (case Sha256Sum E c of
             Ok fp \<Rightarrow> sign_details E key (set_issuer ac fp)
           | Err e \<Rightarrow> (set_issuer ac [], Err e)
           | Panic \<Rightarrow> (ac, Panic)))"

text \<open>\<open>ed25519.Verify\<close> panics on a public key of the wrong length: then the result is \<open>None\<close>.\<close>

definition CheckSignature :: "extern \<Rightarrow> certificate \<Rightarrow> bytes \<Rightarrow> bool option" where
  "CheckSignature E ac key =
     (case details_bytes E ac of
        Ok b \<Rightarrow>
          if length key \<noteq> ed25519_PublicKeySize then None
          else Some (ed25519_verify E key b (Signature ac))
      | _ \<Rightarrow> Some False)"

definition CheckRootConstrains :: "certificate \<Rightarrow> certificate \<Rightarrow> (cert_error, unit) res" where
  "CheckRootConstrains nc signer =
     (if time_Before (d_NotAfter (Details signer)) (d_NotAfter (Details nc))
      then Err ExpiresAfterSigner
      else if time_After (d_NotBefore (Details signer)) (d_NotBefore (Details nc))
      then Err ValidBeforeSigner
      else Ok ())"

definition Expired :: "certificate \<Rightarrow> time \<Rightarrow> bool" where
  "Expired ac t \<longleftrightarrow>
     time_After (d_NotBefore (Details ac)) t \<or> time_Before (d_NotAfter (Details ac)) t"

section \<open>What the environment promises\<close>

text \<open>
  The protobuf runtime: unmarshalling inverts marshalling, the empty input is the empty message,
  and different messages have different encodings.
\<close>

definition proto_laws :: "extern \<Rightarrow> bool" where
  "proto_laws E \<longleftrightarrow>
     (\<forall>m b. proto_marshal_cert E m = Some b \<longrightarrow> proto_unmarshal_cert E b = Some m)
     \<and> proto_unmarshal_cert E [] = Some \<lparr>r_Details = None, r_Signature = []\<rparr>
     \<and> (\<forall>d d' b. proto_marshal_details E d = Some b \<longrightarrow> proto_marshal_details E d' = Some b
            \<longrightarrow> d = d')"

text \<open>Ed25519: a key pair whose signatures verify, and whose signatures bind the message.\<close>

definition ed25519_pair :: "extern \<Rightarrow> bytes \<Rightarrow> bool" where
  "ed25519_pair E key \<longleftrightarrow>
     length key = ed25519_PrivateKeySize
     \<and> (\<forall>m. ed25519_verify E (ed25519_Public key) m (ed25519_sign E key m))"

definition ed25519_binding :: "extern \<Rightarrow> bytes \<Rightarrow> bool" where
  "ed25519_binding E key \<longleftrightarrow>
     (\<forall>m m'. ed25519_verify E (ed25519_Public key) m (ed25519_sign E key m') \<longrightarrow> m = m')"

text \<open>A SHA-256 digest has 32 bytes.\<close>

definition sha256_size :: "extern \<Rightarrow> bool" where
  "sha256_size E \<longleftrightarrow> (\<forall>b. length (sha256_sum E b) = 32)"

lemma proto_lawsD:
  assumes "proto_laws E"
  shows "proto_marshal_cert E m = Some b \<Longrightarrow> proto_unmarshal_cert E b = Some m"
    and "proto_marshal_details E d = Some b' \<Longrightarrow> proto_marshal_details E d' = Some b' \<Longrightarrow> d = d'"
  using assms by (auto simp: proto_laws_def)

lemma proto_marshal_nonempty:
  "proto_laws E \<Longrightarrow> proto_marshal_cert E \<lparr>r_Details = Some d, r_Signature = s\<rparr> = Some b \<Longrightarrow> b \<noteq> []"
  by (auto simp: proto_laws_def)

lemma length_ed25519_Public:
  "length key = ed25519_PrivateKeySize \<Longrightarrow> length (ed25519_Public key) = ed25519_PublicKeySize"
  by (simp add: ed25519_Public_def ed25519_PrivateKeySize_def ed25519_PublicKeySize_def)

section \<open>Lemmas on the operations\<close>

lemma of_option_simps [simp]:
  "of_option e x = Ok a \<longleftrightarrow> x = Some a" "of_option e x \<noteq> Panic"
  by (auto simp: of_option_def split: option.splits)

lemma append_labels_length:
  "append_labels ls ss = Ok r \<Longrightarrow> length r = length ls + length ss"
  by (induction ls ss rule: append_labels.induct) (auto split: res.splits)

lemma append_labels_no_panic [simp]: "append_labels ls ss \<noteq> Panic"
  by (induction ls ss rule: append_labels.induct) (auto split: res.splits)

lemma append_labels_empties:
  "append_labels ls (replicate n [] @ ss) = append_labels (ls @ replicate n zero_label) ss"
  by (induction n arbitrary: ls) (simp_all add: replicate_app_Cons_same)

text \<open>The label a printed label parses to: its key without the last byte.\<close>

definition chop_key :: "label \<Rightarrow> label" where
  "chop_key l = l\<lparr>l_key := butlast (l_key l)\<rparr>"

lemma labelFromString_String:
  "label_ok l \<Longrightarrow> labelFromString (label_String l) = Ok (chop_key l)"
  using label_UnmarshalText_split [of "l_key l" zero_label "l_value l"]
  by (cases l) (auto simp: label_ok_def label_String_def labelFromString_def chop_key_def
      zero_label_def)

lemma append_labels_strings:
  "\<forall>l\<in>set xs. label_ok l \<Longrightarrow> append_labels ls (map label_String xs) = Ok (ls @ map chop_key xs)"
  by (induction xs arbitrary: ls) (auto simp: labelFromString_String)

lemma getDetailsRaw_Ok:
  "getDetailsRaw E ac = Ok r \<longleftrightarrow>
     (\<exists>issuer. hex_decode (d_Issuer (Details ac)) = Some issuer
        \<and> idna_lookup E (d_Name (Details ac))
        \<and> r = \<lparr>r_Name = d_Name (Details ac),
               r_Labels = replicate (length (d_Labels (Details ac))) []
                          @ map label_String (d_Labels (Details ac)),
               r_NotBefore = UnixNano (d_NotBefore (Details ac)),
               r_NotAfter = UnixNano (d_NotAfter (Details ac)),
               r_PublicKey = d_PublicKey (Details ac), r_IsCA = d_IsCA (Details ac),
               r_Issuer = issuer\<rparr>)"
  by (auto simp: getDetailsRaw_def Let_def split: option.splits)

lemma getDetailsRaw_no_panic [simp]: "getDetailsRaw E ac \<noteq> Panic"
  by (simp add: getDetailsRaw_def Let_def split: option.split)

lemma details_bytes_no_panic [simp]: "details_bytes E ac \<noteq> Panic"
  by (simp add: details_bytes_def rbind_eq_Panic)

lemma Marshal_no_panic [simp]: "Marshal E ac \<noteq> Panic"
  by (simp add: Marshal_def rbind_eq_Panic)

lemma Sha256Sum_no_panic [simp]: "Sha256Sum E ac \<noteq> Panic"
  by (simp add: Sha256Sum_def rbind_eq_Panic)

lemma UnmarshalAetherportCertificate_no_panic [simp]:
  "UnmarshalAetherportCertificate E b \<noteq> Panic"
  by (auto simp: UnmarshalAetherportCertificate_def rbind_eq_Panic split: option.splits)

lemma Marshal_Ok:
  "Marshal E ac = Ok b \<longleftrightarrow>
     (\<exists>r. getDetailsRaw E ac = Ok r
        \<and> proto_marshal_cert E \<lparr>r_Details = Some r, r_Signature = Signature ac\<rparr> = Some b)"
  by (auto simp: Marshal_def rbind_eq_Ok)

lemma details_bytes_Ok:
  "details_bytes E ac = Ok b \<longleftrightarrow>
     (\<exists>r. getDetailsRaw E ac = Ok r \<and> proto_marshal_details E r = Some b)"
  by (auto simp: details_bytes_def rbind_eq_Ok)

lemma Sha256Sum_hex: "Sha256Sum E ac = Ok fp \<Longrightarrow> canonical_hex fp"
  by (auto simp: Sha256Sum_def rbind_eq_Ok)

lemma Sha256Sum_nonempty: "sha256_size E \<Longrightarrow> Sha256Sum E ac = Ok fp \<Longrightarrow> fp \<noteq> []"
proof -
  assume E: "sha256_size E" and "Sha256Sum E ac = Ok fp"
  then obtain b where fp: "fp = hex_encode (sha256_sum E b)"
    by (auto simp: Sha256Sum_def rbind_eq_Ok)
  have "length (sha256_sum E b) = 32" using E by (simp add: sha256_size_def)
  with fp show "fp \<noteq> []" by auto
qed

lemma Unmarshal_Ok:
  "UnmarshalAetherportCertificate E b = Ok ac \<Longrightarrow>
     x25519KeyLen \<le> length (d_PublicKey (Details ac)) \<and> idna_lookup E (d_Name (Details ac))
     \<and> nano_range (d_NotBefore (Details ac)) \<and> nano_range (d_NotAfter (Details ac))
     \<and> canonical_hex (d_Issuer (Details ac))"
  by (auto simp: UnmarshalAetherportCertificate_def rbind_eq_Ok not_less
      split: if_splits option.splits)

text \<open>Changing the signature changes nothing a signature covers.\<close>

lemma getDetailsRaw_Signature [simp]:
  "getDetailsRaw E (ac\<lparr>Signature := s\<rparr>) = getDetailsRaw E ac"
  by (simp add: getDetailsRaw_def)

lemma details_bytes_Signature [simp]:
  "details_bytes E (ac\<lparr>Signature := s\<rparr>) = details_bytes E ac"
  by (simp add: details_bytes_def)

lemma Sign_Ok_details:
  assumes "Sign E key cert ac = (ac', Ok ())"
  shows "\<exists>b. details_bytes E ac' = Ok b \<and> Signature ac' = ed25519_sign E key b
           \<and> length key = ed25519_PrivateKeySize"
  using assms
  by (auto simp: Sign_def sign_details_def split: option.splits res.splits if_splits)

lemma Sign_details:
  assumes "Sign E key cert ac = (ac', Ok ())"
  shows "\<exists>i s. ac' = ac\<lparr>Details := (Details ac)\<lparr>d_Issuer := i\<rparr>, Signature := s\<rparr>
           \<and> (case cert of None \<Rightarrow> i = d_Issuer (Details ac) | Some c \<Rightarrow> Sha256Sum E c = Ok i)"
  using assms
  by (auto simp: Sign_def sign_details_def set_issuer_def split: option.splits res.splits if_splits)

text \<open>
  One trip over the wire, in general: what \<open>UnmarshalAetherportCertificate\<close> makes of the output
  of \<open>Marshal\<close>.
\<close>

lemma Unmarshal_Marshal:
  assumes "proto_laws E" and "Marshal E ac = Ok b"
    and "hex_decode (d_Issuer (Details ac)) = Some issuer"
  shows "UnmarshalAetherportCertificate E b =
     rbind (append_labels (replicate (3 * length (d_Labels (Details ac))) zero_label)
              (map label_String (d_Labels (Details ac))))
       (\<lambda>labels.
          if length (d_PublicKey (Details ac)) < x25519KeyLen
          then Err (ShortPublicKey (length (d_PublicKey (Details ac))))
          else Ok (ac\<lparr>Details := (Details ac)
                 \<lparr>d_Labels := labels,
                  d_NotBefore := time_Unix0 (UnixNano (d_NotBefore (Details ac))),
                  d_NotAfter := time_Unix0 (UnixNano (d_NotAfter (Details ac))),
                  d_Issuer := hex_encode issuer\<rparr>\<rparr>))"
proof -
  let ?n = "length (d_Labels (Details ac))"
  obtain r where r: "getDetailsRaw E ac = Ok r"
    and m: "proto_marshal_cert E \<lparr>r_Details = Some r, r_Signature = Signature ac\<rparr> = Some b"
    using assms(2) by (auto simp: Marshal_Ok)
  have u: "proto_unmarshal_cert E b = Some \<lparr>r_Details = Some r, r_Signature = Signature ac\<rparr>"
    using assms(1) m by (rule proto_lawsD)
  have "b \<noteq> []" using assms(1) m by (rule proto_marshal_nonempty)
  moreover have "replicate (2 * ?n) zero_label @ replicate ?n zero_label
      = replicate (3 * ?n) zero_label"
    by (simp flip: replicate_add)
  ultimately show ?thesis
    using r u assms(3)
    by (cases ac) (auto simp: UnmarshalAetherportCertificate_def getDetailsRaw_Ok
        append_labels_empties mult_2 intro!: arg_cong [where f = "rbind _"])
qed

end
