(* ===== verification/ExternModel.thy ===== *)
theory ExternModel
  imports Certificate
begin

text \<open>
  A concrete environment that satisfies what the development assumes of the code outside the
  repository, so that the witnesses can apply its theorems at concrete inputs. Nothing else
  depends on it: it is no claim about the real protobuf runtime or the real Ed25519.

  Messages are written field by field in a self-delimiting form, a signature is the public key
  followed by the message, the hash is the first 32 bytes of its input.
\<close>

section \<open>Self-delimiting encodings\<close>

fun put_bytes :: "bytes \<Rightarrow> bytes" where
  "put_bytes [] = [CHR 0x00]"
| "put_bytes (c # s) = CHR 0x01 # c # put_bytes s"

fun get_bytes :: "bytes \<Rightarrow> (bytes \<times> bytes) option" where
  "get_bytes [] = None"
| "get_bytes [t] = (if t = CHR 0x00 then Some ([], []) else None)"
| "get_bytes (t # c # s) =
     (if t = CHR 0x00 then Some ([], c # s)
      else case get_bytes s of None \<Rightarrow> None | Some (b, r) \<Rightarrow> Some (c # b, r))"

lemma get_put_bytes [simp]: "get_bytes (put_bytes b @ r) = Some (b, r)"
proof (induction b)
  case Nil
  then show ?case by (cases r) auto
next
  case (Cons c b)
  then show ?case by simp
qed

fun put_list :: "bytes list \<Rightarrow> bytes" where
  "put_list [] = [CHR 0x00]"
| "put_list (x # xs) = CHR 0x01 # put_bytes x @ put_list xs"

fun get_list :: "nat \<Rightarrow> bytes \<Rightarrow> (bytes list \<times> bytes) option" where
  "get_list 0 s = None"
| "get_list (Suc n) [] = None"
| "get_list (Suc n) (t # s) =
     (if t = CHR 0x00 then Some ([], s)
      else case get_bytes s of
             None \<Rightarrow> None
           | Some (x, r) \<Rightarrow>
               (case get_list n r of None \<Rightarrow> None | Some (xs, q) \<Rightarrow> Some (x # xs, q)))"

lemma get_put_list: "length xs < n \<Longrightarrow> get_list n (put_list xs @ r) = Some (xs, r)"
proof (induction xs arbitrary: n)
  case Nil
  then show ?case by (cases n) auto
next
  case (Cons x xs)
  then show ?case by (cases n) auto
qed

lemma length_put_bytes: "0 < length (put_bytes b)"
  by (cases b) auto

lemma length_put_list: "length xs < length (put_list xs)"
proof (induction xs)
  case Nil
  then show ?case by simp
next
  case (Cons x xs)
  then show ?case by simp
qed

definition put_word :: "64 word \<Rightarrow> bytes" where
  "put_word w = map (\<lambda>i. if bit w i then CHR 0x01 else CHR 0x00) [0..<64]"

definition get_word :: "bytes \<Rightarrow> 64 word \<times> bytes" where
  "get_word s = (horner_sum of_bool 2 (map (\<lambda>c. c = CHR 0x01) (take 64 s)), drop 64 s)"

lemma get_put_word [simp]: "get_word (put_word w @ r) = (w, r)"
proof -
  have "map (\<lambda>c. c = CHR 0x01) (put_word w) = map (bit w) [0..<64]"
    by (simp add: put_word_def comp_def cong: if_cong)
  moreover have "length (put_word w) = 64" by (simp add: put_word_def)
  moreover have "take_bit 64 w = w"
    by (rule bit_word_eqI) (simp add: bit_take_bit_iff)
  ultimately show ?thesis
    by (simp add: get_word_def horner_sum_bit_eq_take_bit)
qed

section \<open>The messages\<close>

definition put_details :: "details_raw \<Rightarrow> bytes" where
  "put_details d =
     put_bytes (r_Name d) @ put_list (r_Labels d) @ put_word (r_NotBefore d)
     @ put_word (r_NotAfter d) @ put_bytes (r_PublicKey d)
     @ put_bytes (if r_IsCA d then [CHR 0x01] else []) @ put_bytes (r_Issuer d)"

definition get_details :: "bytes \<Rightarrow> (details_raw \<times> bytes) option" where
  "get_details s =
     (case get_bytes s of None \<Rightarrow> None | Some (name, s1) \<Rightarrow>
      case get_list (Suc (length s1)) s1 of None \<Rightarrow> None | Some (labels, s2) \<Rightarrow>
      let (nb, s3) = get_word s2; (na, s4) = get_word s3 in
      case get_bytes s4 of None \<Rightarrow> None | Some (pk, s5) \<Rightarrow>
      case get_bytes s5 of None \<Rightarrow> None | Some (ca, s6) \<Rightarrow>
      case get_bytes s6 of None \<Rightarrow> None | Some (issuer, s7) \<Rightarrow>
        Some (\<lparr>r_Name = name, r_Labels = labels, r_NotBefore = nb, r_NotAfter = na,
               r_PublicKey = pk, r_IsCA = (ca \<noteq> []), r_Issuer = issuer\<rparr>, s7))"

lemma get_put_details [simp]: "get_details (put_details d @ r) = Some (d, r)"
  by (cases d) (simp add: get_details_def put_details_def get_put_list length_put_list
      less_SucI trans_less_add1)

definition put_cert :: "cert_raw \<Rightarrow> bytes" where
  "put_cert m =
     (case r_Details m of None \<Rightarrow> if r_Signature m = [] then [] else CHR 0x00 # put_bytes (r_Signature m)
      | Some d \<Rightarrow> CHR 0x01 # put_details d @ put_bytes (r_Signature m))"

definition get_cert :: "bytes \<Rightarrow> cert_raw option" where
  "get_cert s =
     (case s of
        [] \<Rightarrow> Some \<lparr>r_Details = None, r_Signature = []\<rparr>
      | t # s' \<Rightarrow>
          if t = CHR 0x00 then
            map_option (\<lambda>(sig, _). \<lparr>r_Details = None, r_Signature = sig\<rparr>) (get_bytes s')
          else
            (case get_details s' of None \<Rightarrow> None
             | Some (d, q) \<Rightarrow>
                 map_option (\<lambda>(sig, _). \<lparr>r_Details = Some d, r_Signature = sig\<rparr>) (get_bytes q)))"

lemma get_put_cert: "get_cert (put_cert m) = Some m"
  using get_put_bytes [of "r_Signature m" "[]"]
  by (cases m) (auto simp: get_cert_def put_cert_def split: option.splits)

definition demo_env :: extern where
  "demo_env =
     \<lparr>proto_marshal_details = (\<lambda>d. Some (put_details d)),
      proto_marshal_cert = (\<lambda>m. Some (put_cert m)),
      proto_unmarshal_cert = get_cert,
      idna_lookup = (\<lambda>n. CHR 0x20 \<notin> set n),
      ed25519_verify = (\<lambda>pk m s. s = pk @ m),
      ed25519_sign = (\<lambda>sk m. ed25519_Public sk @ m),
      sha256_sum = (\<lambda>b. take 32 (b @ replicate 32 CHR 0x00)),
      x25519_base = (\<lambda>k. if length k = 32 then Some (rev k) else None),
      hkdf_sha256 = (\<lambda>ikm n. Some (take n (ikm @ replicate n CHR 0x00)))\<rparr>"

definition demo_key :: bytes where
  "demo_key = replicate 32 CHR 0x07 @ replicate 32 CHR 0x09"

lemma demo_proto_laws: "proto_laws demo_env"
proof -
  have "put_details d = put_details d' \<Longrightarrow> d = d'" for d d'
    using get_put_details [of d "[]"] get_put_details [of d' "[]"] by simp
  then show ?thesis
    by (auto simp: proto_laws_def demo_env_def get_put_cert) (simp add: get_cert_def)
qed

lemma demo_pair: "length key = ed25519_PrivateKeySize \<Longrightarrow> ed25519_pair demo_env key"
  by (simp add: ed25519_pair_def demo_env_def)

lemma demo_binding: "ed25519_binding demo_env key"
  by (simp add: ed25519_binding_def demo_env_def)

lemma length_demo_key: "length demo_key = ed25519_PrivateKeySize"
  by (simp add: demo_key_def ed25519_PrivateKeySize_def)

text \<open>In the concrete environment marshalling fails only for a bad name or issuer.\<close>

lemma demo_Marshal:
  "hex_decode (d_Issuer (Details ac)) \<noteq> None \<Longrightarrow> idna_lookup demo_env (d_Name (Details ac))
    \<Longrightarrow> \<exists>b. Marshal demo_env ac = Ok b"
  by (auto simp: Marshal_Ok getDetailsRaw_Ok demo_env_def)

lemma demo_details_bytes:
  "hex_decode (d_Issuer (Details ac)) \<noteq> None \<Longrightarrow> idna_lookup demo_env (d_Name (Details ac))
    \<Longrightarrow> \<exists>b. details_bytes demo_env ac = Ok b"
  by (auto simp: details_bytes_Ok getDetailsRaw_Ok demo_env_def)

lemma demo_idna: "idna_lookup demo_env n \<longleftrightarrow> CHR 0x20 \<notin> set n"
  by (simp add: demo_env_def)

text \<open>A self-signed CA certificate and a certificate with a label.\<close>

definition demo_ca :: certificate where
  "demo_ca =
     \<lparr>Details = \<lparr>d_Name = ''aetherport.ca'', d_Labels = [], d_NotBefore = 0, d_NotAfter = 1000,
                 d_PublicKey = ed25519_Public demo_key, d_IsCA = True, d_Issuer = []\<rparr>,
      Signature = []\<rparr>"

definition demo_labelled :: certificate where
  "demo_labelled = demo_ca\<lparr>Details := (Details demo_ca)\<lparr>d_Labels := [newLabel ''env'' ''prod'']\<rparr>\<rparr>"

lemma demo_Sign:
  assumes "hex_decode (d_Issuer (Details ac)) \<noteq> None" and "idna_lookup demo_env (d_Name (Details ac))"
    and "length key = ed25519_PrivateKeySize"
  shows "\<exists>s. Sign demo_env key None ac = (ac\<lparr>Signature := s\<rparr>, Ok ())"
  using demo_details_bytes [OF assms(1,2)] assms(3) by (auto simp: Sign_def sign_details_def)

text \<open>A well-formed certificate survives the trip in the concrete environment.\<close>

lemma demo_trip:
  assumes "Marshal demo_env ac = Ok b" and "\<forall>l\<in>set (d_Labels (Details ac)). label_ok l"
    and "x25519KeyLen \<le> length (d_PublicKey (Details ac))"
  shows "\<exists>ac'. UnmarshalAetherportCertificate demo_env b = Ok ac'"
proof -
  obtain i where i: "hex_decode (d_Issuer (Details ac)) = Some i"
    using assms(1) by (auto simp: Marshal_Ok getDetailsRaw_Ok)
  show ?thesis
    using assms(2,3) by (simp add: Unmarshal_Marshal [OF demo_proto_laws assms(1) i]
        append_labels_strings)
qed

lemma demo_labelled_simps [simp]:
  "d_Labels (Details demo_labelled) = [newLabel ''env'' ''prod'']"
  "d_PublicKey (Details demo_labelled) = ed25519_Public demo_key"
  "d_Issuer (Details demo_labelled) = []" "d_Name (Details demo_labelled) = ''aetherport.ca''"
  by (simp_all add: demo_labelled_def demo_ca_def)

lemma demo_ca_simps [simp]:
  "d_Labels (Details demo_ca) = []" "d_PublicKey (Details demo_ca) = ed25519_Public demo_key"
  "d_Issuer (Details demo_ca) = []" "d_Name (Details demo_ca) = ''aetherport.ca''"
  "d_NotBefore (Details demo_ca) = 0" "d_NotAfter (Details demo_ca) = 1000"
  "d_IsCA (Details demo_ca)"
  by (simp_all add: demo_ca_def)

lemma demo_public_length [simp]: "length (ed25519_Public demo_key) = 32"
  by (simp add: ed25519_Public_def demo_key_def)

end
