(* ===== verification/CertCodec.thy ===== *)
theory CertCodec
  imports ExternModel
begin

text \<open>
  What a trip over the wire (\<open>Marshal\<close>, then \<open>UnmarshalAetherportCertificate\<close>) does to a
  certificate, to its labels and to its signature.
\<close>

text \<open>A printed label, read back, has lost the last byte of its key: \<open>labelFromString\<close> cuts
  the key one byte before the equals sign.\<close>

lemma label_roundtrip_drops_byte:
  "label_ok l \<Longrightarrow>
     labelFromString (label_String l) = Ok (l\<lparr>l_key := butlast (l_key l)\<rparr>)
     \<and> l\<lparr>l_key := butlast (l_key l)\<rparr> \<noteq> l"
proof -
  assume l: "label_ok l"
  then have "length (butlast (l_key l)) \<noteq> length (l_key l)"
    by (cases "l_key l" rule: rev_cases) (auto simp: label_ok_def)
  then have "l\<lparr>l_key := butlast (l_key l)\<rparr> \<noteq> l"
    by (metis label.select_convs(1) label.surjective label.update_convs(1))
  with labelFromString_String [OF l] show ?thesis by (simp add: chop_key_def)
qed

text \<open>C32. Without labels, with instants in the range of \<open>UnixNano\<close>, a canonical issuer and a
  public key of at least 32 bytes, unmarshalling inverts marshalling.\<close>

theorem cert_roundtrip:
  assumes "proto_laws E" and "Marshal E ac = Ok b"
    and "d_Labels (Details ac) = []"
    and "nano_range (d_NotBefore (Details ac))" and "nano_range (d_NotAfter (Details ac))"
    and "canonical_hex (d_Issuer (Details ac))"
    and "x25519KeyLen \<le> length (d_PublicKey (Details ac))"
  shows "UnmarshalAetherportCertificate E b = Ok ac"
proof -
  obtain i where i: "hex_decode (d_Issuer (Details ac)) = Some i" "hex_encode i = d_Issuer (Details ac)"
    using canonical_hex_decode [OF assms(6)] by blast
  from assms show ?thesis
    by (cases ac) (simp add: Unmarshal_Marshal [OF assms(1,2) i(1)] i(2) time_Unix0_UnixNano)
qed

theorem cert_roundtrip_witness:
  "\<exists>b. Marshal demo_env demo_ca = Ok b \<and> UnmarshalAetherportCertificate demo_env b = Ok demo_ca"
proof -
  obtain b where b: "Marshal demo_env demo_ca = Ok b"
    using demo_Marshal [of demo_ca] by (auto simp: demo_idna)
  have "UnmarshalAetherportCertificate demo_env b = Ok demo_ca"
    by (rule cert_roundtrip [OF demo_proto_laws b])
      (simp_all add: nano_range_def min_duration_def max_duration_def x25519KeyLen_def)
  with b show ?thesis by blast
qed

text \<open>A certificate with \<open>n\<close> labels comes back with \<open>4 * n\<close>: three zero labels for each,
  then the labels themselves, their keys cut.\<close>

lemma cert_labels_multiply:
  assumes "proto_laws E" and "Marshal E ac = Ok b"
    and "\<forall>l\<in>set (d_Labels (Details ac)). label_ok l"
    and "x25519KeyLen \<le> length (d_PublicKey (Details ac))"
  shows "\<exists>ac'. UnmarshalAetherportCertificate E b = Ok ac'
           \<and> length (d_Labels (Details ac')) = 4 * length (d_Labels (Details ac))
           \<and> d_Labels (Details ac') =
               replicate (3 * length (d_Labels (Details ac))) zero_label
               @ map (\<lambda>l. l\<lparr>l_key := butlast (l_key l)\<rparr>) (d_Labels (Details ac))"
proof -
  obtain i where i: "hex_decode (d_Issuer (Details ac)) = Some i"
    using assms(2) by (auto simp: Marshal_Ok getDetailsRaw_Ok)
  show ?thesis
    using assms(3,4) unfolding Unmarshal_Marshal [OF assms(1,2) i]
    by (simp add: append_labels_strings chop_key_def [abs_def])
qed

text \<open>C25. A certificate signed in memory passes \<open>CheckSignature\<close> under the signer's public key:
  \<open>Sign\<close> and \<open>CheckSignature\<close> cover the same bytes, the issuer that \<open>Sign\<close> sets included. Only
  the issuer and the signature change; the issuer becomes the fingerprint of the signer's
  certificate when there is one.\<close>

theorem sign_then_check:
  assumes "ed25519_pair E key" and "Sign E key cert ac = (ac', Ok ())"
  shows "CheckSignature E ac' (ed25519_Public key) = Some True
    \<and> (\<exists>i. Details ac' = (Details ac)\<lparr>d_Issuer := i\<rparr>
          \<and> (case cert of None \<Rightarrow> i = d_Issuer (Details ac) | Some c \<Rightarrow> Sha256Sum E c = Ok i))"
proof -
  obtain b where b: "details_bytes E ac' = Ok b" "Signature ac' = ed25519_sign E key b"
    "length key = ed25519_PrivateKeySize"
    using Sign_Ok_details [OF assms(2)] by blast
  then have "CheckSignature E ac' (ed25519_Public key) = Some True"
    using assms(1) length_ed25519_Public [OF b(3)]
    by (simp add: CheckSignature_def ed25519_pair_def)
  then show ?thesis using Sign_details [OF assms(2)] by auto
qed

theorem sign_then_check_witness:
  "\<exists>ac'. Sign demo_env demo_key None demo_ca = (ac', Ok ())
     \<and> CheckSignature demo_env ac' (ed25519_Public demo_key) = Some True"
proof -
  obtain b where b: "details_bytes demo_env demo_ca = Ok b"
    using demo_details_bytes [of demo_ca] by (auto simp: demo_idna)
  then have s: "Sign demo_env demo_key None demo_ca
      = (demo_ca\<lparr>Signature := ed25519_sign demo_env demo_key b\<rparr>, Ok ())"
    by (simp add: Sign_def sign_details_def length_demo_key)
  with sign_then_check [OF demo_pair [OF length_demo_key] s] show ?thesis by blast
qed

text \<open>A certificate with labels never verifies after a trip over the wire: the labels the
  receiver marshals again are not the labels that were signed. The only assumptions are that the
  protobuf encoding is injective and that a signature binds its message.\<close>

lemma labelled_cert_signature_lost:
  assumes "proto_laws E" and "ed25519_binding E key"
    and "Sign E key cert ac0 = (ac, Ok ())" and "d_Labels (Details ac) \<noteq> []"
    and "Marshal E ac = Ok b" and "UnmarshalAetherportCertificate E b = Ok ac'"
  shows "CheckSignature E ac' (ed25519_Public key) = Some False"
proof -
  obtain m where m: "details_bytes E ac = Ok m" "Signature ac = ed25519_sign E key m"
    "length key = ed25519_PrivateKeySize"
    using Sign_Ok_details [OF assms(3)] by blast
  obtain i where i: "hex_decode (d_Issuer (Details ac)) = Some i"
    using assms(5) by (auto simp: Marshal_Ok getDetailsRaw_Ok)
  have trip: "length (d_Labels (Details ac')) = 4 * length (d_Labels (Details ac))
      \<and> Signature ac' = Signature ac"
    using assms(6) unfolding Unmarshal_Marshal [OF assms(1,5) i]
    by (auto simp: rbind_eq_Ok dest!: append_labels_length split: if_splits)
  have "m \<noteq> m'" if m': "details_bytes E ac' = Ok m'" for m'
  proof
    assume "m = m'"
    with m(1) m' have "\<exists>r. getDetailsRaw E ac = Ok r \<and> getDetailsRaw E ac' = Ok r"
      using proto_lawsD(2) [OF assms(1)] by (auto simp: details_bytes_Ok)
    then have "2 * length (d_Labels (Details ac)) = 2 * length (d_Labels (Details ac'))"
      by (auto simp: getDetailsRaw_Ok dest!: arg_cong [of _ _ length])
    with trip assms(4) show False by simp
  qed
  then show ?thesis
    using assms(2) m trip length_ed25519_Public [OF m(3)]
    by (auto simp: CheckSignature_def ed25519_binding_def split: res.splits)
qed

text \<open>The private key check: for a CA certificate the key must be 64 bytes and end in the
  certificate's public key, for a node certificate X25519 must map it to that public key.\<close>

lemma VerifyPrivateKey_iff:
  "VerifyPrivateKey E ac key = Ok () \<longleftrightarrow>
     (if d_IsCA (Details ac)
      then length key = 64 \<and> d_PublicKey (Details ac) = drop 32 key
      else x25519_base E key = Some (d_PublicKey (Details ac)))"
  by (auto simp: VerifyPrivateKey_def ed25519_PrivateKeySize_def ed25519_Public_def
      split: option.splits)

end
