(* ===== verification/GoBase64.thy ===== *)
theory GoBase64
  imports Prelude
begin

text \<open>
  Go's \<open>encoding/base64\<close> with the standard alphabet and \<open>=\<close> padding, as \<open>encoding/pem\<close> uses
  it. The decoder skips carriage returns and newlines wherever they stand and then wants
  complete quanta, padding in the last one only.
\<close>

definition b64_alphabet :: "bytes" where
  "b64_alphabet = ''ABCDEFGHIJKLMNOPQRSTUVWXYZabcdefghijklmnopqrstuvwxyz0123456789+/''"

definition b64_char :: "nat \<Rightarrow> byte" where
  "b64_char n = b64_alphabet ! n"

definition b64_val :: "byte \<Rightarrow> nat option" where
  "b64_val c =
     (let n = byte_val c in
      if 65 \<le> n \<and> n \<le> 90 then Some (n - 65)
      else if 97 \<le> n \<and> n \<le> 122 then Some (n - 97 + 26)
      else if 48 \<le> n \<and> n \<le> 57 then Some (n - 48 + 52)
      else if n = 43 then Some 62
      else if n = 47 then Some 63
      else None)"

fun b64_encode :: "bytes \<Rightarrow> bytes" where
  "b64_encode [] = []"
| "b64_encode [x] =
     [b64_char (byte_val x div 4), b64_char (byte_val x mod 4 * 16), CHR ''='', CHR ''='']"
| "b64_encode [x, y] =
     [b64_char (byte_val x div 4), b64_char (byte_val x mod 4 * 16 + byte_val y div 16),
      b64_char (byte_val y mod 16 * 4), CHR ''='']"
| "b64_encode (x # y # z # s) =
     b64_char (byte_val x div 4) # b64_char (byte_val x mod 4 * 16 + byte_val y div 16) #
     b64_char (byte_val y mod 16 * 4 + byte_val z div 64) # b64_char (byte_val z mod 64) #
     b64_encode s"

text \<open>One quantum: 4 characters to at most 3 bytes; \<open>pad\<close> is the padding character.\<close>

fun b64_quanta :: "bytes \<Rightarrow> bytes option" where
  "b64_quanta [] = Some []"
| "b64_quanta (a # b # c # d # s) =
     (case (b64_val a, b64_val b) of
        (Some i, Some j) \<Rightarrow>
          (if s = [] \<and> c = CHR ''='' \<and> d = CHR ''='' then Some [byte_of (i * 4 + j div 16)]
           else
             (case b64_val c of
                None \<Rightarrow> None
              | Some k \<Rightarrow>
                  if s = [] \<and> d = CHR ''='' then
                    Some [byte_of (i * 4 + j div 16), byte_of (j mod 16 * 16 + k div 4)]
                  else
                    (case b64_val d of
                       None \<Rightarrow> None
                     | Some l \<Rightarrow>
                         map_option
                           (\<lambda>r. byte_of (i * 4 + j div 16) # byte_of (j mod 16 * 16 + k div 4) #
                                byte_of (k mod 4 * 64 + l) # r)
                           (b64_quanta s))))
      | _ \<Rightarrow> None)"
| "b64_quanta _ = None"

definition is_newline :: "byte \<Rightarrow> bool" where
  "is_newline c \<longleftrightarrow> c = CHR 0x0A \<or> c = CHR 0x0D"

definition b64_decode :: "bytes \<Rightarrow> bytes option" where
  "b64_decode s = b64_quanta (filter (\<lambda>c. \<not> is_newline c) s)"

section \<open>The round trip\<close>

lemma b64_val_char: "n < 64 \<Longrightarrow> b64_val (b64_char n) = Some n"
proof -
  have "\<forall>n\<in>set [0..<64]. b64_val (b64_char n) = Some n"
    by (simp add: upt_rec b64_char_def b64_alphabet_def b64_val_def byte_val_def)
  then show "n < 64 \<Longrightarrow> b64_val (b64_char n) = Some n" by simp
qed

definition b64_byte :: "byte \<Rightarrow> bool" where
  "b64_byte c \<longleftrightarrow> b64_val c \<noteq> None \<or> c = CHR ''=''"

lemma b64_char_byte [simp]: "n < 64 \<Longrightarrow> b64_byte (b64_char n)"
  by (simp add: b64_byte_def b64_val_char)

lemma b64_val_eq_sign [simp]: "b64_val CHR ''='' = None"
  by (simp add: b64_val_def byte_val_def)

lemma b64_byte_not:
  "\<not> b64_byte CHR 0x0A" "\<not> b64_byte CHR 0x0D" "\<not> b64_byte CHR 0x20" "\<not> b64_byte CHR 0x09"
  "\<not> b64_byte CHR ''-''" "\<not> b64_byte CHR '':''"
  by (simp_all add: b64_byte_def b64_val_def byte_val_def)

lemma b64_byte_neq:
  assumes "b64_byte c"
  shows "c \<noteq> CHR 0x0A" "c \<noteq> CHR 0x0D" "c \<noteq> CHR 0x20" "c \<noteq> CHR 0x09" "c \<noteq> CHR ''-''"
    "c \<noteq> CHR '':''"
  using assms b64_byte_not by metis+

lemma sextet_bounds [simp]:
  "byte_val x div 4 < 64" "byte_val x mod 4 * 16 + byte_val y div 16 < 64"
  "byte_val y mod 16 * 4 + byte_val z div 64 < 64" "byte_val x mod 4 * 16 < 64"
  "byte_val y mod 16 * 4 < 64" "byte_val z mod 64 < 64"
  using byte_val_less [of x] byte_val_less [of y] byte_val_less [of z] by linarith+

lemma b64_encode_bytes: "\<forall>c\<in>set (b64_encode s). b64_byte c"
  by (induction s rule: b64_encode.induct) (auto simp: b64_byte_def b64_val_char)

lemma byte_val_quot [simp]:
  "byte_val x div 16 div 16 = 0" "byte_val x div 64 div 4 = 0"
  "byte_val x div 16 mod 16 = byte_val x div 16" "byte_val x div 64 mod 4 = byte_val x div 64"
  "byte_val x div 16 * 16 + byte_val x mod 16 = byte_val x"
  "byte_val x div 64 * 64 + byte_val x mod 64 = byte_val x"
proof -
  have "byte_val x div 16 < 16" "byte_val x div 64 < 4"
    using byte_val_less [of x] by linarith+
  then show "byte_val x div 16 div 16 = 0" "byte_val x div 64 div 4 = 0"
    "byte_val x div 16 mod 16 = byte_val x div 16" "byte_val x div 64 mod 4 = byte_val x div 64"
    by simp_all
qed simp_all

lemma b64_char_not_pad: "n < 64 \<Longrightarrow> b64_char n \<noteq> CHR ''=''"
  by (metis b64_val_char b64_val_eq_sign option.discI)

lemma b64_quanta_encode: "b64_quanta (b64_encode s) = Some s"
  by (induction s rule: b64_encode.induct)
    (simp_all add: b64_val_char b64_char_not_pad)

lemma filter_newline_encode [simp]:
  "filter (\<lambda>c. \<not> is_newline c) (b64_encode s) = b64_encode s"
  using b64_encode_bytes [of s] b64_byte_not
  by (intro filter_idem_all) (auto simp: is_newline_def)

lemma b64_decode_encode [simp]: "b64_decode (b64_encode s) = Some s"
  by (simp add: b64_decode_def b64_quanta_encode)

lemma b64_decode_breaks:
  "filter (\<lambda>c. \<not> is_newline c) t = b64_encode s \<Longrightarrow> b64_decode t = Some s"
  by (simp add: b64_decode_def b64_quanta_encode)

lemma b64_encode_Nil_iff [simp]: "b64_encode s = [] \<longleftrightarrow> s = []"
  by (cases s rule: b64_encode.cases) auto

interpretation base64: codec b64_encode b64_decode "\<lambda>_. True"
  by unfold_locales simp

end
