(* ===== verification/GoPem.thy ===== *)
theory GoPem
  imports GoStrings GoBase64
begin

text \<open>
  Go's \<open>encoding/pem\<close> (the iterative \<open>Decode\<close> of Go 1.19 and later): \<open>EncodeToMemory\<close> of a
  block without headers and \<open>Decode\<close>, which looks for the next well-formed block and returns
  it with the input after it. Header values are not kept: the program reads only a block's type
  and bytes, and the decoder itself only asks whether there was a header.
\<close>

record pem_block =
  pem_type :: bytes
  pem_bytes :: bytes

abbreviation nl :: byte where "nl \<equiv> CHR 0x0A"
abbreviation cr :: byte where "cr \<equiv> CHR 0x0D"

definition pem_start :: bytes where "pem_start = nl # ''-----BEGIN ''"
definition pem_end :: bytes where "pem_end = nl # ''-----END ''"
definition pem_eol :: bytes where "pem_eol = ''-----''"

section \<open>Encoding\<close>

text \<open>The \<open>lineBreaker\<close>: a newline after every 64 bytes and after a shorter last line.\<close>

fun break_lines :: "bytes \<Rightarrow> bytes" where
  "break_lines s = (if s = [] then [] else take 64 s @ nl # break_lines (drop 64 s))"

declare break_lines.simps [simp del]

lemma break_lines_Nil [simp]: "break_lines [] = []"
  by (simp add: break_lines.simps)

definition pem_encode :: "pem_block \<Rightarrow> bytes" where
  "pem_encode b =
     tl pem_start @ pem_type b @ pem_eol @ [nl] @ break_lines (b64_encode (pem_bytes b))
     @ tl pem_end @ pem_type b @ pem_eol @ [nl]"

section \<open>Decoding\<close>

definition get_line :: "bytes \<Rightarrow> bytes \<times> bytes" where
  "get_line data =
     (case index_byte data nl of
        None \<Rightarrow> (trim_right data [CHR 0x20, CHR 0x09], [])
      | Some i \<Rightarrow>
          (let i' = (if 0 < i \<and> data ! (i - 1) = cr then i - 1 else i)
           in (trim_right (take i' data) [CHR 0x20, CHR 0x09], drop (i + 1) data)))"

lemma get_line_shrinks: "data \<noteq> [] \<Longrightarrow> length (snd (get_line data)) < length data"
  by (auto simp: get_line_def Let_def split: option.splits)

lemma get_line_le: "length (snd (get_line data)) \<le> length data"
  by (auto simp: get_line_def Let_def split: option.splits)

text \<open>
  The header loop: the input after the headers and whether there was one; \<open>None\<close> when the
  input ends first.
\<close>

function pem_headers :: "bytes \<Rightarrow> bool \<Rightarrow> (bytes \<times> bool) option" where
  "pem_headers rest seen =
     (if rest = [] then None
      else (let (line, next) = get_line rest
            in if bytes_cut line '':'' = None then Some (rest, seen)
               else pem_headers next True))"
  by pat_completeness auto
termination
  by (relation "measure (\<lambda>(rest, seen). length rest)")
    (simp_all, metis get_line_shrinks snd_conv)

declare pem_headers.simps [simp del]

text \<open>
  One round of the decoder's loop, started after the \<open>BEGIN\<close> marker: a block and the rest, or
  the input to search again, or the end.
\<close>

datatype pem_round = Found pem_block bytes | Retry bytes | NoBlock

definition pem_end_index :: "bytes \<Rightarrow> bool \<Rightarrow> (nat \<times> nat) option" where
  "pem_end_index rest seen =
     (if \<not> seen \<and> has_prefix rest (tl pem_end) then Some (0, length pem_end - 1)
      else map_option (\<lambda>i. (i, i + length pem_end)) (bytes_index rest pem_end))"

definition pem_trailer_ok :: "bytes \<Rightarrow> bytes \<Rightarrow> bool" where
  "pem_trailer_ok ty trailer \<longleftrightarrow>
     (let n = length ty + length pem_eol
      in n \<le> length trailer \<and> has_prefix (take n trailer) ty \<and> has_suffix (take n trailer) pem_eol
         \<and> fst (get_line (drop n trailer)) = [])"

definition pem_round :: "bytes \<Rightarrow> pem_round" where
  "pem_round data =
     (let (type_line, r1) = get_line data in
      if \<not> has_suffix type_line pem_eol then Retry r1
      else
        let ty = take (length type_line - length pem_eol) type_line in
        case pem_headers r1 False of
          None \<Rightarrow> NoBlock
        | Some (r2, seen) \<Rightarrow>
            (case pem_end_index r2 seen of
               None \<Rightarrow> Retry r2
             | Some (ei, et) \<Rightarrow>
                 if \<not> pem_trailer_ok ty (drop et r2) then Retry r2
                 else
                   (case b64_decode (filter (\<lambda>c. c \<noteq> CHR 0x20 \<and> c \<noteq> CHR 0x09) (take ei r2)) of
                      None \<Rightarrow> Retry r2
                    | Some bs \<Rightarrow>
                        Found \<lparr>pem_type = ty, pem_bytes = bs\<rparr>
                          (snd (get_line (drop (ei + length pem_end - 1) r2))))))"

text \<open>The input after the next \<open>BEGIN\<close> marker.\<close>

definition pem_after_start :: "bytes \<Rightarrow> bytes option" where
  "pem_after_start rest =
     (if has_prefix rest (tl pem_start) then Some (drop (length pem_start - 1) rest)
      else map_option snd (bytes_cut rest pem_start))"

lemma pem_headers_le:
  "pem_headers rest seen = Some (r, s) \<Longrightarrow> length r \<le> length rest"
proof (induction rest seen rule: pem_headers.induct)
  case (1 rest seen)
  show ?case
  proof (cases "rest = []")
    case True
    with "1.prems" show ?thesis by (simp add: pem_headers.simps)
  next
    case False
    obtain line next_line where g: "get_line rest = (line, next_line)" by fastforce
    with False have "length next_line \<le> length rest"
      using get_line_le [of rest] by simp
    with False g 1 show ?thesis
      by (fastforce simp: pem_headers.simps [of rest] split: if_splits)
  qed
qed

lemma pem_round_Retry: "pem_round data = Retry r \<Longrightarrow> length r \<le> length data"
  using get_line_le [of data]
  by (auto simp: pem_round_def Let_def split: prod.splits if_splits option.splits
      dest!: pem_headers_le)

lemma pem_after_start_less: "pem_after_start rest = Some r \<Longrightarrow> length r < length rest"
  by (auto simp: pem_after_start_def pem_start_def has_prefix_def split: if_splits
      dest!: bytes_cut_length arg_cong [of _ _ length])

function pem_decode_loop :: "bytes \<Rightarrow> (pem_block \<times> bytes) option" where
  "pem_decode_loop rest =
     (case pem_after_start rest of
        None \<Rightarrow> None
      | Some r \<Rightarrow>
          (case pem_round r of
             Found p r' \<Rightarrow> Some (p, r')
           | Retry r' \<Rightarrow> pem_decode_loop r'
           | NoBlock \<Rightarrow> None))"
  by pat_completeness auto
termination
  by (relation "measure length")
    (auto dest!: pem_round_Retry pem_after_start_less)

declare pem_decode_loop.simps [simp del]

text \<open>\<open>pem.Decode\<close>: with no block found, the rest is the whole input.\<close>

definition pem_decode :: "bytes \<Rightarrow> pem_block option \<times> bytes" where
  "pem_decode data =
     (case pem_decode_loop data of None \<Rightarrow> (None, data) | Some (p, r) \<Rightarrow> (Some p, r))"

text \<open>A block found leaves strictly less input, so a loop over the blocks of a file ends.\<close>

lemma pem_round_Found: "pem_round data = Found p r \<Longrightarrow> length r \<le> length data"
  by (auto simp: pem_round_def Let_def split: prod.splits if_splits option.splits
      dest!: pem_headers_le)
    (metis (no_types, opaque_lifting) diff_le_self get_line_le le_trans length_drop snd_conv)

lemma pem_decode_loop_less: "pem_decode_loop rest = Some (p, r) \<Longrightarrow> length r < length rest"
proof (induction rest rule: pem_decode_loop.induct)
  case (1 rest)
  then show ?case
    by (force simp: pem_decode_loop.simps [of rest] split: option.splits pem_round.splits
        dest: pem_round_Found pem_round_Retry pem_after_start_less)
qed

lemma pem_decode_less: "pem_decode data = (Some p, r) \<Longrightarrow> length r < length data"
  by (auto simp: pem_decode_def split: option.splits dest: pem_decode_loop_less)

lemma pem_decode_None: "pem_decode data = (None, r) \<Longrightarrow> r = data"
  by (auto simp: pem_decode_def split: option.splits)

section \<open>The round trip\<close>

lemma trim_right_id: "s = [] \<or> last s \<notin> set cutset \<Longrightarrow> trim_right s cutset = s"
  by (cases s rule: rev_cases) (auto simp: trim_right_def)

lemma get_line_nl:
  assumes "nl \<notin> set l" and "l = [] \<or> last l \<notin> {cr, CHR 0x20, CHR 0x09}"
  shows "get_line (l @ nl # r) = (l, r)"
proof -
  have "index_byte (l @ nl # r) nl = Some (length l)"
    using assms(1) by (rule index_byte_append_notin)
  moreover have "0 < length l \<Longrightarrow> (l @ nl # r) ! (length l - 1) \<noteq> cr"
    using assms(2) by (cases l rule: rev_cases) (auto simp: nth_append)
  ultimately show ?thesis
    using assms(2) by (auto simp: get_line_def trim_right_id)
qed

lemma bytes_index_single: "bytes_index s [c] = index_byte s c"
  by (induction s) auto

lemma bytes_cut_single_None: "bytes_cut s [c] = None \<longleftrightarrow> c \<notin> set s"
  using index_byte_None [of s c]
  by (auto simp: bytes_cut_def bytes_index_single split: option.splits)

lemma bytes_index_marker:
  assumes "CHR ''-'' \<notin> set u"
  shows "bytes_index (u @ pem_end @ x) pem_end = Some (length u)"
  using assms
proof (induction u)
  case Nil
  show ?case by (simp add: pem_end_def)
next
  case (Cons c u)
  have "\<not> has_prefix (c # u @ pem_end @ x) pem_end"
    using Cons.prems by (cases u) (auto simp: pem_end_def)
  with Cons show ?case by simp
qed

lemma break_lines_set: "set (break_lines s) \<subseteq> insert nl (set s)"
proof (induction s rule: break_lines.induct)
  case (1 s)
  have "set (take 64 s) \<subseteq> set s" "set (drop 64 s) \<subseteq> set s"
    by (simp_all add: set_take_subset set_drop_subset)
  with 1 show ?case
    by (cases "s = []") (auto simp: break_lines.simps [of s])
qed

lemma break_lines_filter:
  "\<forall>c\<in>set s. \<not> is_newline c \<Longrightarrow> filter (\<lambda>c. \<not> is_newline c) (break_lines s) = s"
proof (induction s rule: break_lines.induct)
  case (1 s)
  show ?case
  proof (cases "s = []")
    case True
    then show ?thesis by (simp add: break_lines.simps)
  next
    case False
    have "\<forall>c\<in>set (take 64 s). \<not> is_newline c" "\<forall>c\<in>set (drop 64 s). \<not> is_newline c"
      using "1.prems" by (auto dest: in_set_takeD in_set_dropD)
    with False 1 show ?thesis
      by (simp add: break_lines.simps [of s] filter_idem_all is_newline_def)
  qed
qed

lemma break_lines_nonempty:
  "s \<noteq> [] \<Longrightarrow> \<exists>u. break_lines s = u @ [nl]"
proof (induction s rule: break_lines.induct)
  case (1 s)
  show ?case
  proof (cases "drop 64 s = []")
    case True
    with "1.prems" show ?thesis
      by (simp add: break_lines.simps [of s])
  next
    case False
    then obtain u where "break_lines (drop 64 s) = u @ [nl]"
      using 1 by auto
    with "1.prems" show ?thesis
      by (simp add: break_lines.simps [of s])
  qed
qed

text \<open>
  The types the round trip holds for: one line, no colon. The five banners of the program are
  such types.
\<close>

definition banner_ok :: "bytes \<Rightarrow> bool" where
  "banner_ok ty \<longleftrightarrow> nl \<notin> set ty \<and> CHR '':'' \<notin> set ty"

lemma b64_lines_bytes:
  assumes "c \<in> set (break_lines (b64_encode bs))"
  shows "c = nl \<or> b64_byte c"
  using assms break_lines_set [of "b64_encode bs"] b64_encode_bytes [of bs] by auto

lemma pem_headers_stop:
  assumes "rest \<noteq> []" and "get_line rest = (line, r)" and "CHR '':'' \<notin> set line"
  shows "pem_headers rest seen = Some (rest, seen)"
  using assms by (simp add: pem_headers.simps [of rest] bytes_cut_single_None)

lemma pem_headers_body:
  assumes "banner_ok ty" and "ty @ pem_eol = ty'"
  shows "pem_headers (break_lines (b64_encode bs) @ tl pem_end @ ty' @ nl # x) False
           = Some (break_lines (b64_encode bs) @ tl pem_end @ ty' @ nl # x, False)"
proof (cases "bs = []")
  case True
  have g: "get_line ((tl pem_end @ ty') @ nl # x) = (tl pem_end @ ty', x)"
    using assms by (intro get_line_nl) (auto simp: banner_ok_def pem_end_def pem_eol_def)
  have c: "CHR '':'' \<notin> set (tl pem_end @ ty')"
    using assms by (auto simp: banner_ok_def pem_end_def pem_eol_def)
  have "pem_headers ((tl pem_end @ ty') @ nl # x) False = Some ((tl pem_end @ ty') @ nl # x, False)"
    by (rule pem_headers_stop [OF _ g c]) simp
  then show ?thesis using True by simp
next
  case False
  let ?l = "take 64 (b64_encode bs)"
  let ?r = "break_lines (drop 64 (b64_encode bs)) @ tl pem_end @ ty' @ nl # x"
  have ok: "\<forall>c\<in>set ?l. b64_byte c"
    using b64_encode_bytes [of bs] by (auto dest: in_set_takeD)
  have "last ?l \<in> set ?l" using False by (intro last_in_set) simp
  with ok have "b64_byte (last ?l)" by blast
  then have l: "?l = [] \<or> last ?l \<notin> {cr, CHR 0x20, CHR 0x09}"
    by (simp add: b64_byte_neq)
  have n: "nl \<notin> set ?l" and c: "CHR '':'' \<notin> set ?l"
    using ok b64_byte_neq by metis+
  have g: "get_line (?l @ nl # ?r) = (?l, ?r)"
    by (rule get_line_nl [OF n l])
  have "pem_headers (?l @ nl # ?r) False = Some (?l @ nl # ?r, False)"
    by (rule pem_headers_stop [OF _ g c]) simp
  moreover have "break_lines (b64_encode bs) = ?l @ nl # break_lines (drop 64 (b64_encode bs))"
    using False by (simp add: break_lines.simps [of "b64_encode bs"])
  ultimately show ?thesis by simp
qed

lemma pem_trailer_ok_end: "pem_trailer_ok ty (ty @ pem_eol @ nl # x)"
proof -
  have "get_line ([] @ nl # x) = ([], x)" by (rule get_line_nl) auto
  then show ?thesis by (simp add: pem_trailer_ok_def Let_def)
qed

lemma filter_blank_b64:
  assumes "\<forall>c\<in>set s. c = nl \<or> b64_byte c"
  shows "filter (\<lambda>c. c \<noteq> CHR 0x20 \<and> c \<noteq> CHR 0x09) s = s"
proof (rule filter_idem_all, rule ballI)
  fix c
  assume "c \<in> set s"
  with assms consider "c = nl" | "b64_byte c" by blast
  then show "c \<noteq> CHR 0x20 \<and> c \<noteq> CHR 0x09"
    by cases (simp_all add: b64_byte_neq)
qed

lemma length_pem_end: "length pem_end = 10"
  by (simp add: pem_end_def)

lemma pem_end_marker:
  "drop (length u + length pem_end) (u @ pem_end @ x) = x"
  "drop (length u + length pem_end - 1) (u @ pem_end @ x) = CHR 0x20 # x"
  "drop (length pem_end - 1) (tl pem_end @ x) = x"
  by (simp_all add: length_pem_end) (simp_all add: pem_end_def)

lemma pem_round_FoundI:
  assumes "get_line data = (ty @ pem_eol, r1)" and "pem_headers r1 False = Some (r2, seen)"
    and "pem_end_index r2 seen = Some (ei, et)" and "pem_trailer_ok ty (drop et r2)"
    and "b64_decode (filter (\<lambda>c. c \<noteq> CHR 0x20 \<and> c \<noteq> CHR 0x09) (take ei r2)) = Some bs"
    and "get_line (drop (ei + length pem_end - 1) r2) = (l, x)"
  shows "pem_round data = Found \<lparr>pem_type = ty, pem_bytes = bs\<rparr> x"
  using assms by (simp add: pem_round_def)

lemma pem_end_body_empty:
  "pem_end_index (tl pem_end @ x) False = Some (0, length pem_end - 1)"
  by (simp add: pem_end_index_def)

lemma pem_end_body:
  assumes "bs \<noteq> []"
  shows "\<exists>u. break_lines (b64_encode bs) @ tl pem_end @ x = u @ pem_end @ x
     \<and> pem_end_index (u @ pem_end @ x) False = Some (length u, length u + length pem_end)
     \<and> b64_decode (filter (\<lambda>c. c \<noteq> CHR 0x20 \<and> c \<noteq> CHR 0x09) u) = Some bs"
proof -
  from assms obtain u where u: "break_lines (b64_encode bs) = u @ [nl]"
    using break_lines_nonempty [of "b64_encode bs"] by auto
  have ub: "\<forall>c\<in>set u. c = nl \<or> b64_byte c"
    using b64_lines_bytes [of _ bs] by (auto simp: u)
  have eq: "break_lines (b64_encode bs) @ tl pem_end @ x = u @ pem_end @ x"
    by (simp add: u pem_end_def)
  have "CHR ''-'' \<notin> set u" using ub b64_byte_not by auto
  then have idx: "bytes_index (u @ pem_end @ x) pem_end = Some (length u)"
    by (rule bytes_index_marker)
  have np: "\<not> has_prefix (u @ pem_end @ x) (tl pem_end)"
    using ub b64_byte_not by (cases u) (auto simp: pem_end_def)
  have "filter (\<lambda>c. \<not> is_newline c) (break_lines (b64_encode bs)) = b64_encode bs"
    using b64_encode_bytes [of bs] b64_byte_not
    by (intro break_lines_filter) (auto simp: is_newline_def)
  then have "b64_decode u = Some bs"
    by (intro b64_decode_breaks) (simp add: u is_newline_def)
  then have "b64_decode (filter (\<lambda>c. c \<noteq> CHR 0x20 \<and> c \<noteq> CHR 0x09) u) = Some bs"
    using ub by (simp add: filter_blank_b64)
  moreover have "pem_end_index (u @ pem_end @ x) False = Some (length u, length u + length pem_end)"
    using idx np by (simp add: pem_end_index_def)
  ultimately show ?thesis using eq by blast
qed

lemma pem_round_encode:
  assumes "banner_ok ty"
  shows "pem_round (ty @ pem_eol @ [nl] @ break_lines (b64_encode bs) @ tl pem_end @ ty @ pem_eol
                    @ nl # x)
           = Found \<lparr>pem_type = ty, pem_bytes = bs\<rparr> x"
proof -
  let ?r2 = "break_lines (b64_encode bs) @ tl pem_end @ ty @ pem_eol @ nl # x"
  have line: "get_line ((ty @ pem_eol) @ nl # ?r2) = (ty @ pem_eol, ?r2)"
    using assms by (intro get_line_nl) (auto simp: banner_ok_def pem_eol_def)
  have hd: "pem_headers ?r2 False = Some (?r2, False)"
    using pem_headers_body [OF assms refl, of bs x] by simp
  let ?x = "ty @ pem_eol @ nl # x"
  have lb: "get_line ((ty @ pem_eol) @ nl # x) = (ty @ pem_eol, x)"
    using assms by (intro get_line_nl) (auto simp: banner_ok_def pem_eol_def)
  have lc: "get_line ((CHR 0x20 # ty @ pem_eol) @ nl # x) = (CHR 0x20 # ty @ pem_eol, x)"
    using assms by (intro get_line_nl) (auto simp: banner_ok_def pem_eol_def)
  let ?data = "ty @ pem_eol @ [nl] @ break_lines (b64_encode bs) @ tl pem_end @ ?x"
  have line: "get_line ?data = (ty @ pem_eol, ?r2)" using line by simp
  show ?thesis
  proof (cases "bs = []")
    case True
    show ?thesis
    proof (rule pem_round_FoundI [OF line hd])
      show "pem_end_index ?r2 False = Some (0, length pem_end - 1)"
        using True pem_end_body_empty by simp
      show "pem_trailer_ok ty (drop (length pem_end - 1) ?r2)"
        using True pem_end_marker(3) [of ?x] pem_trailer_ok_end by simp
      show "get_line (drop (0 + length pem_end - 1) ?r2) = (ty @ pem_eol, x)"
        using True pem_end_marker(3) [of ?x] lb by simp
    qed (simp add: True b64_decode_def)
  next
    case False
    obtain u where u: "?r2 = u @ pem_end @ ?x"
      "pem_end_index (u @ pem_end @ ?x) False = Some (length u, length u + length pem_end)"
      "b64_decode (filter (\<lambda>c. c \<noteq> CHR 0x20 \<and> c \<noteq> CHR 0x09) u) = Some bs"
      using pem_end_body [OF False] by blast
    show ?thesis
    proof (rule pem_round_FoundI [OF line hd])
      show "pem_end_index ?r2 False = Some (length u, length u + length pem_end)"
        unfolding u(1) by (rule u(2))
      show "pem_trailer_ok ty (drop (length u + length pem_end) ?r2)"
        unfolding u(1) pem_end_marker(1) by (rule pem_trailer_ok_end)
      show "get_line (drop (length u + length pem_end - 1) ?r2) = (CHR 0x20 # ty @ pem_eol, x)"
        unfolding u(1) pem_end_marker(2) using lc by simp
      show "b64_decode (filter (\<lambda>c. c \<noteq> CHR 0x20 \<and> c \<noteq> CHR 0x09) (take (length u) ?r2)) = Some bs"
        unfolding u(1) using u(3) by simp
    qed
  qed
qed

theorem pem_decode_encode:
  assumes "banner_ok (pem_type b)"
  shows "pem_decode (pem_encode b @ x) = (Some b, x)"
proof -
  have "pem_after_start (pem_encode b @ x) = Some (pem_type b @ pem_eol @ [nl]
      @ break_lines (b64_encode (pem_bytes b)) @ tl pem_end @ pem_type b @ pem_eol @ nl # x)"
    by (simp add: pem_after_start_def pem_encode_def pem_start_def)
  then show ?thesis
    using pem_round_encode [OF assms, of "pem_bytes b" x]
    by (simp add: pem_decode_def pem_decode_loop.simps)
qed

end
