(* ===== verification/CertPem.thy ===== *)
theory CertPem
  imports GoPem Certificate
begin

text \<open>
  \<open>certificate-pem.go\<close>: the five PEM formats of the program. Each decoder returns the rest of
  the input in every case, beside its result.
\<close>

definition AetherportCertBanner :: bytes where
  "AetherportCertBanner = ''AETHERPORT CERTIFICATE''"
definition X25519PrivateKeyBanner :: bytes where
  "X25519PrivateKeyBanner = ''X25519 PRIVATE KEY''"
definition X25519PublicKeyBanner :: bytes where
  "X25519PublicKeyBanner = ''X25519 PUBLIC KEY''"
definition Ed25519PrivateKeyBanner :: bytes where
  "Ed25519PrivateKeyBanner = ''ED25519 PRIVATE KEY''"
definition Ed25519PublicKeyBanner :: bytes where
  "Ed25519PublicKeyBanner = ''ED25519 PUBLIC KEY''"

lemmas banner_defs =
  AetherportCertBanner_def X25519PrivateKeyBanner_def X25519PublicKeyBanner_def
  Ed25519PrivateKeyBanner_def Ed25519PublicKeyBanner_def

datatype pem_error = NoPemBlock | WrongBanner | WrongLength nat | PemCert cert_error

definition unmarshalPEM :: "bytes \<Rightarrow> bytes \<Rightarrow> nat \<Rightarrow> (pem_error, bytes) res \<times> bytes" where
  "unmarshalPEM b ty l =
     (case pem_decode b of
        (None, r) \<Rightarrow> (Err NoPemBlock, r)
      | (Some k, r) \<Rightarrow>
          if pem_type k \<noteq> ty then (Err WrongBanner, r)
          else if length (pem_bytes k) \<noteq> l then (Err (WrongLength (length (pem_bytes k))), r)
          else (Ok (pem_bytes k), r))"

definition UnmarshalAetherportCertificateFromPEM ::
    "extern \<Rightarrow> bytes \<Rightarrow> (pem_error, certificate) res \<times> bytes" where
  "UnmarshalAetherportCertificateFromPEM E b =
     (case pem_decode b of
        (None, r) \<Rightarrow> (Err NoPemBlock, r)
      | (Some p, r) \<Rightarrow>
          if pem_type p \<noteq> AetherportCertBanner then (Err WrongBanner, r)
          else (map_err PemCert (UnmarshalAetherportCertificate E (pem_bytes p)), r))"

definition MarshalAetherportCertificateToPEM ::
    "extern \<Rightarrow> certificate \<Rightarrow> (cert_error, bytes) res" where
  "MarshalAetherportCertificateToPEM E ac =
     rbind (Marshal E ac)
       (\<lambda>b. Ok (pem_encode \<lparr>pem_type = AetherportCertBanner, pem_bytes = b\<rparr>))"

definition MarshalEd25519PrivateKey :: "bytes \<Rightarrow> bytes" where
  "MarshalEd25519PrivateKey key =
     pem_encode \<lparr>pem_type = Ed25519PrivateKeyBanner, pem_bytes = key\<rparr>"

definition UnmarshalEd25519PrivateKey :: "bytes \<Rightarrow> (pem_error, bytes) res \<times> bytes" where
  "UnmarshalEd25519PrivateKey b = unmarshalPEM b Ed25519PrivateKeyBanner ed25519_PrivateKeySize"

definition MarshalEd25519PublicKey :: "bytes \<Rightarrow> bytes" where
  "MarshalEd25519PublicKey key =
     pem_encode \<lparr>pem_type = Ed25519PublicKeyBanner, pem_bytes = key\<rparr>"

definition UnmarshalEd25519PublicKey :: "bytes \<Rightarrow> (pem_error, bytes) res \<times> bytes" where
  "UnmarshalEd25519PublicKey b = unmarshalPEM b Ed25519PublicKeyBanner ed25519_PublicKeySize"

definition MarshalX25519PrivateKey :: "bytes \<Rightarrow> bytes" where
  "MarshalX25519PrivateKey b =
     pem_encode \<lparr>pem_type = X25519PrivateKeyBanner, pem_bytes = b\<rparr>"

definition UnmarshalX25519PrivateKey :: "bytes \<Rightarrow> (pem_error, bytes) res \<times> bytes" where
  "UnmarshalX25519PrivateKey b = unmarshalPEM b X25519PrivateKeyBanner x25519KeyLen"

definition MarshalX25519PublicKey :: "bytes \<Rightarrow> bytes" where
  "MarshalX25519PublicKey b =
     pem_encode \<lparr>pem_type = X25519PublicKeyBanner, pem_bytes = b\<rparr>"

definition UnmarshalX25519PublicKey :: "bytes \<Rightarrow> (pem_error, bytes) res \<times> bytes" where
  "UnmarshalX25519PublicKey b = unmarshalPEM b X25519PublicKeyBanner x25519KeyLen"

section \<open>The key formats as one interface\<close>

text \<open>
  What a key file format promises: a key of the right length, written in front of anything,
  reads back with the rest of the input; a block written for another format is refused.
\<close>

lemma banners_ok [simp]:
  "banner_ok AetherportCertBanner" "banner_ok X25519PrivateKeyBanner"
  "banner_ok X25519PublicKeyBanner" "banner_ok Ed25519PrivateKeyBanner"
  "banner_ok Ed25519PublicKeyBanner"
  by (simp_all add: banner_ok_def banner_defs)

lemma banners_distinct:
  "distinct [AetherportCertBanner, X25519PrivateKeyBanner, X25519PublicKeyBanner,
             Ed25519PrivateKeyBanner, Ed25519PublicKeyBanner]"
  by (simp add: banner_defs)

lemma unmarshalPEM_encode:
  "banner_ok ty' \<Longrightarrow>
     unmarshalPEM (pem_encode \<lparr>pem_type = ty', pem_bytes = k\<rparr> @ x) ty l =
       (if ty' \<noteq> ty then Err WrongBanner
        else if length k \<noteq> l then Err (WrongLength (length k)) else Ok k, x)"
  by (simp add: unmarshalPEM_def pem_decode_encode)

lemma unmarshalPEM_length: "unmarshalPEM b ty l = (Ok k, r) \<Longrightarrow> length k = l"
  by (auto simp: unmarshalPEM_def split: prod.splits option.splits if_splits)

locale key_file =
  fixes save :: "bytes \<Rightarrow> bytes"
    and load :: "bytes \<Rightarrow> (pem_error, bytes) res \<times> bytes"
    and size :: nat
  assumes load_save: "length k = size \<Longrightarrow> load (save k @ x) = (Ok k, x)"
    and load_size: "load b = (Ok k, r) \<Longrightarrow> length k = size"
    and load_other: "length k \<noteq> size \<Longrightarrow> load (save k @ x) = (Err (WrongLength (length k)), x)"
begin

definition read_key :: "bytes \<Rightarrow> bytes option" where
  "read_key b = (case fst (load b) of Ok k \<Rightarrow> Some k | _ \<Rightarrow> None)"

lemma read_key_save: "length k = size \<Longrightarrow> read_key (save k) = Some k"
  using load_save [of k "[]"] by (simp add: read_key_def)

lemma load_save_iff: "load (save k @ x) = (Ok k', y) \<longleftrightarrow> length k = size \<and> k' = k \<and> y = x"
  using load_save [of k x] load_other [of k x] by (cases "length k = size") auto

end

sublocale key_file \<subseteq> codec save read_key "\<lambda>k. length k = size"
  by unfold_locales (rule read_key_save)

interpretation ed25519_private:
  key_file MarshalEd25519PrivateKey UnmarshalEd25519PrivateKey ed25519_PrivateKeySize
  by unfold_locales (auto simp: MarshalEd25519PrivateKey_def UnmarshalEd25519PrivateKey_def
      unmarshalPEM_encode dest: unmarshalPEM_length)

interpretation ed25519_public:
  key_file MarshalEd25519PublicKey UnmarshalEd25519PublicKey ed25519_PublicKeySize
  by unfold_locales (auto simp: MarshalEd25519PublicKey_def UnmarshalEd25519PublicKey_def
      unmarshalPEM_encode dest: unmarshalPEM_length)

interpretation x25519_private:
  key_file MarshalX25519PrivateKey UnmarshalX25519PrivateKey x25519KeyLen
  by unfold_locales (auto simp: MarshalX25519PrivateKey_def UnmarshalX25519PrivateKey_def
      unmarshalPEM_encode dest: unmarshalPEM_length)

interpretation x25519_public:
  key_file MarshalX25519PublicKey UnmarshalX25519PublicKey x25519KeyLen
  by unfold_locales (auto simp: MarshalX25519PublicKey_def UnmarshalX25519PublicKey_def
      unmarshalPEM_encode dest: unmarshalPEM_length)

section \<open>Certificates in PEM\<close>

lemma CertificateFromPEM_rest:
  "UnmarshalAetherportCertificateFromPEM E b = (Ok ac, r) \<Longrightarrow> length r < length b"
  by (auto simp: UnmarshalAetherportCertificateFromPEM_def split: prod.splits option.splits if_splits
      dest: pem_decode_less)

lemma CertificateFromPEM_no_panic [simp]:
  "UnmarshalAetherportCertificateFromPEM E b \<noteq> (Panic, r)"
  by (simp add: UnmarshalAetherportCertificateFromPEM_def split: prod.split option.split)

lemma CertificateFromPEM_ToPEM:
  assumes "MarshalAetherportCertificateToPEM E ac = Ok f" and "Marshal E ac = Ok b"
  shows "UnmarshalAetherportCertificateFromPEM E (f @ x)
           = (map_err PemCert (UnmarshalAetherportCertificate E b), x)"
  using assms
  by (auto simp: MarshalAetherportCertificateToPEM_def UnmarshalAetherportCertificateFromPEM_def
      pem_decode_encode)

text \<open>Every key format reads back what it wrote, whatever follows in the file, exactly when
  the key has the format's length; and a file of one format is refused by the others.\<close>

lemma key_files_roundtrip:
  "UnmarshalEd25519PrivateKey (MarshalEd25519PrivateKey k @ x)
     = (if length k = 64 then Ok k else Err (WrongLength (length k)), x)
   \<and> UnmarshalEd25519PublicKey (MarshalEd25519PublicKey k @ x)
     = (if length k = 32 then Ok k else Err (WrongLength (length k)), x)
   \<and> UnmarshalX25519PrivateKey (MarshalX25519PrivateKey k @ x)
     = (if length k = 32 then Ok k else Err (WrongLength (length k)), x)
   \<and> UnmarshalX25519PublicKey (MarshalX25519PublicKey k @ x)
     = (if length k = 32 then Ok k else Err (WrongLength (length k)), x)
   \<and> UnmarshalX25519PrivateKey (MarshalEd25519PrivateKey k @ x) = (Err WrongBanner, x)
   \<and> UnmarshalEd25519PrivateKey (MarshalX25519PrivateKey k @ x) = (Err WrongBanner, x)
   \<and> UnmarshalX25519PrivateKey (MarshalX25519PublicKey k @ x) = (Err WrongBanner, x)"
proof -
  have "UnmarshalX25519PrivateKey (MarshalEd25519PrivateKey k @ x) = (Err WrongBanner, x)"
    and "UnmarshalEd25519PrivateKey (MarshalX25519PrivateKey k @ x) = (Err WrongBanner, x)"
    and "UnmarshalX25519PrivateKey (MarshalX25519PublicKey k @ x) = (Err WrongBanner, x)"
    using banners_distinct
    by (auto simp: UnmarshalX25519PrivateKey_def MarshalEd25519PrivateKey_def
        UnmarshalEd25519PrivateKey_def MarshalX25519PrivateKey_def MarshalX25519PublicKey_def
        unmarshalPEM_encode)
  then show ?thesis
    using ed25519_private.load_save [of k x] ed25519_private.load_other [of k x]
      ed25519_public.load_save [of k x] ed25519_public.load_other [of k x]
      x25519_private.load_save [of k x] x25519_private.load_other [of k x]
      x25519_public.load_save [of k x] x25519_public.load_other [of k x]
    by (simp add: ed25519_PrivateKeySize_def ed25519_PublicKeySize_def x25519KeyLen_def)
qed

end
