(* ===== verification/CAPool.thy ===== *)
theory CAPool
  imports CertPem
begin

text \<open>
  \<open>certificate-authority.go\<close>: the pool of trusted CA certificates, keyed by fingerprint, with
  its blocklist; and \<open>AetherportCertificate.Verify\<close> of \<open>certificate.go\<close>, which consults it.
  \<open>time.Now()\<close> is an argument; the loading loop reads a clock that may advance between blocks.
\<close>

record capool =
  caMap :: "bytes \<rightharpoonup> certificate"
  certBlocklist :: "bytes set"

datatype ca_error =
    CaPem pem_error | ErrNotCA bytes | ErrNotSelfSigned bytes | ShaFailed cert_error
  | ErrExpired bytes | ErrPoolExpired

text \<open>\<open>errors.Is(err, ErrExpired)\<close>.\<close>

fun is_ErrExpired :: "ca_error \<Rightarrow> bool" where
  "is_ErrExpired (ErrExpired _) = True"
| "is_ErrExpired ErrPoolExpired = True"
| "is_ErrExpired _ = False"

definition NewCAPool :: capool where
  "NewCAPool = \<lparr>caMap = Map.empty, certBlocklist = {}\<rparr>"

definition AddCACertificateFromPEM ::
    "extern \<Rightarrow> time \<Rightarrow> capool \<Rightarrow> bytes \<Rightarrow> capool \<times> (ca_error, unit) res \<times> bytes" where
  "AddCACertificateFromPEM E now ncp pemBytes =
     (case UnmarshalAetherportCertificateFromPEM E pemBytes of
        (Err e, r) \<Rightarrow> (ncp, Err (CaPem e), r)
      | (Panic, r) \<Rightarrow> (ncp, Panic, r)
      | (Ok c, r) \<Rightarrow>
          if \<not> d_IsCA (Details c) then (ncp, Err (ErrNotCA (d_Name (Details c))), r)
          else
            (case CheckSignature E c (d_PublicKey (Details c)) of
               None \<Rightarrow> (ncp, Panic, r)
             | Some ok \<Rightarrow>
                 if \<not> ok then (ncp, Err (ErrNotSelfSigned (d_Name (Details c))), r)
                 else
                   (case Sha256Sum E c of
                      Panic \<Rightarrow> (ncp, Panic, r)
                    | Err e \<Rightarrow> (ncp, Err (ShaFailed e), r)
                    | Ok fp \<Rightarrow>
                        let ncp' = ncp\<lparr>caMap := (caMap ncp)(fp \<mapsto> c)\<rparr> in
                        if Expired c now
                        then (ncp', Err (ErrExpired (d_Name (Details c))), r)
                        else (ncp', Ok (), r))))"

lemma AddCA_shrinks:
  assumes "AddCACertificateFromPEM E now ncp b = (ncp', e, r)"
    and "e = Ok () \<or> (\<exists>n. e = Err n \<and> is_ErrExpired n)"
  shows "length r < length b"
  using assms
  by (auto simp: AddCACertificateFromPEM_def Let_def split: prod.splits res.splits option.splits if_splits
      dest!: CertificateFromPEM_rest)

text \<open>
  What \<open>NewCAPoolFromPEM\<close> returns: a pool or nil, and an error or nil. An expired certificate
  does not stop the loop; the pool is then returned together with the error.
\<close>

datatype pool_ret = PoolRet "capool option" "ca_error option" | PoolPanic

function load_pool ::
    "extern \<Rightarrow> (nat \<Rightarrow> time) \<Rightarrow> nat \<Rightarrow> capool \<Rightarrow> bool \<Rightarrow> bytes \<Rightarrow> pool_ret" where
  "load_pool E clock n pool expired caPEMs =
     (case AddCACertificateFromPEM E (clock n) pool caPEMs of
        (pool', Panic, r) \<Rightarrow> PoolPanic
      | (pool', Err e, r) \<Rightarrow>
          if is_ErrExpired e then
            (if length r = 0 \<or> all_space r then PoolRet (Some pool') (Some ErrPoolExpired)
             else load_pool E clock (Suc n) pool' True r)
          else PoolRet None (Some e)
      | (pool', Ok _, r) \<Rightarrow>
          if length r = 0 \<or> all_space r
          then PoolRet (Some pool') (if expired then Some ErrPoolExpired else None)
          else load_pool E clock (Suc n) pool' expired r)"
  by pat_completeness auto
termination
  by (relation "measure (\<lambda>(E, clock, n, pool, expired, b). length b)")
    (auto dest!: AddCA_shrinks [OF sym])

declare load_pool.simps [simp del]

definition NewCAPoolFromPEM :: "extern \<Rightarrow> (nat \<Rightarrow> time) \<Rightarrow> bytes \<Rightarrow> pool_ret" where
  "NewCAPoolFromPEM E clock caPEMs = load_pool E clock 0 NewCAPool False caPEMs"

definition BlocklistFingerprint :: "capool \<Rightarrow> bytes \<Rightarrow> capool" where
  "BlocklistFingerprint acp fp = acp\<lparr>certBlocklist := insert fp (certBlocklist acp)\<rparr>"

definition IsBlocklisted :: "extern \<Rightarrow> capool \<Rightarrow> certificate \<Rightarrow> bool" where
  "IsBlocklisted E acp ac =
     (case Sha256Sum E ac of Ok h \<Rightarrow> h \<in> certBlocklist acp | _ \<Rightarrow> True)"

definition GetCAForCert :: "capool \<Rightarrow> certificate \<Rightarrow> (cert_error, certificate) res" where
  "GetCAForCert acp ac =
     (if d_Issuer (Details ac) = [] then Err NoIssuer
      else case caMap acp (d_Issuer (Details ac)) of
             None \<Rightarrow> Err UnknownCA
           | Some signer \<Rightarrow> Ok signer)"

text \<open>
  \<open>Verify\<close>. A result \<open>Err e\<close> is the pair of false and the error; \<open>Ok ok\<close> is \<open>ok\<close> with a nil
  error.
\<close>

definition Verify :: "extern \<Rightarrow> certificate \<Rightarrow> time \<Rightarrow> capool \<Rightarrow> (cert_error, bool) res" where
  "Verify E ac t acp =
     (if IsBlocklisted E acp ac then Err Blocked
      else
        case GetCAForCert acp ac of
          Err e \<Rightarrow> Err e
        | Panic \<Rightarrow> Panic
        | Ok signer \<Rightarrow>
            if Expired signer t then Err RootExpired
            else if Expired ac t then Err CertExpired
            else
              (case CheckSignature E ac (d_PublicKey (Details signer)) of
                 None \<Rightarrow> Panic
               | Some ok \<Rightarrow>
                   if \<not> ok then Err SignatureMismatch
                   else (case CheckRootConstrains ac signer of
                           Err e \<Rightarrow> Err e
                         | Panic \<Rightarrow> Panic
                         | Ok _ \<Rightarrow> Ok True)))"

section \<open>Lemmas on single operations\<close>

lemma CheckSignature_None_iff:
  "CheckSignature E ac key = None \<longleftrightarrow>
     length key \<noteq> ed25519_PublicKeySize \<and> (\<exists>b. details_bytes E ac = Ok b)"
  by (auto simp: CheckSignature_def split: res.splits)

lemma CheckSignature_True_length:
  "CheckSignature E ac key = Some True \<Longrightarrow> length key = ed25519_PublicKeySize"
  by (auto simp: CheckSignature_def split: res.splits if_splits)

lemma GetCAForCert_Ok:
  "GetCAForCert acp ac = Ok s \<longleftrightarrow>
     d_Issuer (Details ac) \<noteq> [] \<and> caMap acp (d_Issuer (Details ac)) = Some s"
  by (auto simp: GetCAForCert_def split: option.splits)

lemma GetCAForCert_no_panic [simp]: "GetCAForCert acp ac \<noteq> Panic"
  by (simp add: GetCAForCert_def split: option.split)

lemma CheckRootConstrains_Ok:
  "CheckRootConstrains nc s = Ok () \<longleftrightarrow>
     d_NotAfter (Details nc) \<le> d_NotAfter (Details s)
     \<and> d_NotBefore (Details s) \<le> d_NotBefore (Details nc)"
  by (auto simp: CheckRootConstrains_def time_Before_def time_After_def)

lemma CheckRootConstrains_no_panic [simp]: "CheckRootConstrains nc s \<noteq> Panic"
  by (simp add: CheckRootConstrains_def)

lemma Expired_iff:
  "Expired ac t \<longleftrightarrow> t < d_NotBefore (Details ac) \<or> d_NotAfter (Details ac) < t"
  by (auto simp: Expired_def time_Before_def time_After_def)

lemma Verify_accepts:
  "Verify E ac t p = Ok b \<longleftrightarrow>
     b \<and> (\<exists>fp s. Sha256Sum E ac = Ok fp \<and> fp \<notin> certBlocklist p
        \<and> d_Issuer (Details ac) \<noteq> [] \<and> caMap p (d_Issuer (Details ac)) = Some s
        \<and> d_NotBefore (Details s) \<le> d_NotBefore (Details ac) \<and> d_NotBefore (Details ac) \<le> t
        \<and> t \<le> d_NotAfter (Details ac) \<and> d_NotAfter (Details ac) \<le> d_NotAfter (Details s)
        \<and> CheckSignature E ac (d_PublicKey (Details s)) = Some True)"
proof
  assume "Verify E ac t p = Ok b"
  then show "b \<and> (\<exists>fp s. Sha256Sum E ac = Ok fp \<and> fp \<notin> certBlocklist p
        \<and> d_Issuer (Details ac) \<noteq> [] \<and> caMap p (d_Issuer (Details ac)) = Some s
        \<and> d_NotBefore (Details s) \<le> d_NotBefore (Details ac) \<and> d_NotBefore (Details ac) \<le> t
        \<and> t \<le> d_NotAfter (Details ac) \<and> d_NotAfter (Details ac) \<le> d_NotAfter (Details s)
        \<and> CheckSignature E ac (d_PublicKey (Details s)) = Some True)"
    by (auto simp: Verify_def IsBlocklisted_def GetCAForCert_Ok CheckRootConstrains_Ok Expired_iff
        split: if_splits res.splits option.splits)
next
  assume "b \<and> (\<exists>fp s. Sha256Sum E ac = Ok fp \<and> fp \<notin> certBlocklist p
        \<and> d_Issuer (Details ac) \<noteq> [] \<and> caMap p (d_Issuer (Details ac)) = Some s
        \<and> d_NotBefore (Details s) \<le> d_NotBefore (Details ac) \<and> d_NotBefore (Details ac) \<le> t
        \<and> t \<le> d_NotAfter (Details ac) \<and> d_NotAfter (Details ac) \<le> d_NotAfter (Details s)
        \<and> CheckSignature E ac (d_PublicKey (Details s)) = Some True)"
  then show "Verify E ac t p = Ok b"
    by (auto simp: Verify_def IsBlocklisted_def GetCAForCert_def CheckRootConstrains_def Expired_iff
        time_Before_def time_After_def)
qed

section \<open>The invariant of the pool\<close>

text \<open>
  Every certificate of the pool is a CA certificate, filed under its own fingerprint and signed
  with its own key.
\<close>

definition trusted_root :: "extern \<Rightarrow> bytes \<Rightarrow> certificate \<Rightarrow> bool" where
  "trusted_root E fp c \<longleftrightarrow>
     d_IsCA (Details c) \<and> Sha256Sum E c = Ok fp
     \<and> CheckSignature E c (d_PublicKey (Details c)) = Some True"

definition pool_inv :: "extern \<Rightarrow> capool \<Rightarrow> bool" where
  "pool_inv E p \<longleftrightarrow> (\<forall>fp c. caMap p fp = Some c \<longrightarrow> trusted_root E fp c)"

lemma pool_inv_NewCAPool: "pool_inv E NewCAPool"
  by (simp add: pool_inv_def NewCAPool_def)

lemma pool_inv_Blocklist: "pool_inv E p \<Longrightarrow> pool_inv E (BlocklistFingerprint p fp)"
  by (simp add: pool_inv_def BlocklistFingerprint_def)

lemma AddCA_inv:
  "AddCACertificateFromPEM E now p b = (p', e, r) \<Longrightarrow> pool_inv E p \<Longrightarrow> pool_inv E p'"
  by (auto simp: AddCACertificateFromPEM_def pool_inv_def trusted_root_def Let_def
      split: prod.splits res.splits option.splits if_splits)

lemma AddCA_blocklist:
  "AddCACertificateFromPEM E now p b = (p', e, r) \<Longrightarrow> certBlocklist p' = certBlocklist p"
  by (auto simp: AddCACertificateFromPEM_def Let_def
      split: prod.splits res.splits option.splits if_splits)

lemma load_pool_inv:
  "load_pool E clock n p ex b = PoolRet (Some p') e \<Longrightarrow> pool_inv E p
     \<Longrightarrow> pool_inv E p' \<and> certBlocklist p' = certBlocklist p"
proof (induction E clock n p ex b rule: load_pool.induct)
  case (1 E clock n p ex b)
  obtain q f r where a: "AddCACertificateFromPEM E (clock n) p b = (q, f, r)"
    by (metis prod_cases3)
  have q: "pool_inv E q" "certBlocklist q = certBlocklist p"
    using AddCA_inv [OF a "1.prems"(2)] AddCA_blocklist [OF a] by auto
  show ?case
    using "1.prems"(1) "1.IH"(1) [OF a [symmetric] refl] "1.IH"(2) [OF a [symmetric] refl] a q
    by (auto simp: load_pool.simps [of E clock n p ex b] split: res.splits if_splits)
qed

text \<open>
  A pool as an interface: what a verifier needs of a source of CA certificates. The issuer field
  alone decides which root is found, and a root found is a sound one.
\<close>

locale ca_source =
  fixes get_ca :: "'p \<Rightarrow> certificate \<Rightarrow> (cert_error, certificate) res"
    and inv :: "'p \<Rightarrow> bool"
    and root :: "bytes \<Rightarrow> certificate \<Rightarrow> bool"
  assumes get_ca_root: "inv p \<Longrightarrow> get_ca p ac = Ok s \<Longrightarrow> root (d_Issuer (Details ac)) s"
    and get_ca_issuer: "d_Issuer (Details a) = d_Issuer (Details b) \<Longrightarrow> get_ca p a = get_ca p b"
    and no_issuer: "d_Issuer (Details ac) = [] \<Longrightarrow> get_ca p ac = Err NoIssuer"
begin

lemma get_ca_has_issuer: "get_ca p ac = Ok s \<Longrightarrow> d_Issuer (Details ac) \<noteq> []"
  using no_issuer [of ac p] by auto

lemma same_issuer_same_root:
  "inv p \<Longrightarrow> get_ca p a = Ok s \<Longrightarrow> d_Issuer (Details b) = d_Issuer (Details a)
     \<Longrightarrow> get_ca p b = Ok s \<and> root (d_Issuer (Details b)) s"
  using get_ca_issuer [of b a p] get_ca_root [of p a s] by simp

end

interpretation pool: ca_source GetCAForCert "pool_inv E" "trusted_root E" for E
  by unfold_locales (simp_all add: GetCAForCert_Ok pool_inv_def, simp_all add: GetCAForCert_def)

lemma trusted_root_key_length:
  "trusted_root E fp s \<Longrightarrow> length (d_PublicKey (Details s)) = ed25519_PublicKeySize"
  unfolding trusted_root_def using CheckSignature_True_length by blast

lemma loaded_pool_inv: "NewCAPoolFromPEM E clock f = PoolRet (Some p) e \<Longrightarrow> pool_inv E p"
  using load_pool_inv [of E clock 0 NewCAPool False f p e] pool_inv_NewCAPool
  by (auto simp: NewCAPoolFromPEM_def)

lemma Verify_pool_no_panic:
  assumes "pool_inv E p"
  shows "Verify E ac t p \<noteq> Panic"
proof -
  have "CheckSignature E ac (d_PublicKey (Details s)) \<noteq> None" if "GetCAForCert p ac = Ok s" for s
    using trusted_root_key_length [OF pool.get_ca_root [OF assms that]]
    by (simp add: CheckSignature_None_iff)
  then show ?thesis
    by (auto simp: Verify_def split: res.splits option.splits)
qed

section \<open>Loading a file of CA certificates\<close>

text \<open>The PEM text of a root that survives the trip over the wire.\<close>

definition root_pem :: "extern \<Rightarrow> certificate \<Rightarrow> bytes \<Rightarrow> bool" where
  "root_pem E c f \<longleftrightarrow>
     MarshalAetherportCertificateToPEM E c = Ok f
     \<and> (\<exists>b. Marshal E c = Ok b \<and> UnmarshalAetherportCertificate E b = Ok c)
     \<and> (\<exists>fp. trusted_root E fp c)"

definition cert_fp :: "extern \<Rightarrow> certificate \<Rightarrow> bytes" where
  "cert_fp E c = (case Sha256Sum E c of Ok h \<Rightarrow> h | _ \<Rightarrow> [])"

lemma AddCA_root_pem:
  assumes "root_pem E c f"
  shows "AddCACertificateFromPEM E now p (f @ x) =
           (p\<lparr>caMap := (caMap p)(cert_fp E c \<mapsto> c)\<rparr>,
            if Expired c now then Err (ErrExpired (d_Name (Details c))) else Ok (), x)"
  using assms
  by (auto simp: root_pem_def trusted_root_def AddCACertificateFromPEM_def CertificateFromPEM_ToPEM
      cert_fp_def Let_def)

lemma root_pem_not_blank:
  assumes "root_pem E c f"
  shows "f \<noteq> [] \<and> \<not> all_space (f @ x)"
proof -
  obtain b where "f = pem_encode b"
    using assms by (auto simp: root_pem_def MarshalAetherportCertificateToPEM_def rbind_eq_Ok)
  then show ?thesis
    by (auto simp: pem_encode_def pem_start_def go_defs)
qed

lemma load_pool_roots:
  "list_all2 (root_pem E) cs fs \<Longrightarrow> cs \<noteq> [] \<Longrightarrow>
     load_pool E clock n p ex (concat fs) =
       PoolRet (Some (p\<lparr>caMap := caMap p ++ map_of (rev (map (\<lambda>c. (cert_fp E c, c)) cs))\<rparr>))
         (if ex \<or> (\<exists>i<length cs. Expired (cs ! i) (clock (n + i))) then Some ErrPoolExpired else None)"
proof (induction cs arbitrary: fs n p ex)
  case Nil
  then show ?case by simp
next
  case (Cons c cs)
  obtain f fs' where fs: "fs = f # fs'" and f: "root_pem E c f" and r: "list_all2 (root_pem E) cs fs'"
    using Cons.prems(1) by (auto simp: list_all2_Cons1)
  have ex_Suc: "(\<exists>i<Suc m. P i) \<longleftrightarrow> P 0 \<or> (\<exists>i<m. P (Suc i))" for m and P :: "nat \<Rightarrow> bool"
    using less_Suc_eq_0_disj by auto
  show ?case
  proof (cases cs)
    case Nil
    with r fs show ?thesis
      by (auto simp: load_pool.simps AddCA_root_pem [OF f, of _ _ "[]", simplified] ex_Suc
          map_add_def fun_eq_iff intro!: arg_cong [where f = "\<lambda>m. p\<lparr>caMap := m\<rparr>"])
  next
    case (Cons d ds)
    then obtain g gs where g: "fs' = g # gs" "root_pem E d g"
      using r by (auto simp: list_all2_Cons1)
    have nb: "concat fs' \<noteq> []" "\<not> all_space (concat fs')"
      using root_pem_not_blank [OF g(2), of "concat gs"] g(1) by auto
    have "cs \<noteq> []" using Cons by simp
    then show ?thesis
      using nb Cons.IH [OF r] fs
      by (simp add: load_pool.simps [of E clock n p ex] AddCA_root_pem [OF f] ex_Suc
          map_add_assoc [symmetric] del: map_add_assoc) auto
  qed
qed

end
