(* ===== verification/Identity.thy ===== *)
theory Identity
  imports CAPool
begin

text \<open>
  \<open>identity.go\<close>: the node's identity in the Noise handshake, with the pre-shared keys derived
  from its CA and the validation of the peer's certificate.

  Go iterates over the pool's map in an unspecified order: \<open>order\<close> lists its keys in the order
  of the iteration. Two entries of the map are the same pointer exactly when their keys agree,
  since every \<open>AddCACertificateFromPEM\<close> allocates its own certificate.
\<close>

record identity =
  i_key :: bytes
  i_cert :: certificate
  i_caPool :: capool
  i_psk :: "bytes list"
  i_payload :: bytes
  i_peerCert :: "certificate option"

datatype id_error =
    NoCAOfNode cert_error | PskFailed | PayloadFailed cert_error
  | PeerInvalid cert_error | PeerUnverified cert_error | PeerUntrusted

definition DHKey :: "identity \<Rightarrow> bytes \<times> bytes" where
  "DHKey i = (i_key i, d_PublicKey (Details (i_cert i)))"

definition pskGen :: "extern \<Rightarrow> certificate \<Rightarrow> bytes option" where
  "pskGen E ca = hkdf_sha256 E (Signature ca) 32"

text \<open>
  The loop over the pool. The in-place prepend of the source is the append to the one-element
  prefix followed by the assignment to slot 0.
\<close>

fun psk_loop ::
    "extern \<Rightarrow> bytes \<Rightarrow> certificate \<Rightarrow> bytes list \<Rightarrow> bytes list \<Rightarrow> (id_error, bytes list) res" where
  "psk_loop E ica_fp ica keys [] = Ok keys"
| "psk_loop E ica_fp ica keys (fp # fps) =
     (case pskGen E ica of
        None \<Rightarrow> Err PskFailed
      | Some psk \<Rightarrow>
          if fp = ica_fp \<and> 1 < length keys
          then psk_loop E ica_fp ica ((take 1 keys @ keys)[0 := psk]) fps
          else psk_loop E ica_fp ica (keys @ [psk]) fps)"

definition computePresharedKeys ::
    "extern \<Rightarrow> bytes list \<Rightarrow> identity \<Rightarrow> (id_error, identity) res" where
  "computePresharedKeys E order i =
     (case GetCAForCert (i_caPool i) (i_cert i) of
        Err e \<Rightarrow> Err (NoCAOfNode e)
      | Panic \<Rightarrow> Panic
      | Ok ica \<Rightarrow>
          rbind (psk_loop E (d_Issuer (Details (i_cert i))) ica [] order)
            (\<lambda>keys. Ok (i\<lparr>i_psk := keys\<rparr>)))"

definition computePayload :: "extern \<Rightarrow> identity \<Rightarrow> (id_error, identity) res" where
  "computePayload E i =
     (case Marshal E (i_cert i) of
        Ok b \<Rightarrow> Ok (i\<lparr>i_payload := b\<rparr>)
      | Err e \<Rightarrow> Err (PayloadFailed e)
      | Panic \<Rightarrow> Panic)"

definition NewIdentity ::
    "extern \<Rightarrow> bytes list \<Rightarrow> bytes \<Rightarrow> certificate \<Rightarrow> capool \<Rightarrow> (id_error, identity) res" where
  "NewIdentity E order key cert caPool =
     rbind (computePresharedKeys E order
              \<lparr>i_key = key, i_cert = cert, i_caPool = caPool, i_psk = [], i_payload = [],
               i_peerCert = None\<rparr>)
       (computePayload E)"

definition PresharedKeys :: "identity \<Rightarrow> bytes list" where
  "PresharedKeys i = i_psk i"

definition Payload :: "identity \<Rightarrow> bytes" where
  "Payload i = i_payload i"

definition ValidatePeer ::
    "extern \<Rightarrow> time \<Rightarrow> identity \<Rightarrow> bytes \<Rightarrow> identity \<times> (id_error, unit) res" where
  "ValidatePeer E now i payload =
     (case UnmarshalAetherportCertificate E payload of
        Err e \<Rightarrow> (i, Err (PeerInvalid e))
      | Panic \<Rightarrow> (i, Panic)
      | Ok c \<Rightarrow>
          (case Verify E c now (i_caPool i) of
             Err e \<Rightarrow> (i, Err (PeerUnverified e))
           | Panic \<Rightarrow> (i, Panic)
           | Ok ok \<Rightarrow>
               if \<not> ok then (i, Err PeerUntrusted)
               else (i\<lparr>i_peerCert := Some c\<rparr>, Ok ())))"

section \<open>Lemmas\<close>

text \<open>The orders Go may iterate a pool in.\<close>

definition map_order :: "capool \<Rightarrow> bytes list \<Rightarrow> bool" where
  "map_order p order \<longleftrightarrow> distinct order \<and> set order = dom (caMap p)"

lemma prepend_replicate:
  "1 < n \<Longrightarrow> (take 1 (replicate n x) @ replicate n x)[0 := x] = replicate (Suc n) x"
  by (cases n) auto

lemma psk_loop_replicate:
  "pskGen E ica = Some psk \<Longrightarrow>
     psk_loop E fp ica (replicate n psk) fps = Ok (replicate (n + length fps) psk)"
proof (induction fps arbitrary: n)
  case Nil
  then show ?case by simp
next
  case (Cons f fps)
  have "replicate n psk @ [psk] = replicate (Suc n) psk"
    by (simp add: replicate_append_same)
  with Cons show ?case
    using prepend_replicate [of n psk] Cons.IH [of "Suc n"] by simp
qed

lemma computePresharedKeys_Ok:
  assumes "computePresharedKeys E order i = Ok i'"
  shows "\<exists>ica. caMap (i_caPool i) (d_Issuer (Details (i_cert i))) = Some ica
           \<and> (order \<noteq> [] \<longrightarrow> (\<exists>psk. pskGen E ica = Some psk
                 \<and> i' = i\<lparr>i_psk := replicate (length order) psk\<rparr>))"
proof -
  obtain ica keys where ica: "caMap (i_caPool i) (d_Issuer (Details (i_cert i))) = Some ica"
    and l: "psk_loop E (d_Issuer (Details (i_cert i))) ica [] order = Ok keys"
    and i': "i' = i\<lparr>i_psk := keys\<rparr>"
    using assms
    by (auto simp: computePresharedKeys_def GetCAForCert_Ok rbind_eq_Ok split: res.splits)
  have "\<exists>psk. pskGen E ica = Some psk \<and> keys = replicate (length order) psk" if "order \<noteq> []"
  proof -
    from that l obtain psk where "pskGen E ica = Some psk"
      by (cases order) (auto split: option.splits)
    with psk_loop_replicate [OF this, of _ 0] l show ?thesis by auto
  qed
  with ica i' show ?thesis by blast
qed

lemma computePayload_Ok:
  "computePayload E i = Ok i' \<longleftrightarrow> (\<exists>b. Marshal E (i_cert i) = Ok b \<and> i' = i\<lparr>i_payload := b\<rparr>)"
  by (auto simp: computePayload_def split: res.splits)

lemma ValidatePeer_Ok:
  "ValidatePeer E now i payload = (i', Ok ()) \<longleftrightarrow>
     (\<exists>c. UnmarshalAetherportCertificate E payload = Ok c \<and> Verify E c now (i_caPool i) = Ok True
        \<and> i' = i\<lparr>i_peerCert := Some c\<rparr>)"
  by (auto simp: ValidatePeer_def split: res.splits if_splits)

end
