(* ===== verification/TrustPool.thy ===== *)
theory TrustPool
  imports CAPool ExternModel
begin

text \<open>
  The theorems on the pool of CAs and on \<open>Verify\<close>: what a loaded pool holds, when a certificate is
  accepted, and which inputs crash the process.
\<close>

section \<open>A concrete root\<close>

definition demo_root :: certificate where
  "demo_root = fst (Sign demo_env demo_key None demo_ca)"

lemma demo_root:
  "\<exists>s. Sign demo_env demo_key None demo_ca = (demo_root, Ok ()) \<and> demo_root = demo_ca\<lparr>Signature := s\<rparr>
     \<and> CheckSignature demo_env demo_root (ed25519_Public demo_key) = Some True"
proof -
  obtain s where s: "Sign demo_env demo_key None demo_ca = (demo_ca\<lparr>Signature := s\<rparr>, Ok ())"
    using demo_Sign [of demo_ca demo_key] by (auto simp: demo_idna length_demo_key)
  then have r: "demo_root = demo_ca\<lparr>Signature := s\<rparr>" by (simp add: demo_root_def)
  have "CheckSignature demo_env demo_root (ed25519_Public demo_key) = Some True"
    using Sign_Ok_details [OF s] r
    by (auto simp: CheckSignature_def demo_env_def ed25519_PublicKeySize_def)
  with s r show ?thesis by metis
qed

lemma demo_root_details [simp]: "Details demo_root = Details demo_ca"
proof -
  obtain s where "demo_root = demo_ca\<lparr>Signature := s\<rparr>" using demo_root by blast
  then show ?thesis by (rule ssubst) simp
qed

lemma demo_root_Marshal:
  "\<exists>b. Marshal demo_env demo_root = Ok b \<and> UnmarshalAetherportCertificate demo_env b = Ok demo_root"
proof -
  obtain b where b: "Marshal demo_env demo_root = Ok b"
    using demo_Marshal [of demo_root] by (auto simp: demo_idna)
  have i: "hex_decode (d_Issuer (Details demo_root)) = Some []" by simp
  have "demo_root\<lparr>Details := Details demo_ca\<lparr>d_Labels := [],
      d_NotBefore := time_Unix0 (UnixNano 0), d_NotAfter := time_Unix0 (UnixNano 1000),
      d_Issuer := []\<rparr>\<rparr> = demo_root"
    using demo_root
    by (auto simp: time_Unix0_UnixNano nano_range_def min_duration_def max_duration_def demo_ca_def)
  then show ?thesis
    using b by (simp add: Unmarshal_Marshal [OF demo_proto_laws b i] x25519KeyLen_def)
qed

lemma demo_trusted: "\<exists>fp. trusted_root demo_env fp demo_root"
  using demo_root_Marshal demo_root
  by (auto simp: trusted_root_def Sha256Sum_def rbind_eq_Ok)

lemma demo_root_pem: "\<exists>f. root_pem demo_env demo_root f"
  using demo_root_Marshal demo_trusted
  by (auto simp: root_pem_def MarshalAetherportCertificateToPEM_def)

lemma demo_pool:
  "\<exists>f p. root_pem demo_env demo_root f \<and> NewCAPoolFromPEM demo_env (\<lambda>_. 500) f = PoolRet (Some p) None
     \<and> caMap p (cert_fp demo_env demo_root) = Some demo_root"
proof -
  obtain f where f: "root_pem demo_env demo_root f" using demo_root_pem by blast
  then have "list_all2 (root_pem demo_env) [demo_root] [f]" by simp
  from load_pool_roots [OF this, of "\<lambda>_. 500" 0 NewCAPool False] f show ?thesis
    by (auto simp: NewCAPoolFromPEM_def Expired_iff)
qed

section \<open>The pool\<close>

text \<open>C2. Whatever bytes a pool is loaded from, every certificate in it is a CA certificate filed
  under its own fingerprint and signed with its own key, and nothing is blocked yet.\<close>

theorem loaded_pool_sound:
  assumes "NewCAPoolFromPEM E clock f = PoolRet (Some p) e"
  shows "certBlocklist p = {}
    \<and> (\<forall>fp c. caMap p fp = Some c \<longrightarrow>
           d_IsCA (Details c) \<and> Sha256Sum E c = Ok fp
           \<and> CheckSignature E c (d_PublicKey (Details c)) = Some True)"
  using assms load_pool_inv [of E clock 0 NewCAPool False f p e] pool_inv_NewCAPool [of E]
  by (auto simp: NewCAPoolFromPEM_def pool_inv_def trusted_root_def NewCAPool_def)

theorem loaded_pool_sound_witness:
  "\<exists>f p. NewCAPoolFromPEM demo_env (\<lambda>_. 500) f = PoolRet (Some p) None
     \<and> certBlocklist p = {} \<and> caMap p (cert_fp demo_env demo_root) = Some demo_root
     \<and> Sha256Sum demo_env demo_root = Ok (cert_fp demo_env demo_root)"
  using demo_pool loaded_pool_sound by blast

text \<open>C34. A file that is the concatenation of the PEM forms of sound roots loads completely: the
  pool maps each fingerprint to the last certificate of the file that has it, and the error is
  set exactly when some certificate had expired when its block was read.\<close>

theorem load_concatenated_roots:
  assumes "list_all2 (root_pem E) cs fs" and "cs \<noteq> []"
  shows "NewCAPoolFromPEM E clock (concat fs) =
           PoolRet (Some \<lparr>caMap = map_of (rev (map (\<lambda>c. (cert_fp E c, c)) cs)), certBlocklist = {}\<rparr>)
             (if \<exists>i<length cs. Expired (cs ! i) (clock i) then Some ErrPoolExpired else None)"
  using load_pool_roots [OF assms, of clock 0 NewCAPool False]
  by (simp add: NewCAPoolFromPEM_def NewCAPool_def)

theorem load_concatenated_roots_witness:
  "\<exists>f p. root_pem demo_env demo_root f
     \<and> NewCAPoolFromPEM demo_env (\<lambda>i. if i = 0 then 500 else 2000) (f @ f) = PoolRet (Some p) (Some ErrPoolExpired)"
proof -
  obtain f where f: "root_pem demo_env demo_root f" using demo_root_pem by blast
  then have "list_all2 (root_pem demo_env) [demo_root, demo_root] [f, f]" by simp
  note load_concatenated_roots [OF this, of "\<lambda>i. if i = 0 then 500 else 2000"]
  moreover have "\<exists>i<length [demo_root, demo_root]. Expired ([demo_root, demo_root] ! i)
      (if i = 0 then 500 else 2000)"
    by (intro exI [of _ 1]) (simp add: Expired_iff)
  ultimately show ?thesis using f by (intro exI [of _ f]) simp
qed

text \<open>C1. \<open>Verify\<close> accepts exactly the certificates that are not blocked, whose issuer is a
  fingerprint of the pool, whose validity lies within the issuer's and contains the instant, and
  whose signature checks under the issuer's key. A false answer always comes with an error.\<close>

theorem Verify_iff:
  "Verify E ac t p = Ok b \<longleftrightarrow>
     b \<and> (\<exists>fp s. Sha256Sum E ac = Ok fp \<and> fp \<notin> certBlocklist p
        \<and> d_Issuer (Details ac) \<noteq> [] \<and> caMap p (d_Issuer (Details ac)) = Some s
        \<and> d_NotBefore (Details s) \<le> d_NotBefore (Details ac) \<and> d_NotBefore (Details ac) \<le> t
        \<and> t \<le> d_NotAfter (Details ac) \<and> d_NotAfter (Details ac) \<le> d_NotAfter (Details s)
        \<and> CheckSignature E ac (d_PublicKey (Details s)) = Some True)"
  by (rule Verify_accepts)

text \<open>Blocking a fingerprint refuses that certificate at every instant and changes nothing for
  a certificate with another fingerprint.\<close>

lemma blocklist_effect:
  assumes "Sha256Sum E ac = Ok fp'"
  shows "Verify E ac t (BlocklistFingerprint p fp) = (if fp' = fp then Err Blocked else Verify E ac t p)"
  using assms
  by (simp add: Verify_def IsBlocklisted_def BlocklistFingerprint_def GetCAForCert_def
      cong: res.case_cong)

text \<open>With a pool that was loaded from PEM, \<open>Verify\<close> never panics, whatever certificate a
  peer sends and whatever is blocked: the roots of the pool have keys of the right length.\<close>

lemma Verify_no_panic:
  assumes "NewCAPoolFromPEM E clock f = PoolRet (Some p) e"
  shows "Verify E ac t (fold (\<lambda>fp q. BlocklistFingerprint q fp) fps p) \<noteq> Panic"
proof -
  have inv: "pool_inv E (fold (\<lambda>fp q. BlocklistFingerprint q fp) fps q)" if "pool_inv E q" for q
    using that by (induction fps arbitrary: q) (auto simp: pool_inv_Blocklist)
  show ?thesis
    by (rule Verify_pool_no_panic, rule inv, rule loaded_pool_inv [OF assms])
qed

text \<open>A PEM block with a CA certificate whose public key is longer than 32 bytes crashes the
  loader: \<open>UnmarshalAetherportCertificate\<close> only refuses shorter keys, and \<open>ed25519.Verify\<close>
  panics on the length.\<close>

lemma oversized_ca_key_panics:
  assumes "UnmarshalAetherportCertificateFromPEM E f = (Ok c, r)" and "d_IsCA (Details c)"
    and "x25519KeyLen < length (d_PublicKey (Details c))" and "Marshal E c = Ok b"
    and "details_bytes E c = Ok m"
  shows "NewCAPoolFromPEM E clock f = PoolPanic"
proof -
  have "CheckSignature E c (d_PublicKey (Details c)) = None"
    using assms(3,5)
    by (auto simp: CheckSignature_None_iff x25519KeyLen_def ed25519_PublicKeySize_def)
  then show ?thesis
    using assms by (simp add: NewCAPoolFromPEM_def load_pool.simps AddCACertificateFromPEM_def)
qed

definition demo_fat :: certificate where
  "demo_fat = demo_ca\<lparr>Details := (Details demo_ca)\<lparr>d_PublicKey := replicate 33 CHR 0x00\<rparr>\<rparr>"

end
