(* ===== verification/NodeIdentity.thy ===== *)
theory NodeIdentity
  imports Identity TrustPool
begin

text \<open>
  The theorems on \<open>identity.go\<close>: the pre-shared keys a node offers, who can share one with it,
  and which peers it accepts, from the CA file to the payload on the wire.
\<close>

section \<open>Lemmas on a finished identity\<close>

lemma NewIdentity_Ok:
  assumes "NewIdentity E order key cert p = Ok i" and "map_order p order"
  shows "\<exists>ica psk. caMap p (d_Issuer (Details cert)) = Some ica \<and> pskGen E ica = Some psk
           \<and> i_psk i = replicate (card (dom (caMap p))) psk \<and> 0 < card (dom (caMap p))
           \<and> Marshal E cert = Ok (i_payload i) \<and> i_key i = key \<and> i_cert i = cert
           \<and> i_caPool i = p \<and> i_peerCert i = None"
proof -
  let ?i0 = "\<lparr>i_key = key, i_cert = cert, i_caPool = p, i_psk = [], i_payload = [], i_peerCert = None\<rparr>"
  obtain i1 where k: "computePresharedKeys E order ?i0 = Ok i1" and l: "computePayload E i1 = Ok i"
    using assms(1) by (auto simp: NewIdentity_def rbind_eq_Ok)
  obtain ica where ica: "caMap p (d_Issuer (Details cert)) = Some ica"
    and psk: "order \<noteq> [] \<longrightarrow> (\<exists>psk. pskGen E ica = Some psk \<and> i1 = ?i0\<lparr>i_psk := replicate (length order) psk\<rparr>)"
    using computePresharedKeys_Ok [OF k] by auto
  have mem: "d_Issuer (Details cert) \<in> set order"
    using ica assms(2) by (auto simp: map_order_def dom_def)
  have len: "length order = card (dom (caMap p))"
    using assms(2) by (metis distinct_card map_order_def)
  from mem have ne: "order \<noteq> []" by auto
  then have pos: "0 < card (dom (caMap p))" by (simp flip: len)
  with psk ne obtain psk where "pskGen E ica = Some psk" "i1 = ?i0\<lparr>i_psk := replicate (length order) psk\<rparr>"
    by blast
  with ica l len pos show ?thesis by (auto simp: computePayload_Ok)
qed

lemma NewIdentity_total:
  assumes "caMap p (d_Issuer (Details cert)) = Some ica" and "d_Issuer (Details cert) \<noteq> []"
    and "pskGen E ica = Some psk" and "Marshal E cert = Ok b"
  shows "\<exists>i. NewIdentity E order key cert p = Ok i"
  using assms psk_loop_replicate [of E ica psk "d_Issuer (Details cert)" 0 order]
  by (simp add: NewIdentity_def computePresharedKeys_def GetCAForCert_def computePayload_def)

lemma ValidatePeer_no_panic:
  "pool_inv E (i_caPool i) \<Longrightarrow> snd (ValidatePeer E now i payload) \<noteq> Panic"
  using Verify_pool_no_panic [of E "i_caPool i"]
  by (auto simp: ValidatePeer_def split: res.splits)

lemma ValidatePeer_rejects:
  "snd (ValidatePeer E now i payload) \<noteq> Ok () \<Longrightarrow> fst (ValidatePeer E now i payload) = i"
  by (auto simp: ValidatePeer_def split: res.splits if_splits)

section \<open>A concrete node\<close>

definition demo_node :: certificate where
  "demo_node = fst (Sign demo_env demo_key (Some demo_root) demo_ca)"

lemma demo_node:
  "d_Issuer (Details demo_node) = cert_fp demo_env demo_root"
  "Details demo_node = (Details demo_ca)\<lparr>d_Issuer := cert_fp demo_env demo_root\<rparr>"
  "CheckSignature demo_env demo_node (ed25519_Public demo_key) = Some True"
proof -
  let ?fp = "cert_fp demo_env demo_root"
  have fp: "Sha256Sum demo_env demo_root = Ok ?fp"
    using demo_trusted by (auto simp: trusted_root_def cert_fp_def)
  obtain h where h: "hex_decode ?fp = Some h"
    using canonical_hex_decode [OF Sha256Sum_hex [OF fp]] by blast
  obtain s where s: "sign_details demo_env demo_key (set_issuer demo_ca ?fp)
      = ((set_issuer demo_ca ?fp)\<lparr>Signature := s\<rparr>, Ok ())"
    using demo_Sign [of "set_issuer demo_ca ?fp" demo_key] h
    by (auto simp: Sign_def set_issuer_def demo_idna length_demo_key)
  then have n: "Sign demo_env demo_key (Some demo_root) demo_ca = (demo_node, Ok ())"
    "demo_node = (set_issuer demo_ca ?fp)\<lparr>Signature := s\<rparr>"
    by (simp_all add: Sign_def fp demo_node_def)
  show d: "Details demo_node = (Details demo_ca)\<lparr>d_Issuer := ?fp\<rparr>"
    unfolding n(2) by (simp add: set_issuer_def)
  show "d_Issuer (Details demo_node) = ?fp" by (simp add: d)
  obtain b where "details_bytes demo_env demo_node = Ok b"
    "Signature demo_node = ed25519_sign demo_env demo_key b"
    using Sign_Ok_details [OF n(1)] by blast
  then show "CheckSignature demo_env demo_node (ed25519_Public demo_key) = Some True"
    by (auto simp: CheckSignature_def demo_env_def ed25519_PublicKeySize_def)
qed

lemma demo_fp: "Sha256Sum demo_env demo_root = Ok (cert_fp demo_env demo_root)"
  "cert_fp demo_env demo_root \<noteq> []" "canonical_hex (cert_fp demo_env demo_root)"
proof -
  show fp: "Sha256Sum demo_env demo_root = Ok (cert_fp demo_env demo_root)"
    using demo_trusted by (auto simp: trusted_root_def cert_fp_def)
  have "sha256_size demo_env"
    by (auto simp: sha256_size_def demo_env_def min_def)
  then show "cert_fp demo_env demo_root \<noteq> []" using fp by (rule Sha256Sum_nonempty)
  show "canonical_hex (cert_fp demo_env demo_root)" using fp by (rule Sha256Sum_hex)
qed

lemma demo_node_wire:
  assumes "Marshal demo_env demo_node = Ok b"
  shows "UnmarshalAetherportCertificate demo_env b = Ok demo_node"
proof -
  obtain h where h: "hex_decode (cert_fp demo_env demo_root) = Some h" "hex_encode h = cert_fp demo_env demo_root"
    using canonical_hex_decode [OF demo_fp(3)] by blast
  then show ?thesis
    using Unmarshal_Marshal [OF demo_proto_laws assms] demo_node(2)
    by (cases demo_node) (auto simp: x25519KeyLen_def time_Unix0_UnixNano nano_range_def
        min_duration_def max_duration_def demo_ca_def ed25519_Public_def demo_key_def)
qed

lemma demo_loaded:
  obtains f p where "NewCAPoolFromPEM demo_env (\<lambda>_. 500) f = PoolRet (Some p) None"
    and "caMap p (cert_fp demo_env demo_root) = Some demo_root"
    and "Verify demo_env demo_node 500 p = Ok True"
proof -
  obtain f p where l: "NewCAPoolFromPEM demo_env (\<lambda>_. 500) f = PoolRet (Some p) None"
    and r: "caMap p (cert_fp demo_env demo_root) = Some demo_root"
    using demo_pool by blast
  have b: "certBlocklist p = {}"
    using load_pool_inv [of demo_env "\<lambda>_. 500" 0 NewCAPool False f p None] l pool_inv_NewCAPool
    by (auto simp: NewCAPoolFromPEM_def NewCAPool_def)
  obtain h where h: "hex_decode (cert_fp demo_env demo_root) = Some h"
    using canonical_hex_decode [OF demo_fp(3)] by blast
  have "\<exists>fp. Sha256Sum demo_env demo_node = Ok fp"
    using demo_Marshal [of demo_node] h
    by (auto simp: demo_node(2) demo_idna Sha256Sum_def rbind_eq_Ok)
  then have "Verify demo_env demo_node 500 p = Ok True"
    using b r demo_node demo_fp(2) by (auto simp: Verify_accepts)
  with l r show ?thesis by (rule that)
qed

lemma demo_identity:
  assumes "caMap p (cert_fp demo_env demo_root) = Some demo_root"
  obtains i where "NewIdentity demo_env order k demo_node p = Ok i"
proof -
  obtain h where h: "hex_decode (cert_fp demo_env demo_root) = Some h"
    using canonical_hex_decode [OF demo_fp(3)] by blast
  obtain b where "Marshal demo_env demo_node = Ok b"
    using demo_Marshal [of demo_node] h by (auto simp: demo_node(2) demo_idna)
  moreover obtain psk where "pskGen demo_env demo_root = Some psk"
    by (simp add: pskGen_def demo_env_def)
  ultimately show ?thesis
    using NewIdentity_total [of p demo_node demo_root demo_env psk b order k] assms demo_fp(2) that
    by (auto simp: demo_node(1))
qed

lemma NewIdentity_fields:
  "NewIdentity E order key cert p = Ok i \<Longrightarrow>
     i_caPool i = p \<and> i_peerCert i = None \<and> Marshal E cert = Ok (i_payload i)"
  by (auto simp: NewIdentity_def computePresharedKeys_def rbind_eq_Ok computePayload_Ok split: res.splits)

text \<open>The concrete node accepts its own payload.\<close>

lemma demo_accepted:
  obtains f p i where "NewCAPoolFromPEM demo_env (\<lambda>_. 500) f = PoolRet (Some p) None"
    and "NewIdentity demo_env [cert_fp demo_env demo_root] [] demo_node p = Ok i"
    and "caMap p (cert_fp demo_env demo_root) = Some demo_root"
    and "UnmarshalAetherportCertificate demo_env (i_payload i) = Ok demo_node"
    and "ValidatePeer demo_env 500 i (i_payload i) = (i\<lparr>i_peerCert := Some demo_node\<rparr>, Ok ())"
proof -
  obtain f p where p: "NewCAPoolFromPEM demo_env (\<lambda>_. 500) f = PoolRet (Some p) None"
    "caMap p (cert_fp demo_env demo_root) = Some demo_root"
    "Verify demo_env demo_node 500 p = Ok True"
    by (rule demo_loaded)
  obtain i where i: "NewIdentity demo_env [cert_fp demo_env demo_root] [] demo_node p = Ok i"
    using demo_identity [OF p(2)] by blast
  have d: "Marshal demo_env demo_node = Ok (i_payload i)" "i_caPool i = p"
    using NewIdentity_fields [OF i] by simp_all
  from d(1) have u: "UnmarshalAetherportCertificate demo_env (i_payload i) = Ok demo_node"
    by (rule demo_node_wire)
  with p(3) d(2) have "ValidatePeer demo_env 500 i (i_payload i) = (i\<lparr>i_peerCert := Some demo_node\<rparr>, Ok ())"
    by (auto simp: ValidatePeer_Ok)
  with p(1) i p(2) u show ?thesis by (rule that)
qed

section \<open>Whom a node accepts\<close>

text \<open>C3. A peer accepted by a node whose pool was loaded from a file has sent a certificate that
  names a self-signed CA certificate of that file as its issuer by fingerprint, is signed with
  that CA's key, and whose validity contains the instant and lies inside the CA's. The node then
  remembers exactly that certificate.\<close>

theorem accepted_peer_is_trusted:
  assumes "NewCAPoolFromPEM E clock f = PoolRet (Some p) e" and "i_caPool i = p"
    and "ValidatePeer E now i payload = (i', Ok ())"
  shows "\<exists>c s. UnmarshalAetherportCertificate E payload = Ok c \<and> i' = i\<lparr>i_peerCert := Some c\<rparr>
           \<and> caMap p (d_Issuer (Details c)) = Some s
           \<and> d_IsCA (Details s) \<and> Sha256Sum E s = Ok (d_Issuer (Details c))
           \<and> CheckSignature E s (d_PublicKey (Details s)) = Some True
           \<and> CheckSignature E c (d_PublicKey (Details s)) = Some True
           \<and> d_NotBefore (Details s) \<le> d_NotBefore (Details c) \<and> d_NotBefore (Details c) \<le> now
           \<and> now \<le> d_NotAfter (Details c) \<and> d_NotAfter (Details c) \<le> d_NotAfter (Details s)"
proof -
  obtain c where c: "UnmarshalAetherportCertificate E payload = Ok c"
    "Verify E c now p = Ok True" "i' = i\<lparr>i_peerCert := Some c\<rparr>"
    using assms(2,3) by (auto simp: ValidatePeer_Ok)
  obtain s where s: "caMap p (d_Issuer (Details c)) = Some s" "d_Issuer (Details c) \<noteq> []"
    "CheckSignature E c (d_PublicKey (Details s)) = Some True"
    "d_NotBefore (Details s) \<le> d_NotBefore (Details c)" "d_NotBefore (Details c) \<le> now"
    "now \<le> d_NotAfter (Details c)" "d_NotAfter (Details c) \<le> d_NotAfter (Details s)"
    using c(2) by (auto simp: Verify_accepts)
  have "trusted_root E (d_Issuer (Details c)) s"
    using pool.get_ca_root [OF loaded_pool_inv [OF assms(1)], of c s] s(1,2)
    by (simp add: GetCAForCert_Ok)
  with c s show ?thesis by (auto simp: trusted_root_def)
qed

theorem accepted_peer_is_trusted_witness:
  "\<exists>f p i i' c. NewCAPoolFromPEM demo_env (\<lambda>_. 500) f = PoolRet (Some p) None
     \<and> NewIdentity demo_env [cert_fp demo_env demo_root] [] demo_node p = Ok i
     \<and> ValidatePeer demo_env 500 i (Payload i) = (i', Ok ())
     \<and> i_peerCert i' = Some c \<and> Sha256Sum demo_env demo_root = Ok (d_Issuer (Details c))"
proof -
  obtain f p i where p: "NewCAPoolFromPEM demo_env (\<lambda>_. 500) f = PoolRet (Some p) None"
    and i: "NewIdentity demo_env [cert_fp demo_env demo_root] [] demo_node p = Ok i"
    and r: "caMap p (cert_fp demo_env demo_root) = Some demo_root"
    and u: "UnmarshalAetherportCertificate demo_env (i_payload i) = Ok demo_node"
    and v: "ValidatePeer demo_env 500 i (i_payload i) = (i\<lparr>i_peerCert := Some demo_node\<rparr>, Ok ())"
    by (rule demo_accepted)
  have d: "i_caPool i = p" using NewIdentity_fields [OF i] by simp
  obtain c s where c: "UnmarshalAetherportCertificate demo_env (i_payload i) = Ok c"
    "Sha256Sum demo_env s = Ok (d_Issuer (Details c))" "caMap p (d_Issuer (Details c)) = Some s"
    using accepted_peer_is_trusted [OF p d v] by blast
  have "c = demo_node" using c(1) u by simp
  then have "Sha256Sum demo_env demo_root = Ok (d_Issuer (Details demo_node))"
    using c(2,3) r demo_node(1) by simp
  with p i v show ?thesis
    by (intro exI [of _ f] exI [of _ p] exI [of _ i] exI [of _ "i\<lparr>i_peerCert := Some demo_node\<rparr>"]
        exI [of _ demo_node]) (simp add: Payload_def)
qed

text \<open>Whatever bytes arrive, the validation of a peer never panics when the node's pool was
  loaded from a file, and a peer that is refused leaves the identity as it was.\<close>

lemma peer_refusal_is_clean:
  assumes "NewCAPoolFromPEM E clock f = PoolRet (Some p) e"
    and "NewIdentity E order key cert p = Ok i" and "map_order p order"
  shows "snd (ValidatePeer E now i payload) \<noteq> Panic
    \<and> (snd (ValidatePeer E now i payload) \<noteq> Ok () \<longrightarrow> fst (ValidatePeer E now i payload) = i)"
  using ValidatePeer_no_panic [of E i now payload] ValidatePeer_rejects [of E now i payload]
    loaded_pool_inv [OF assms(1)] NewIdentity_Ok [OF assms(2,3)] by auto

lemma demo_pool_dom:
  assumes "root_pem demo_env demo_root f" and "NewCAPoolFromPEM demo_env (\<lambda>_. 500) f = PoolRet (Some p) e"
  shows "caMap p = [cert_fp demo_env demo_root \<mapsto> demo_root]"
proof -
  have "list_all2 (root_pem demo_env) [demo_root] [f]" using assms(1) by simp
  from load_pool_roots [OF this, of "\<lambda>_. 500" 0 NewCAPool False] assms(2) show ?thesis
    by (auto simp: NewCAPoolFromPEM_def NewCAPool_def)
qed

text \<open>The payload of one node is accepted by another whenever the certificate it was built
  from verifies against the other's pool, for certificates without labels: what the code puts on
  the wire is enough for the peer.\<close>

lemma honest_payload_accepted:
  assumes "proto_laws E" and "NewIdentity E order key cert p = Ok i"
    and "d_Labels (Details cert) = []" and "canonical_hex (d_Issuer (Details cert))"
    and "nano_range (d_NotBefore (Details cert))" and "nano_range (d_NotAfter (Details cert))"
    and "x25519KeyLen \<le> length (d_PublicKey (Details cert))"
    and "Verify E cert now (i_caPool j) = Ok True"
  shows "ValidatePeer E now j (Payload i) = (j\<lparr>i_peerCert := Some cert\<rparr>, Ok ())
    \<and> snd (DHKey i) = d_PublicKey (Details cert)"
proof -
  have m: "Marshal E cert = Ok (i_payload i)" "i_cert i = cert"
    using assms(2) by (auto simp: NewIdentity_def computePayload_Ok rbind_eq_Ok
        computePresharedKeys_def split: res.splits)
  obtain h where h: "hex_decode (d_Issuer (Details cert)) = Some h" "hex_encode h = d_Issuer (Details cert)"
    using canonical_hex_decode [OF assms(4)] by blast
  have "UnmarshalAetherportCertificate E (i_payload i) = Ok cert"
    using assms(3,5-7) by (cases cert)
      (simp add: Unmarshal_Marshal [OF assms(1) m(1) h(1)] h(2) time_Unix0_UnixNano)
  with assms(8) m(2) show ?thesis
    by (simp add: ValidatePeer_Ok Payload_def DHKey_def)
qed

section \<open>The pre-shared keys\<close>

text \<open>Whatever order the pool is iterated in, a node offers one key per CA of its pool, and
  all of them are the key of its own CA: the loop derives every key from the CA of the node.\<close>

lemma all_psks_from_own_ca:
  assumes "NewIdentity E order key cert p = Ok i" and "map_order p order"
  shows "\<exists>ica psk. caMap p (d_Issuer (Details cert)) = Some ica
           \<and> hkdf_sha256 E (Signature ica) 32 = Some psk
           \<and> PresharedKeys i = replicate (card (dom (caMap p))) psk \<and> PresharedKeys i \<noteq> []"
  using NewIdentity_Ok [OF assms] by (auto simp: pskGen_def PresharedKeys_def)

text \<open>Two nodes that trust the same CAs but were certified by different ones have no
  pre-shared key in common unless their CAs derive the same key; the other keys of the list do
  not help, however many CAs the two trust.\<close>

lemma psk_shared_iff_same_ca_key:
  assumes "NewIdentity E order key cert p = Ok i" and "map_order p order"
    and "NewIdentity E order' key' cert' p = Ok j" and "map_order p order'"
  shows "set (PresharedKeys i) \<inter> set (PresharedKeys j) \<noteq> {} \<longleftrightarrow>
    (\<exists>a b. caMap p (d_Issuer (Details cert)) = Some a \<and> caMap p (d_Issuer (Details cert')) = Some b
       \<and> hkdf_sha256 E (Signature a) 32 = hkdf_sha256 E (Signature b) 32)"
  using NewIdentity_Ok [OF assms(1,2)] NewIdentity_Ok [OF assms(3,4)]
  by (auto simp: pskGen_def PresharedKeys_def)

end
