(* ===== verification/CertTypes.thy ===== *)
theory CertTypes
  imports NodeIdentity
begin

text \<open>
  The well-formedness of certificates: \<open>UnmarshalAetherportCertificate\<close> is the only way a
  certificate enters a node, and what it guarantees holds of every certificate a node keeps.
\<close>

definition cert_wf :: "extern \<Rightarrow> certificate \<Rightarrow> bool" where
  "cert_wf E ac \<longleftrightarrow>
     x25519KeyLen \<le> length (d_PublicKey (Details ac)) \<and> idna_lookup E (d_Name (Details ac))
     \<and> nano_range (d_NotBefore (Details ac)) \<and> nano_range (d_NotAfter (Details ac))
     \<and> canonical_hex (d_Issuer (Details ac))"

text \<open>In a pool the key has exactly the length of an Ed25519 key.\<close>

definition pool_wf :: "extern \<Rightarrow> capool \<Rightarrow> bool" where
  "pool_wf E p \<longleftrightarrow>
     (\<forall>fp c. caMap p fp = Some c \<longrightarrow>
        cert_wf E c \<and> length (d_PublicKey (Details c)) = ed25519_PublicKeySize)"

definition node_wf :: "extern \<Rightarrow> identity \<Rightarrow> bool" where
  "node_wf E i \<longleftrightarrow>
     pool_wf E (i_caPool i) \<and> (\<forall>c. i_peerCert i = Some c \<longrightarrow> cert_wf E c)"

lemma Unmarshal_wf: "UnmarshalAetherportCertificate E b = Ok ac \<Longrightarrow> cert_wf E ac"
  unfolding cert_wf_def by (rule Unmarshal_Ok)

lemma FromPEM_wf: "UnmarshalAetherportCertificateFromPEM E b = (Ok ac, r) \<Longrightarrow> cert_wf E ac"
  by (auto simp: UnmarshalAetherportCertificateFromPEM_def map_err_eq_Ok Unmarshal_wf
      split: prod.splits option.splits if_splits)

lemma pool_wf_NewCAPool: "pool_wf E NewCAPool"
  by (simp add: pool_wf_def NewCAPool_def)

lemma AddCA_wf:
  "AddCACertificateFromPEM E now p b = (p', e, r) \<Longrightarrow> pool_wf E p \<Longrightarrow> pool_wf E p'"
  by (auto simp: AddCACertificateFromPEM_def pool_wf_def Let_def CheckSignature_True_length
      dest: FromPEM_wf split: prod.splits res.splits option.splits if_splits)

lemma load_pool_wf:
  "load_pool E clock n p ex b = PoolRet (Some p') e \<Longrightarrow> pool_wf E p \<Longrightarrow> pool_wf E p'"
proof (induction E clock n p ex b rule: load_pool.induct)
  case (1 E clock n p ex b)
  obtain q f r where a: "AddCACertificateFromPEM E (clock n) p b = (q, f, r)"
    by (metis prod_cases3)
  have q: "pool_wf E q" by (rule AddCA_wf [OF a "1.prems"(2)])
  show ?case
    using "1.prems"(1) "1.IH"(1) [OF a [symmetric] refl] "1.IH"(2) [OF a [symmetric] refl] a q
    by (auto simp: load_pool.simps [of E clock n p ex b] split: res.splits if_splits)
qed

lemma ValidatePeer_wf:
  "ValidatePeer E now i payload = (i', r) \<Longrightarrow> node_wf E i \<Longrightarrow> node_wf E i'"
  by (auto simp: ValidatePeer_def node_wf_def Unmarshal_wf split: res.splits if_splits)

lemma cert_wf_wire:
  assumes "cert_wf E c"
  shows "time_Unix0 (UnixNano (d_NotBefore (Details c))) = d_NotBefore (Details c)
    \<and> time_Unix0 (UnixNano (d_NotAfter (Details c))) = d_NotAfter (Details c)
    \<and> hex_decode (d_Issuer (Details c)) \<noteq> None"
  using assms canonical_hex_decode [of "d_Issuer (Details c)"]
  by (auto simp: cert_wf_def time_Unix0_UnixNano)

text \<open>C23. Every certificate a node holds is well formed: the CAs of a pool loaded from any bytes and
  the peer a node has accepted have a name IDNA allows, a key of at least 32 bytes, 32 exactly in
  the pool, dates that survive the 64 bits of the wire and an issuer that is hexadecimal.\<close>

theorem node_certificates_well_formed:
  assumes "NewCAPoolFromPEM E clock f = PoolRet (Some p) e"
    and "NewIdentity E order key cert p = Ok i"
    and "ValidatePeer E now i payload = (i', r)"
  shows "node_wf E i'
    \<and> (\<forall>c. i_peerCert i' = Some c \<longrightarrow>
          time_Unix0 (UnixNano (d_NotBefore (Details c))) = d_NotBefore (Details c)
          \<and> time_Unix0 (UnixNano (d_NotAfter (Details c))) = d_NotAfter (Details c)
          \<and> hex_decode (d_Issuer (Details c)) \<noteq> None)"
proof -
  have "pool_wf E p"
    using assms(1) load_pool_wf [OF _ pool_wf_NewCAPool] by (simp add: NewCAPoolFromPEM_def)
  with NewIdentity_fields [OF assms(2)] have "node_wf E i" by (simp add: node_wf_def)
  from ValidatePeer_wf [OF assms(3) this] cert_wf_wire show ?thesis by (auto simp: node_wf_def)
qed

theorem node_certificates_well_formed_witness:
  "\<exists>f p i i'. NewCAPoolFromPEM demo_env (\<lambda>_. 500) f = PoolRet (Some p) None
     \<and> NewIdentity demo_env [cert_fp demo_env demo_root] [] demo_node p = Ok i
     \<and> ValidatePeer demo_env 500 i (i_payload i) = (i', Ok ()) \<and> i_peerCert i' = Some demo_node
     \<and> node_wf demo_env i'"
proof -
  obtain f p i where p: "NewCAPoolFromPEM demo_env (\<lambda>_. 500) f = PoolRet (Some p) None"
    and i: "NewIdentity demo_env [cert_fp demo_env demo_root] [] demo_node p = Ok i"
    and v: "ValidatePeer demo_env 500 i (i_payload i) = (i\<lparr>i_peerCert := Some demo_node\<rparr>, Ok ())"
    by (rule demo_accepted)
  from node_certificates_well_formed [OF p i v] p i v show ?thesis
    by (intro exI [of _ f] exI [of _ p] exI [of _ i] exI [of _ "i\<lparr>i_peerCert := Some demo_node\<rparr>"]) simp
qed

end
