(* ===== verification/CliCert.thy ===== *)
theory CliCert
  imports CAPool
begin

text \<open>
  \<open>cli-certificate.go\<close>: the three certificate commands as functions on a file system, a map
  from paths to files with a mode and contents. Reading a missing file and creating an existing
  one fail; other faults of the disk are not modelled. The clock readings and the generated key
  pairs are arguments; a key generator that fails is \<open>None\<close>. Every result carries the file system
  as it is left, errors included.
\<close>

record disk_file =
  f_mode :: nat
  f_data :: bytes

type_synonym fs = "bytes \<rightharpoonup> disk_file"

text \<open>The modes 0600 and 0644.\<close>

definition mode_private :: nat where "mode_private = 6 * 64"
definition mode_public :: nat where "mode_public = 6 * 64 + 4 * 8 + 4"

datatype cli_error =
    DefaultCA cli_error
  | GenerateKey | ReadCaKey | InvalidCaKey pem_error | ReadCaCert | InvalidCaCert pem_error
  | ReadCert | InvalidCert pem_error
  | SignFailed cert_error | CreateKeyFile | CreateCertFile | MarshalCert cert_error

text \<open>\<open>os.ReadFile\<close>, and \<open>os.OpenFile\<close> with \<open>O_WRONLY|O_CREATE|O_EXCL\<close> followed by \<open>Write\<close>.\<close>

definition read_file :: "fs \<Rightarrow> bytes \<Rightarrow> bytes option" where
  "read_file fs path = map_option f_data (fs path)"

definition create_file :: "fs \<Rightarrow> bytes \<Rightarrow> nat \<Rightarrow> fs option" where
  "create_file fs path mode =
     (case fs path of Some _ \<Rightarrow> None | None \<Rightarrow> Some (fs(path \<mapsto> \<lparr>f_mode = mode, f_data = []\<rparr>)))"

definition write_open :: "fs \<Rightarrow> bytes \<Rightarrow> bytes \<Rightarrow> fs" where
  "write_open fs path b =
     (case fs path of None \<Rightarrow> fs | Some f \<Rightarrow> fs(path \<mapsto> f\<lparr>f_data := f_data f @ b\<rparr>))"

text \<open>\<open>os.WriteFile\<close>: an existing file keeps its mode.\<close>

definition write_file :: "fs \<Rightarrow> bytes \<Rightarrow> bytes \<Rightarrow> nat \<Rightarrow> fs" where
  "write_file fs path b mode =
     fs(path \<mapsto> \<lparr>f_mode = (case fs path of None \<Rightarrow> mode | Some f \<Rightarrow> f_mode f), f_data = b\<rparr>)"

section \<open>generate-ca\<close>

record generate_ca =
  ca_CakeyFile :: bytes
  ca_CacertFile :: bytes
  ca_Name :: bytes
  ca_Labels :: "label list"
  ca_Duration :: duration

text \<open>
  The two files of a command: the key file is created and written first, then the certificate
  file is created, and only then is the certificate marshalled.
\<close>

definition write_pair ::
    "extern \<Rightarrow> fs \<Rightarrow> bytes \<Rightarrow> bytes \<Rightarrow> bytes \<Rightarrow> certificate \<Rightarrow> fs \<times> (cli_error, unit) res" where
  "write_pair E fs key_path key_pem cert_path cert =
     (case create_file fs key_path mode_private of
        None \<Rightarrow> (fs, Err CreateKeyFile)
      | Some fs1 \<Rightarrow>
          let fs2 = write_open fs1 key_path key_pem in
          (case create_file fs2 cert_path mode_public of
             None \<Rightarrow> (fs2, Err CreateCertFile)
           | Some fs3 \<Rightarrow>
               (case MarshalAetherportCertificateToPEM E cert of
                  Err e \<Rightarrow> (fs3, Err (MarshalCert e))
                | Panic \<Rightarrow> (fs3, Panic)
                | Ok b \<Rightarrow> (write_open fs3 cert_path b, Ok ()))))"

definition GenerateCA_Run ::
    "extern \<Rightarrow> (bytes \<times> bytes) option \<Rightarrow> time \<Rightarrow> generate_ca \<Rightarrow> fs \<Rightarrow> fs \<times> (cli_error, unit) res"
  where
  "GenerateCA_Run E keypair now c fs =
     (case keypair of
        None \<Rightarrow> (fs, Err GenerateKey)
      | Some (pub, key) \<Rightarrow>
          let cert = \<lparr>Details = \<lparr>d_Name = ca_Name c, d_Labels = ca_Labels c, d_NotBefore = now,
                                d_NotAfter = time_Add now (ca_Duration c), d_PublicKey = pub,
                                d_IsCA = True, d_Issuer = []\<rparr>,
                      Signature = []\<rparr>
          in case Sign E key None cert of
               (cert', Err e) \<Rightarrow> (fs, Err (SignFailed e))
             | (cert', Panic) \<Rightarrow> (fs, Panic)
             | (cert', Ok _) \<Rightarrow>
                 write_pair E fs (ca_CakeyFile c) (MarshalEd25519PrivateKey key)
                   (ca_CacertFile c) cert')"

section \<open>generate\<close>

record generate_cert =
  gen_KeyFile :: bytes
  gen_CertFile :: bytes
  gen_CaKeyFile :: bytes
  gen_CaCertFile :: bytes
  gen_Name :: bytes
  gen_Labels :: "label list"
  gen_Duration :: duration

definition default_ca_name :: bytes where "default_ca_name = ''aetherport.ca''"

definition default_ca :: "generate_cert \<Rightarrow> generate_ca" where
  "default_ca c =
     \<lparr>ca_CakeyFile = gen_CaKeyFile c, ca_CacertFile = gen_CaCertFile c,
      ca_Name = default_ca_name, ca_Labels = [],
      ca_Duration = (if gen_Duration c = 0 then 8760 * time_Hour else 0)\<rparr>"

text \<open>
  The part of \<open>Run\<close> after the CA files are known to exist. \<open>node_key\<close> is the X25519 pair (private,
  public) from the Noise library.
\<close>

definition generate_signed ::
    "extern \<Rightarrow> (bytes \<times> bytes) option \<Rightarrow> time \<Rightarrow> generate_cert \<Rightarrow> fs
     \<Rightarrow> fs \<times> (cli_error, unit) res" where
  "generate_signed E node_key now c fs =
     (case read_file fs (gen_CaKeyFile c) of
        None \<Rightarrow> (fs, Err ReadCaKey)
      | Some kb \<Rightarrow>
      (case fst (UnmarshalEd25519PrivateKey kb) of
         Err e \<Rightarrow> (fs, Err (InvalidCaKey e))
       | Panic \<Rightarrow> (fs, Panic)
       | Ok caKey \<Rightarrow>
      (case read_file fs (gen_CaCertFile c) of
         None \<Rightarrow> (fs, Err ReadCaCert)
       | Some cb \<Rightarrow>
      (case fst (UnmarshalAetherportCertificateFromPEM E cb) of
         Err e \<Rightarrow> (fs, Err (InvalidCaCert e))
       | Panic \<Rightarrow> (fs, Panic)
       | Ok caCert \<Rightarrow>
      (case node_key of
         None \<Rightarrow> (fs, Err GenerateKey)
       | Some (private, public) \<Rightarrow>
          let dur = (if gen_Duration c = 0
                     then time_Sub (d_NotAfter (Details caCert)) now - time_Second
                     else gen_Duration c);
              cert = \<lparr>Details = \<lparr>d_Name = gen_Name c, d_Labels = gen_Labels c, d_NotBefore = now,
                                d_NotAfter = time_Add now dur, d_PublicKey = public,
                                d_IsCA = True, d_Issuer = []\<rparr>,
                      Signature = []\<rparr>
          in case Sign E caKey (Some caCert) cert of
               (cert', Err e) \<Rightarrow> (fs, Err (SignFailed e))
             | (cert', Panic) \<Rightarrow> (fs, Panic)
             | (cert', Ok _) \<Rightarrow>
                 write_pair E fs
                   (if gen_KeyFile c = [] then gen_Name c @ ''-key.pem'' else gen_KeyFile c)
                   (MarshalX25519PrivateKey private)
                   (if gen_CertFile c = [] then gen_Name c @ ''-cert.pem'' else gen_CertFile c)
                   cert')))))"

definition Generate_Run ::
    "extern \<Rightarrow> (bytes \<times> bytes) option \<Rightarrow> time \<Rightarrow> (bytes \<times> bytes) option \<Rightarrow> time \<Rightarrow> generate_cert
     \<Rightarrow> fs \<Rightarrow> fs \<times> (cli_error, unit) res" where
  "Generate_Run E ca_key ca_now node_key now c fs =
     (if fs (gen_CaKeyFile c) = None \<and> fs (gen_CaCertFile c) = None then
        (case GenerateCA_Run E ca_key ca_now (default_ca c) fs of
           (fs', Err e) \<Rightarrow> (fs', Err (DefaultCA e))
         | (fs', Panic) \<Rightarrow> (fs', Panic)
         | (fs', Ok _) \<Rightarrow> generate_signed E node_key now c fs')
      else generate_signed E node_key now c fs)"

section \<open>re-sign\<close>

record resign =
  rs_CertFile :: bytes
  rs_CaKeyFile :: bytes
  rs_CaCertFile :: bytes
  rs_Name :: "bytes option"
  rs_Labels :: "label list"
  rs_Duration :: "duration option"

text \<open>The new details of a certificate under a re-sign command.\<close>

definition resign_details :: "resign \<Rightarrow> time \<Rightarrow> certificate \<Rightarrow> certificate" where
  "resign_details c now cert =
     (let d = Details cert;
          dur = (case rs_Duration c of
                   None \<Rightarrow> time_Sub (d_NotAfter d) (d_NotBefore d)
                 | Some dur \<Rightarrow> dur)
      in cert\<lparr>Details := d\<lparr>d_Name := (case rs_Name c of None \<Rightarrow> d_Name d | Some n \<Rightarrow> n),
                            d_NotBefore := now, d_NotAfter := time_Add now dur,
                            d_Labels := (if 0 < length (rs_Labels c) then rs_Labels c
                                         else d_Labels d)\<rparr>\<rparr>)"

definition ReSign_Run ::
    "extern \<Rightarrow> time \<Rightarrow> resign \<Rightarrow> fs \<Rightarrow> fs \<times> (cli_error, unit) res" where
  "ReSign_Run E now c fs =
     (case read_file fs (rs_CaKeyFile c) of
        None \<Rightarrow> (fs, Err ReadCaKey)
      | Some kb \<Rightarrow>
      (case fst (UnmarshalEd25519PrivateKey kb) of
         Err e \<Rightarrow> (fs, Err (InvalidCaKey e))
       | Panic \<Rightarrow> (fs, Panic)
       | Ok caKey \<Rightarrow>
      (case read_file fs (rs_CaCertFile c) of
         None \<Rightarrow> (fs, Err ReadCaCert)
       | Some cb \<Rightarrow>
      (case fst (UnmarshalAetherportCertificateFromPEM E cb) of
         Err e \<Rightarrow> (fs, Err (InvalidCaCert e))
       | Panic \<Rightarrow> (fs, Panic)
       | Ok caCert \<Rightarrow>
      (case read_file fs (rs_CertFile c) of
         None \<Rightarrow> (fs, Err ReadCert)
       | Some b \<Rightarrow>
      (case fst (UnmarshalAetherportCertificateFromPEM E b) of
         Err e \<Rightarrow> (fs, Err (InvalidCert e))
       | Panic \<Rightarrow> (fs, Panic)
       | Ok cert \<Rightarrow>
      (case Sign E caKey (Some caCert) (resign_details c now cert) of
         (cert', Err e) \<Rightarrow> (fs, Err (SignFailed e))
       | (cert', Panic) \<Rightarrow> (fs, Panic)
       | (cert', Ok _) \<Rightarrow>
          (case MarshalAetherportCertificateToPEM E cert' of
             Err e \<Rightarrow> (fs, Err (MarshalCert e))
           | Panic \<Rightarrow> (fs, Panic)
           | Ok pem \<Rightarrow> (write_file fs (rs_CertFile c) pem mode_public, Ok ())))))))))"

section \<open>Lemmas\<close>

lemma read_file_mono: "fs \<subseteq>\<^sub>m fs' \<Longrightarrow> read_file fs path = Some b \<Longrightarrow> read_file fs' path = Some b"
  by (auto simp: read_file_def map_le_def) (metis domI)

lemma create_write:
  "create_file fs path m = Some fs1 \<Longrightarrow>
     fs path = None \<and> write_open fs1 path b = fs(path \<mapsto> \<lparr>f_mode = m, f_data = b\<rparr>)"
  by (auto simp: create_file_def write_open_def split: option.splits)

lemma write_pair_Ok:
  "write_pair E fs kp kpem cp cert = (fs', Ok ()) \<longleftrightarrow>
     fs kp = None \<and> fs cp = None \<and> kp \<noteq> cp
     \<and> (\<exists>b. MarshalAetherportCertificateToPEM E cert = Ok b
          \<and> fs' = fs(kp \<mapsto> \<lparr>f_mode = mode_private, f_data = kpem\<rparr>,
                     cp \<mapsto> \<lparr>f_mode = mode_public, f_data = b\<rparr>))"
  by (auto simp: write_pair_def create_file_def write_open_def Let_def
      split: option.splits res.splits if_splits)

text \<open>No command of the two touches a file that exists, however it ends.\<close>

lemma write_pair_extends: "write_pair E fs kp kpem cp cert = (fs', e) \<Longrightarrow> fs \<subseteq>\<^sub>m fs'"
  by (auto simp: write_pair_def create_file_def write_open_def Let_def map_le_def
      split: option.splits res.splits if_splits)

lemma GenerateCA_extends: "GenerateCA_Run E kp now c fs = (fs', e) \<Longrightarrow> fs \<subseteq>\<^sub>m fs'"
  by (auto simp: GenerateCA_Run_def Let_def split: option.splits prod.splits res.splits
      dest: write_pair_extends)

lemma generate_signed_extends: "generate_signed E nk now c fs = (fs', e) \<Longrightarrow> fs \<subseteq>\<^sub>m fs'"
  by (auto simp: generate_signed_def Let_def split: option.splits prod.splits res.splits
      dest: write_pair_extends)

lemma Generate_extends:
  assumes "Generate_Run E ck cnow nk now c fs = (fs', e)"
  shows "fs \<subseteq>\<^sub>m fs'"
  using assms
  by (auto simp: Generate_Run_def split: prod.splits res.splits if_splits
      dest: GenerateCA_extends generate_signed_extends map_le_trans)

text \<open>The certificate templates of the two commands.\<close>

definition ca_template :: "generate_ca \<Rightarrow> bytes \<Rightarrow> time \<Rightarrow> certificate" where
  "ca_template c pub now =
     \<lparr>Details = \<lparr>d_Name = ca_Name c, d_Labels = ca_Labels c, d_NotBefore = now,
                 d_NotAfter = time_Add now (ca_Duration c), d_PublicKey = pub,
                 d_IsCA = True, d_Issuer = []\<rparr>,
      Signature = []\<rparr>"

definition node_template :: "generate_cert \<Rightarrow> certificate \<Rightarrow> bytes \<Rightarrow> time \<Rightarrow> certificate" where
  "node_template c caCert public now =
     \<lparr>Details = \<lparr>d_Name = gen_Name c, d_Labels = gen_Labels c, d_NotBefore = now,
                 d_NotAfter = time_Add now
                    (if gen_Duration c = 0
                     then time_Sub (d_NotAfter (Details caCert)) now - time_Second
                     else gen_Duration c),
                 d_PublicKey = public, d_IsCA = True, d_Issuer = []\<rparr>,
      Signature = []\<rparr>"

definition key_path :: "generate_cert \<Rightarrow> bytes" where
  "key_path c = (if gen_KeyFile c = [] then gen_Name c @ ''-key.pem'' else gen_KeyFile c)"

definition cert_path :: "generate_cert \<Rightarrow> bytes" where
  "cert_path c = (if gen_CertFile c = [] then gen_Name c @ ''-cert.pem'' else gen_CertFile c)"

lemma GenerateCA_Ok:
  "GenerateCA_Run E kp now c fs = (fs', Ok ()) \<longleftrightarrow>
     (\<exists>pub key cert. kp = Some (pub, key) \<and> Sign E key None (ca_template c pub now) = (cert, Ok ())
        \<and> write_pair E fs (ca_CakeyFile c) (MarshalEd25519PrivateKey key) (ca_CacertFile c) cert
            = (fs', Ok ()))"
  by (auto simp: GenerateCA_Run_def ca_template_def Let_def split: option.splits prod.splits res.splits)

lemma generate_signed_Ok:
  "generate_signed E nk now c fs = (fs', Ok ()) \<longleftrightarrow>
     (\<exists>kb caKey cb caCert private public cert.
        read_file fs (gen_CaKeyFile c) = Some kb \<and> fst (UnmarshalEd25519PrivateKey kb) = Ok caKey
        \<and> read_file fs (gen_CaCertFile c) = Some cb
        \<and> fst (UnmarshalAetherportCertificateFromPEM E cb) = Ok caCert
        \<and> nk = Some (private, public)
        \<and> Sign E caKey (Some caCert) (node_template c caCert public now) = (cert, Ok ())
        \<and> write_pair E fs (key_path c) (MarshalX25519PrivateKey private) (cert_path c) cert
            = (fs', Ok ()))"
  by (auto simp: generate_signed_def node_template_def key_path_def cert_path_def Let_def
      split: option.splits prod.splits res.splits)

text \<open>A certificate without labels that a command wrote to its file reads back unchanged.\<close>

lemma pem_file_roundtrip:
  assumes "proto_laws E" and "MarshalAetherportCertificateToPEM E ac = Ok f"
    and "d_Labels (Details ac) = []" and "canonical_hex (d_Issuer (Details ac))"
    and "nano_range (d_NotBefore (Details ac))" and "nano_range (d_NotAfter (Details ac))"
    and "x25519KeyLen \<le> length (d_PublicKey (Details ac))"
  shows "UnmarshalAetherportCertificateFromPEM E (f @ x) = (Ok ac, x)"
proof -
  obtain b where b: "Marshal E ac = Ok b"
    using assms(2) by (auto simp: MarshalAetherportCertificateToPEM_def rbind_eq_Ok)
  obtain i where i: "hex_decode (d_Issuer (Details ac)) = Some i" "hex_encode i = d_Issuer (Details ac)"
    using canonical_hex_decode [OF assms(4)] by blast
  have "UnmarshalAetherportCertificate E b = Ok ac"
    using assms by (cases ac) (simp add: Unmarshal_Marshal [OF assms(1) b i(1)] i(2) time_Unix0_UnixNano)
  then show ?thesis by (simp add: CertificateFromPEM_ToPEM [OF assms(2) b])
qed

text \<open>With labels, a trip keeps everything but the labels.\<close>

lemma pem_file_details:
  assumes "proto_laws E" and "MarshalAetherportCertificateToPEM E ac = Ok f"
    and "UnmarshalAetherportCertificateFromPEM E (f @ x) = (Ok ac', y)"
    and "canonical_hex (d_Issuer (Details ac))"
    and "nano_range (d_NotBefore (Details ac))" and "nano_range (d_NotAfter (Details ac))"
  shows "\<exists>ls. ac' = ac\<lparr>Details := (Details ac)\<lparr>d_Labels := ls\<rparr>\<rparr> \<and> y = x"
proof -
  obtain b where b: "Marshal E ac = Ok b"
    using assms(2) by (auto simp: MarshalAetherportCertificateToPEM_def rbind_eq_Ok)
  obtain i where i: "hex_decode (d_Issuer (Details ac)) = Some i" "hex_encode i = d_Issuer (Details ac)"
    using canonical_hex_decode [OF assms(4)] by blast
  have "UnmarshalAetherportCertificate E b = Ok ac'" "y = x"
    using assms(3) by (auto simp: CertificateFromPEM_ToPEM [OF assms(2) b])
  then show ?thesis
    using assms(5,6) i(2) unfolding Unmarshal_Marshal [OF assms(1) b i(1)]
    by (cases ac) (auto simp: rbind_eq_Ok time_Unix0_id split: if_splits)
qed

text \<open>A pool loaded from a file of one block holds at most that block's certificate.\<close>

lemma single_block_pool:
  assumes "UnmarshalAetherportCertificateFromPEM E f = (Ok c, [])"
    and "NewCAPoolFromPEM E clock f = PoolRet (Some p) e" and "caMap p fp = Some s"
  shows "s = c"
  using assms
  by (auto simp: NewCAPoolFromPEM_def load_pool.simps AddCACertificateFromPEM_def NewCAPool_def Let_def
      split: if_splits option.splits res.splits)

end
