(* ===== verification/CertCommands.thy ===== *)
theory CertCommands
  imports CliCert ExternModel
begin

text \<open>
  The theorems on the certificate commands: what they leave on the disk, that the default
  \<open>generate\<close> yields a pair of CA and node certificate that verifies, and that \<open>generate\<close> with an
  explicit duration and no CA yields one that never does.
\<close>

text \<open>C35. However \<open>generate\<close> and \<open>generate-ca\<close> end, every file that was there is still there with
  its mode and contents.\<close>

theorem commands_never_overwrite:
  "fs \<subseteq>\<^sub>m fst (GenerateCA_Run E ca_key ca_now g fs)
   \<and> fs \<subseteq>\<^sub>m fst (Generate_Run E ca_key ca_now node_key now c fs)"
  using GenerateCA_extends [of E ca_key ca_now g fs] Generate_extends [of E ca_key ca_now node_key now c fs]
  by (metis prod.collapse)

section \<open>The two certificates of a run without a CA\<close>

text \<open>What a successful run without CA files did.\<close>

lemma Generate_fresh_Ok:
  assumes "Generate_Run E ca_key ca_now node_key now c fs = (fs', Ok ())"
    and "fs (gen_CaKeyFile c) = None" and "fs (gen_CaCertFile c) = None"
  shows "\<exists>pub key caC f1 fs1. ca_key = Some (pub, key)
           \<and> Sign E key None (ca_template (default_ca c) pub ca_now) = (caC, Ok ())
           \<and> MarshalAetherportCertificateToPEM E caC = Ok f1
           \<and> read_file fs1 (gen_CaCertFile c) = Some f1
           \<and> read_file fs' (gen_CaCertFile c) = Some f1
           \<and> generate_signed E node_key now c fs1 = (fs', Ok ())"
proof -
  obtain fs1 where ca: "GenerateCA_Run E ca_key ca_now (default_ca c) fs = (fs1, Ok ())"
    and node: "generate_signed E node_key now c fs1 = (fs', Ok ())"
    using assms by (auto simp: Generate_Run_def split: prod.splits res.splits)
  from ca obtain pub key caC f1 where k: "ca_key = Some (pub, key)"
    "Sign E key None (ca_template (default_ca c) pub ca_now) = (caC, Ok ())"
    "MarshalAetherportCertificateToPEM E caC = Ok f1"
    "read_file fs1 (gen_CaCertFile c) = Some f1"
    by (auto simp: GenerateCA_Ok write_pair_Ok default_ca_def read_file_def)
  have "fs1 \<subseteq>\<^sub>m fs'" using node by (rule generate_signed_extends)
  then have "read_file fs' (gen_CaCertFile c) = Some f1"
    using k(4) by (rule read_file_mono)
  with k node show ?thesis by blast
qed

text \<open>The file of a node certificate and what it reads back as.\<close>

lemma generate_signed_cert:
  assumes "proto_laws E" and "generate_signed E node_key now c fs = (fs', Ok ())"
    and "nano_range now"
    and "\<And>caCert. nano_range (d_NotAfter (Details (node_template c caCert [] now)))"
    and "read_file fs' (cert_path c) = Some nf"
    and "UnmarshalAetherportCertificateFromPEM E nf = (Ok cert, r)"
  shows "\<exists>cb caCert. read_file fs (gen_CaCertFile c) = Some cb
           \<and> fst (UnmarshalAetherportCertificateFromPEM E cb) = Ok caCert
           \<and> d_IsCA (Details cert) \<and> d_NotBefore (Details cert) = now
           \<and> d_NotAfter (Details cert) = d_NotAfter (Details (node_template c caCert [] now))
           \<and> Sha256Sum E caCert = Ok (d_Issuer (Details cert))"
proof -
  obtain cb caKey caCert sk pk cert0 where o:
    "read_file fs (gen_CaCertFile c) = Some cb"
    "fst (UnmarshalAetherportCertificateFromPEM E cb) = Ok caCert"
    "Sign E caKey (Some caCert) (node_template c caCert pk now) = (cert0, Ok ())"
    "write_pair E fs (key_path c) (MarshalX25519PrivateKey sk) (cert_path c) cert0 = (fs', Ok ())"
    using assms(2) by (auto simp: generate_signed_Ok)
  obtain i s where i: "Sha256Sum E caCert = Ok i" and c0: "cert0 = (node_template c caCert pk now)
      \<lparr>Details := (Details (node_template c caCert pk now))\<lparr>d_Issuer := i\<rparr>, Signature := s\<rparr>"
    using Sign_details [OF o(3)] by auto
  have nf: "MarshalAetherportCertificateToPEM E cert0 = Ok nf"
    using o(4) assms(5) by (auto simp: write_pair_Ok read_file_def)
  have "nano_range (d_NotAfter (Details cert0))" "nano_range (d_NotBefore (Details cert0))"
    using assms(3) assms(4) [of caCert] by (simp_all add: c0 node_template_def)
  then obtain ls where "cert = cert0\<lparr>Details := (Details cert0)\<lparr>d_Labels := ls\<rparr>\<rparr>"
    using pem_file_details [OF assms(1) nf, of "[]" cert r] assms(6) Sha256Sum_hex [OF i]
    by (auto simp: c0)
  with o(1,2) i show ?thesis by (simp add: c0 node_template_def)
qed

section \<open>Runs that succeed\<close>

text \<open>Names whose certificates without labels marshal: valid for IDNA, and accepted by the
  protobuf runtime, which refuses only text that is not UTF-8.\<close>

definition cert_marshals :: "extern \<Rightarrow> bytes \<Rightarrow> bool" where
  "cert_marshals E n \<longleftrightarrow>
     idna_lookup E n
     \<and> (\<forall>d. r_Name d = n \<longrightarrow> r_Labels d = [] \<longrightarrow>
          proto_marshal_details E d \<noteq> None
          \<and> (\<forall>s. proto_marshal_cert E \<lparr>r_Details = Some d, r_Signature = s\<rparr> \<noteq> None))"

lemma marshals_ToPEM:
  assumes "cert_marshals E (d_Name (Details ac))" and "d_Labels (Details ac) = []"
    and "canonical_hex (d_Issuer (Details ac))"
  shows "\<exists>b f. Marshal E ac = Ok b \<and> MarshalAetherportCertificateToPEM E ac = Ok f"
proof -
  obtain i where "hex_decode (d_Issuer (Details ac)) = Some i"
    using canonical_hex_decode [OF assms(3)] by blast
  then obtain d where d: "getDetailsRaw E ac = Ok d" "r_Name d = d_Name (Details ac)" "r_Labels d = []"
    using assms(1,2) by (auto simp: getDetailsRaw_Ok cert_marshals_def)
  then have "proto_marshal_cert E \<lparr>r_Details = Some d, r_Signature = Signature ac\<rparr> \<noteq> None"
    using assms(1) by (auto simp: cert_marshals_def)
  with d(1) show ?thesis
    by (auto simp: Marshal_Ok MarshalAetherportCertificateToPEM_def rbind_eq_Ok)
qed

lemma marshals_Sign:
  assumes "cert_marshals E (d_Name (Details ac))" and "d_Labels (Details ac) = []"
    and "ed25519_pair E key" and "case cert of None \<Rightarrow> i = [] | Some c \<Rightarrow> Sha256Sum E c = Ok i"
    and "d_Issuer (Details ac) = []"
  shows "\<exists>s. Sign E key cert ac
             = (ac\<lparr>Details := (Details ac)\<lparr>d_Issuer := i\<rparr>, Signature := s\<rparr>, Ok ())
           \<and> CheckSignature E (ac\<lparr>Details := (Details ac)\<lparr>d_Issuer := i\<rparr>, Signature := s\<rparr>)
               (ed25519_Public key) = Some True"
proof -
  let ?ac = "set_issuer ac i"
  have len: "length key = ed25519_PrivateKeySize" using assms(3) by (simp add: ed25519_pair_def)
  have "canonical_hex i" using assms(4) Sha256Sum_hex by (auto split: option.splits)
  then obtain j where "hex_decode i = Some j" using canonical_hex_decode by blast
  then obtain d where d: "getDetailsRaw E ?ac = Ok d" "r_Name d = d_Name (Details ac)" "r_Labels d = []"
    using assms(1,2) by (auto simp: getDetailsRaw_Ok cert_marshals_def set_issuer_def)
  then obtain b where b: "details_bytes E ?ac = Ok b"
    using assms(1) by (force simp: details_bytes_Ok cert_marshals_def)
  have ac: "set_issuer ac [] = ac" using assms(5) by (simp add: set_issuer_def)
  have "Sign E key cert ac = (?ac\<lparr>Signature := ed25519_sign E key b\<rparr>, Ok ())"
    using assms(4) b len ac by (auto simp: Sign_def sign_details_def split: option.splits)
  moreover have "CheckSignature E (?ac\<lparr>Signature := ed25519_sign E key b\<rparr>) (ed25519_Public key)
      = Some True"
    using b assms(3) length_ed25519_Public [OF len]
    by (simp add: CheckSignature_def ed25519_pair_def)
  ultimately show ?thesis by (auto simp: set_issuer_def)
qed

text \<open>The default CA: its certificate file is the PEM form of a sound root.\<close>

lemma GenerateCA_succeeds:
  assumes "proto_laws E" and "ed25519_pair E key" and "cert_marshals E default_ca_name"
    and "fs (gen_CaKeyFile c) = None" and "fs (gen_CaCertFile c) = None"
    and "gen_CaKeyFile c \<noteq> gen_CaCertFile c"
    and "nano_range ca_now" and "nano_range (time_Add ca_now (ca_Duration (default_ca c)))"
  shows "\<exists>caC f. GenerateCA_Run E (Some (ed25519_Public key, key)) ca_now (default_ca c) fs
           = (fs(gen_CaKeyFile c \<mapsto> \<lparr>f_mode = mode_private, f_data = MarshalEd25519PrivateKey key\<rparr>,
                 gen_CaCertFile c \<mapsto> \<lparr>f_mode = mode_public, f_data = f\<rparr>), Ok ())
         \<and> root_pem E caC f
         \<and> UnmarshalAetherportCertificateFromPEM E f = (Ok caC, [])
         \<and> d_PublicKey (Details caC) = ed25519_Public key \<and> d_NotBefore (Details caC) = ca_now
         \<and> d_NotAfter (Details caC) = time_Add ca_now (ca_Duration (default_ca c))"
proof -
  let ?t = "ca_template (default_ca c) (ed25519_Public key) ca_now"
  have t: "d_Name (Details ?t) = default_ca_name" "d_Labels (Details ?t) = []"
    "d_Issuer (Details ?t) = []" "d_IsCA (Details ?t)"
    "d_PublicKey (Details ?t) = ed25519_Public key" "d_NotBefore (Details ?t) = ca_now"
    "d_NotAfter (Details ?t) = time_Add ca_now (ca_Duration (default_ca c))"
    by (simp_all add: ca_template_def default_ca_def)
  have len: "length key = ed25519_PrivateKeySize" using assms(2) by (simp add: ed25519_pair_def)
  obtain s where s: "Sign E key None ?t = (?t\<lparr>Details := (Details ?t)\<lparr>d_Issuer := []\<rparr>, Signature := s\<rparr>, Ok ())"
    and ck: "CheckSignature E (?t\<lparr>Details := (Details ?t)\<lparr>d_Issuer := []\<rparr>, Signature := s\<rparr>)
               (ed25519_Public key) = Some True"
    using marshals_Sign [where E = E and ac = ?t and key = key and cert = None and i = "[]"] assms(2,3) t by auto
  define caC where "caC = ?t\<lparr>Details := (Details ?t)\<lparr>d_Issuer := []\<rparr>, Signature := s\<rparr>"
  have d: "d_Name (Details caC) = default_ca_name" "d_Labels (Details caC) = []"
    "d_Issuer (Details caC) = []" "d_IsCA (Details caC)"
    "d_PublicKey (Details caC) = ed25519_Public key" "d_NotBefore (Details caC) = ca_now"
    "d_NotAfter (Details caC) = time_Add ca_now (ca_Duration (default_ca c))"
    using t by (simp_all add: caC_def)
  obtain b f where b: "Marshal E caC = Ok b" and f: "MarshalAetherportCertificateToPEM E caC = Ok f"
    using marshals_ToPEM [of E caC] d assms(3) by auto
  have u: "UnmarshalAetherportCertificateFromPEM E (f @ []) = (Ok caC, [])"
    using pem_file_roundtrip [OF assms(1) f, of "[]"] d assms(7,8) length_ed25519_Public [OF len]
    by (simp add: x25519KeyLen_def ed25519_PublicKeySize_def)
  then have "UnmarshalAetherportCertificate E b = Ok caC"
    using CertificateFromPEM_ToPEM [OF f b, of "[]"] by simp
  then have r: "root_pem E caC f"
    using f b ck d(4,5) by (auto simp: root_pem_def trusted_root_def Sha256Sum_def caC_def)
  have "write_pair E fs (gen_CaKeyFile c) (MarshalEd25519PrivateKey key) (gen_CaCertFile c) caC
      = (fs(gen_CaKeyFile c \<mapsto> \<lparr>f_mode = mode_private, f_data = MarshalEd25519PrivateKey key\<rparr>,
            gen_CaCertFile c \<mapsto> \<lparr>f_mode = mode_public, f_data = f\<rparr>), Ok ())"
    using f assms(4,5,6) by (auto simp: write_pair_Ok)
  then have "GenerateCA_Run E (Some (ed25519_Public key, key)) ca_now (default_ca c) fs
           = (fs(gen_CaKeyFile c \<mapsto> \<lparr>f_mode = mode_private, f_data = MarshalEd25519PrivateKey key\<rparr>,
                 gen_CaCertFile c \<mapsto> \<lparr>f_mode = mode_public, f_data = f\<rparr>), Ok ())"
    using s by (auto simp: GenerateCA_Ok caC_def default_ca_def)
  with r u d show ?thesis by auto
qed

text \<open>The node certificate, signed by a CA that is on the disk.\<close>

lemma generate_signed_succeeds:
  assumes "proto_laws E" and "ed25519_pair E key" and "cert_marshals E (gen_Name c)"
    and "gen_Labels c = []"
    and "read_file fs (gen_CaKeyFile c) = Some (MarshalEd25519PrivateKey key)"
    and "read_file fs (gen_CaCertFile c) = Some ca_file"
    and "UnmarshalAetherportCertificateFromPEM E ca_file = (Ok caC, [])"
    and "Sha256Sum E caC = Ok fp"
    and "fs (key_path c) = None" and "fs (cert_path c) = None" and "key_path c \<noteq> cert_path c"
    and "length pk = x25519KeyLen" and "nano_range now"
    and "nano_range (d_NotAfter (Details (node_template c caC pk now)))"
  shows "\<exists>fs' node_file cert.
           generate_signed E (Some (sk, pk)) now c fs = (fs', Ok ())
         \<and> read_file fs' (key_path c) = Some (MarshalX25519PrivateKey sk)
         \<and> read_file fs' (cert_path c) = Some node_file
         \<and> UnmarshalAetherportCertificateFromPEM E node_file = (Ok cert, [])
         \<and> d_Issuer (Details cert) = fp \<and> d_NotBefore (Details cert) = now
         \<and> d_NotAfter (Details cert) = d_NotAfter (Details (node_template c caC pk now))
         \<and> (\<exists>h. Sha256Sum E cert = Ok h)
         \<and> CheckSignature E cert (ed25519_Public key) = Some True
         \<and> d_Name (Details cert) = gen_Name c
         \<and> (\<exists>b. Marshal E cert = Ok b \<and> UnmarshalAetherportCertificate E b = Ok cert)
         \<and> (\<forall>path. path \<notin> {key_path c, cert_path c} \<longrightarrow> fs' path = fs path)"
proof -
  let ?t = "node_template c caC pk now"
  have len: "length key = ed25519_PrivateKeySize" using assms(2) by (simp add: ed25519_pair_def)
  have t: "d_Name (Details ?t) = gen_Name c" "d_Labels (Details ?t) = []"
    "d_Issuer (Details ?t) = []" "d_PublicKey (Details ?t) = pk" "d_NotBefore (Details ?t) = now"
    using assms(4) by (simp_all add: node_template_def)
  obtain s where s: "Sign E key (Some caC) ?t
      = (?t\<lparr>Details := (Details ?t)\<lparr>d_Issuer := fp\<rparr>, Signature := s\<rparr>, Ok ())"
    and ck: "CheckSignature E (?t\<lparr>Details := (Details ?t)\<lparr>d_Issuer := fp\<rparr>, Signature := s\<rparr>)
               (ed25519_Public key) = Some True"
    using marshals_Sign [where E = E and ac = ?t and key = key and cert = "Some caC" and i = fp]
      assms(2,3,8) t by auto
  define cert where "cert = ?t\<lparr>Details := (Details ?t)\<lparr>d_Issuer := fp\<rparr>, Signature := s\<rparr>"
  have d: "d_Name (Details cert) = gen_Name c" "d_Labels (Details cert) = []"
    "d_Issuer (Details cert) = fp" "d_PublicKey (Details cert) = pk"
    "d_NotBefore (Details cert) = now" "d_NotAfter (Details cert) = d_NotAfter (Details ?t)"
    using t by (simp_all add: cert_def)
  have hx: "canonical_hex fp" using assms(8) by (rule Sha256Sum_hex)
  obtain b f where b: "Marshal E cert = Ok b" and f: "MarshalAetherportCertificateToPEM E cert = Ok f"
    using marshals_ToPEM [of E cert] d assms(3) hx by auto
  have u: "UnmarshalAetherportCertificateFromPEM E (f @ []) = (Ok cert, [])"
    using pem_file_roundtrip [OF assms(1) f, of "[]"] d assms(12,13,14) hx by simp
  have k: "fst (UnmarshalEd25519PrivateKey (MarshalEd25519PrivateKey key)) = Ok key"
    using ed25519_private.load_save [OF len, of "[]"] by simp
  let ?fs' = "fs(key_path c \<mapsto> \<lparr>f_mode = mode_private, f_data = MarshalX25519PrivateKey sk\<rparr>,
                 cert_path c \<mapsto> \<lparr>f_mode = mode_public, f_data = f\<rparr>)"
  have "write_pair E fs (key_path c) (MarshalX25519PrivateKey sk) (cert_path c) cert = (?fs', Ok ())"
    using f assms(9,10,11) by (auto simp: write_pair_Ok)
  then have "generate_signed E (Some (sk, pk)) now c fs = (?fs', Ok ())"
    using assms(5,6,7) k s unfolding generate_signed_Ok cert_def by fastforce
  moreover have "read_file ?fs' (key_path c) = Some (MarshalX25519PrivateKey sk)"
    "read_file ?fs' (cert_path c) = Some f"
    using assms(11) by (simp_all add: read_file_def)
  moreover have "\<exists>h. Sha256Sum E cert = Ok h" using b by (simp add: Sha256Sum_def)
  moreover have "UnmarshalAetherportCertificate E b = Ok cert"
    using CertificateFromPEM_ToPEM [OF f b, of "[]"] u by simp
  ultimately show ?thesis using u ck d b unfolding cert_def [symmetric] by auto
qed

text \<open>The four paths of a run, and a disk without any of them.\<close>

definition fresh_disk :: "generate_cert \<Rightarrow> fs \<Rightarrow> bool" where
  "fresh_disk c fs \<longleftrightarrow>
     distinct [gen_CaKeyFile c, gen_CaCertFile c, key_path c, cert_path c]
     \<and> (\<forall>path\<in>{gen_CaKeyFile c, gen_CaCertFile c, key_path c, cert_path c}. fs path = None)"

lemma Generate_succeeds:
  assumes "proto_laws E" and "ed25519_pair E key"
    and "sha256_size E" and "cert_marshals E default_ca_name" and "cert_marshals E (gen_Name c)"
    and "gen_Labels c = []" and "fresh_disk c fs" and "length pk = x25519KeyLen"
    and "nano_range ca_now" and "nano_range now"
    and "nano_range (time_Add ca_now (ca_Duration (default_ca c)))"
    and "\<And>caC. d_NotAfter (Details caC) = time_Add ca_now (ca_Duration (default_ca c))
           \<Longrightarrow> nano_range (d_NotAfter (Details (node_template c caC pk now)))"
  shows "\<exists>fs' ca_file caC node_file cert.
           Generate_Run E (Some (ed25519_Public key, key)) ca_now (Some (sk, pk)) now c fs = (fs', Ok ())
         \<and> read_file fs' (gen_CaCertFile c) = Some ca_file
         \<and> root_pem E caC ca_file
         \<and> d_NotBefore (Details caC) = ca_now
         \<and> d_NotAfter (Details caC) = time_Add ca_now (ca_Duration (default_ca c))
         \<and> d_PublicKey (Details caC) = ed25519_Public key
         \<and> read_file fs' (key_path c) = Some (MarshalX25519PrivateKey sk)
         \<and> read_file fs' (cert_path c) = Some node_file
         \<and> UnmarshalAetherportCertificateFromPEM E node_file = (Ok cert, [])
         \<and> d_Issuer (Details cert) = cert_fp E caC \<and> d_Issuer (Details cert) \<noteq> [] \<and> d_NotBefore (Details cert) = now
         \<and> d_NotAfter (Details cert) = d_NotAfter (Details (node_template c caC pk now))
         \<and> (\<exists>h. Sha256Sum E cert = Ok h)
         \<and> CheckSignature E cert (ed25519_Public key) = Some True
         \<and> d_Name (Details cert) = gen_Name c
         \<and> (\<exists>b. Marshal E cert = Ok b \<and> UnmarshalAetherportCertificate E b = Ok cert)
         \<and> read_file fs' (gen_CaKeyFile c) = Some (MarshalEd25519PrivateKey key)
         \<and> UnmarshalAetherportCertificateFromPEM E ca_file = (Ok caC, [])
         \<and> (\<forall>path. path \<notin> {gen_CaKeyFile c, gen_CaCertFile c, key_path c, cert_path c} \<longrightarrow> fs' path = fs path)"
proof -
  let ?fs1 = "\<lambda>f. fs(gen_CaKeyFile c \<mapsto> \<lparr>f_mode = mode_private, f_data = MarshalEd25519PrivateKey key\<rparr>,
                 gen_CaCertFile c \<mapsto> \<lparr>f_mode = mode_public, f_data = f\<rparr>)"
  obtain caC f where g: "GenerateCA_Run E (Some (ed25519_Public key, key)) ca_now (default_ca c) fs
       = (?fs1 f, Ok ())"
    and r: "root_pem E caC f" and u: "UnmarshalAetherportCertificateFromPEM E f = (Ok caC, [])"
    and d: "d_PublicKey (Details caC) = ed25519_Public key" "d_NotBefore (Details caC) = ca_now"
      "d_NotAfter (Details caC) = time_Add ca_now (ca_Duration (default_ca c))"
    using GenerateCA_succeeds [OF assms(1,2,4), of fs c ca_now] assms(7,9,11)
    by (auto simp: fresh_disk_def)
  obtain fp where fp: "Sha256Sum E caC = Ok fp" "cert_fp E caC = fp"
    using r by (auto simp: root_pem_def trusted_root_def cert_fp_def)
  have ne: "fp \<noteq> []" using assms(3) fp(1) by (rule Sha256Sum_nonempty)
  obtain fs' node_file cert where n: "generate_signed E (Some (sk, pk)) now c (?fs1 f) = (fs', Ok ())"
    "read_file fs' (key_path c) = Some (MarshalX25519PrivateKey sk)"
    "read_file fs' (cert_path c) = Some node_file"
    "UnmarshalAetherportCertificateFromPEM E node_file = (Ok cert, [])"
    "d_Issuer (Details cert) = fp" "d_NotBefore (Details cert) = now"
    "d_NotAfter (Details cert) = d_NotAfter (Details (node_template c caC pk now))"
    "\<exists>h. Sha256Sum E cert = Ok h" "CheckSignature E cert (ed25519_Public key) = Some True"
    "d_Name (Details cert) = gen_Name c"
    "\<exists>b. Marshal E cert = Ok b \<and> UnmarshalAetherportCertificate E b = Ok cert"
    "\<forall>path. path \<notin> {key_path c, cert_path c} \<longrightarrow> fs' path = ?fs1 f path"
    using generate_signed_succeeds [OF assms(1,2,5,6) _ _ u fp(1) _ _ _ assms(8) _ assms(12) [OF d(3)],
        of "?fs1 f" sk] assms(7,10)
    by (auto simp: fresh_disk_def read_file_def)
  have "Generate_Run E (Some (ed25519_Public key, key)) ca_now (Some (sk, pk)) now c fs = (fs', Ok ())"
    using g n(1) assms(7) by (simp add: Generate_Run_def fresh_disk_def)
  moreover have "read_file fs' (gen_CaCertFile c) = Some f"
    using generate_signed_extends [OF n(1)] by (rule read_file_mono) (simp add: read_file_def)
  moreover have "read_file fs' (gen_CaKeyFile c) = Some (MarshalEd25519PrivateKey key)"
    using generate_signed_extends [OF n(1)]
    by (rule read_file_mono) (use assms(7) in \<open>simp add: read_file_def fresh_disk_def\<close>)
  moreover have "\<forall>path. path \<notin> {gen_CaKeyFile c, gen_CaCertFile c, key_path c, cert_path c} \<longrightarrow> fs' path = fs path"
    using n(12) by simp
  moreover have "d_Issuer (Details cert) = cert_fp E caC" "d_Issuer (Details cert) \<noteq> []"
    using fp(2) ne n(5) by simp_all
  moreover note r u d n(2-4) n(6-11)
  ultimately show ?thesis
    by - (rule exI [of _ fs'], rule exI [of _ f], rule exI [of _ caC], rule exI [of _ node_file],
        rule exI [of _ cert], intro conjI; assumption)
qed

lemma year_hours: "sint (8760 * time_Hour) = 31536000000000000"
  by (simp add: time_Hour_def time_Second_def)

text \<open>The default duration of a certificate ends one second before its CA.\<close>

lemma default_expiry:
  assumes "gen_Duration c = 0" and "d_NotAfter (Details caC) = ca_now + 31536000000000000"
    and "ca_now \<le> now" and "now + 1000000000 \<le> ca_now + 31536000000000000"
  shows "d_NotAfter (Details (node_template c caC pk now)) = ca_now + 31536000000000000 - 1000000000"
proof -
  let ?d = "ca_now + 31536000000000000 - now"
  have r: "min_duration \<le> ?d" "?d \<le> max_duration" "min_duration \<le> ?d - 1000000000"
    "?d - 1000000000 \<le> max_duration"
    using assms(3,4) by (simp_all add: min_duration_def max_duration_def)
  have "time_Sub (ca_now + 31536000000000000) now - time_Second = word_of_int (?d - 1000000000)"
    using r(1,2) by (simp add: time_Sub_def time_Second_def)
  then show ?thesis
    using assms(1,2) sint_word_of_int_range [OF r(3,4)] by (simp add: node_template_def time_Add_def)
qed

text \<open>With no CA on the disk and no duration given, \<open>generate\<close> succeeds, and the two
  certificates it leaves on the disk belong together: the CA file loads as a pool, and the node
  certificate verifies against it from its creation until a second before the CA expires.\<close>

lemma default_generate_verifies:
  assumes "proto_laws E" and "ed25519_pair E key" and "sha256_size E"
    and "cert_marshals E default_ca_name" and "cert_marshals E (gen_Name c)"
    and "gen_Labels c = []" and "gen_Duration c = 0" and "fresh_disk c fs"
    and "length pk = x25519KeyLen"
    and "nano_range ca_now" and "nano_range (ca_now + 31536000000000000)"
    and "ca_now \<le> now" and "now + 1000000000 \<le> ca_now + 31536000000000000"
  shows "\<exists>fs' ca_file p node_file cert.
           Generate_Run E (Some (ed25519_Public key, key)) ca_now (Some (sk, pk)) now c fs = (fs', Ok ())
         \<and> read_file fs' (gen_CaCertFile c) = Some ca_file
         \<and> NewCAPoolFromPEM E (\<lambda>_. now) ca_file = PoolRet (Some p) None
         \<and> read_file fs' (cert_path c) = Some node_file
         \<and> UnmarshalAetherportCertificateFromPEM E node_file = (Ok cert, [])
         \<and> (\<forall>t. now \<le> t \<longrightarrow> t \<le> ca_now + 31536000000000000 - 1000000000
              \<longrightarrow> Verify E cert t p = Ok True)"
proof -
  have y: "time_Add ca_now (ca_Duration (default_ca c)) = ca_now + 31536000000000000"
    using assms(7) by (simp add: default_ca_def time_Add_def year_hours)
  have nn: "nano_range now"
    using assms(10,11,12,13) by (simp add: nano_range_def)
  note na = default_expiry [OF assms(7) _ assms(12,13), of _ pk]
  have nr: "nano_range (d_NotAfter (Details (node_template c caC pk now)))"
    if "d_NotAfter (Details caC) = time_Add ca_now (ca_Duration (default_ca c))" for caC
    using na [of caC] that y assms(10,11,12,13) by (simp add: nano_range_def)
  have yr: "nano_range (time_Add ca_now (ca_Duration (default_ca c)))" using y assms(11) by simp
  obtain fs' ca_file caC node_file cert where g:
    "Generate_Run E (Some (ed25519_Public key, key)) ca_now (Some (sk, pk)) now c fs = (fs', Ok ())"
    "read_file fs' (gen_CaCertFile c) = Some ca_file" "root_pem E caC ca_file"
    "d_NotBefore (Details caC) = ca_now" "d_PublicKey (Details caC) = ed25519_Public key"
    "d_NotAfter (Details caC) = time_Add ca_now (ca_Duration (default_ca c))"
    "read_file fs' (cert_path c) = Some node_file"
    "UnmarshalAetherportCertificateFromPEM E node_file = (Ok cert, [])"
    "d_Issuer (Details cert) = cert_fp E caC" "d_Issuer (Details cert) \<noteq> []"
    "d_NotBefore (Details cert) = now"
    "d_NotAfter (Details cert) = d_NotAfter (Details (node_template c caC pk now))"
    "\<exists>h. Sha256Sum E cert = Ok h" "CheckSignature E cert (ed25519_Public key) = Some True"
    using Generate_succeeds [OF assms(1-6,8,9,10) nn yr nr, of sk] by blast
  have "list_all2 (root_pem E) [caC] [ca_file]" using g(3) by simp
  from load_pool_roots [OF this, of "\<lambda>_. now" 0 NewCAPool False]
  obtain p where p: "NewCAPoolFromPEM E (\<lambda>_. now) ca_file = PoolRet (Some p) None"
    "caMap p (cert_fp E caC) = Some caC" "certBlocklist p = {}"
    using g(4,6) y assms(12,13) by (auto simp: NewCAPoolFromPEM_def NewCAPool_def Expired_iff)
  have "Verify E cert t p = Ok True"
    if "now \<le> t" "t \<le> ca_now + 31536000000000000 - 1000000000" for t
    unfolding Verify_accepts
    using that p(2,3) g na [of caC] y assms(12) by auto
  with p(1) g show ?thesis by blast
qed

section \<open>A concrete command\<close>

definition demo_gen :: "duration \<Rightarrow> generate_cert" where
  "demo_gen d =
     \<lparr>gen_KeyFile = [], gen_CertFile = [], gen_CaKeyFile = ''cakey.pem'',
      gen_CaCertFile = ''cacert.pem'', gen_Name = ''node1'', gen_Labels = [], gen_Duration = d\<rparr>"

definition demo_public :: bytes where "demo_public = replicate 32 CHR 0x05"
definition demo_private :: bytes where "demo_private = replicate 32 CHR 0x06"

lemma demo_gen_simps [simp]:
  "gen_CaKeyFile (demo_gen d) = ''cakey.pem''" "gen_CaCertFile (demo_gen d) = ''cacert.pem''"
  "key_path (demo_gen d) = ''node1-key.pem''" "cert_path (demo_gen d) = ''node1-cert.pem''"
  "gen_Name (demo_gen d) = ''node1''" "gen_Labels (demo_gen d) = []" "gen_Duration (demo_gen d) = d"
  by (simp_all add: demo_gen_def key_path_def cert_path_def)

lemma demo_fresh: "fresh_disk (demo_gen d) Map.empty"
  by (simp add: fresh_disk_def)

lemma demo_marshals: "CHR 0x20 \<notin> set n \<Longrightarrow> cert_marshals demo_env n"
  by (simp add: cert_marshals_def demo_env_def)

lemma demo_sha: "sha256_size demo_env"
  by (auto simp: sha256_size_def demo_env_def min_def)

lemma demo_keys: "length demo_public = x25519KeyLen" "length demo_private = x25519KeyLen"
  by (simp_all add: demo_public_def demo_private_def x25519KeyLen_def)

text \<open>A run of the concrete command with an explicit duration of an hour.\<close>

lemma demo_hour_run:
  obtains fs' ca_file node_file cert p where
    "Generate_Run demo_env (Some (ed25519_Public demo_key, demo_key)) 0 (Some (demo_private, demo_public)) 1
       (demo_gen time_Hour) Map.empty = (fs', Ok ())"
    and "read_file fs' ''cacert.pem'' = Some ca_file" and "read_file fs' ''node1-cert.pem'' = Some node_file"
    and "NewCAPoolFromPEM demo_env (\<lambda>_. 0) ca_file = PoolRet (Some p) None"
    and "UnmarshalAetherportCertificateFromPEM demo_env node_file = (Ok cert, [])"
proof -
  have h: "sint time_Hour = 3600000000000" "time_Hour \<noteq> 0"
    by (simp_all add: time_Hour_def time_Second_def)
  have m: "cert_marshals demo_env default_ca_name" "cert_marshals demo_env (gen_Name (demo_gen time_Hour))"
    by (simp_all add: demo_marshals default_ca_name_def)
  have r: "nano_range 0" "nano_range 1" "nano_range (time_Add 0 (ca_Duration (default_ca (demo_gen time_Hour))))"
    using h by (simp_all add: nano_range_def min_duration_def max_duration_def default_ca_def time_Add_def)
  have n: "nano_range (d_NotAfter (Details (node_template (demo_gen time_Hour) caC demo_public 1)))" for caC
    using h by (simp add: node_template_def nano_range_def min_duration_def max_duration_def time_Add_def)
  obtain fs' ca_file caC node_file cert where g:
    "Generate_Run demo_env (Some (ed25519_Public demo_key, demo_key)) 0 (Some (demo_private, demo_public)) 1
       (demo_gen time_Hour) Map.empty = (fs', Ok ())"
    "read_file fs' ''cacert.pem'' = Some ca_file" "root_pem demo_env caC ca_file"
    "d_NotBefore (Details caC) = 0"
    "d_NotAfter (Details caC) = time_Add 0 (ca_Duration (default_ca (demo_gen time_Hour)))"
    "read_file fs' ''node1-cert.pem'' = Some node_file"
    "UnmarshalAetherportCertificateFromPEM demo_env node_file = (Ok cert, [])"
    using Generate_succeeds [OF demo_proto_laws demo_pair [OF length_demo_key] demo_sha m _
        demo_fresh demo_keys(1) r n, of demo_private] by auto
  have "list_all2 (root_pem demo_env) [caC] [ca_file]" using g(3) by simp
  from load_pool_roots [OF this, of "\<lambda>_. 0" 0 NewCAPool False]
  obtain p where "NewCAPoolFromPEM demo_env (\<lambda>_. 0) ca_file = PoolRet (Some p) None"
    using g(4,5) h by (auto simp: NewCAPoolFromPEM_def NewCAPool_def Expired_iff default_ca_def time_Add_def)
  from that [OF g(1,2,6) this g(7)] show ?thesis .
qed

section \<open>Commands that succeed and are useless\<close>

text \<open>With no CA on the disk and an explicit positive duration, \<open>generate\<close> succeeds but its
  certificate is useless: the CA it creates gets duration 0, so the certificate outlives its
  issuer and \<open>Verify\<close> refuses it at every instant.\<close>

lemma explicit_duration_never_verifies:
  assumes "proto_laws E"
    and "fs (gen_CaKeyFile c) = None" and "fs (gen_CaCertFile c) = None"
    and "0 < sint (gen_Duration c)" and "ca_now \<le> now"
    and "nano_range ca_now" and "nano_range now" and "nano_range (time_Add now (gen_Duration c))"
    and "Generate_Run E ca_key ca_now node_key now c fs = (fs', Ok ())"
    and "read_file fs' (gen_CaCertFile c) = Some ca_file"
    and "NewCAPoolFromPEM E clock ca_file = PoolRet (Some p) e"
    and "read_file fs' (cert_path c) = Some node_file"
    and "UnmarshalAetherportCertificateFromPEM E node_file = (Ok cert, r)"
  shows "Verify E cert t p \<noteq> Ok True"
proof
  assume v: "Verify E cert t p = Ok True"
  have dur: "gen_Duration c \<noteq> 0" using assms(4) by auto
  obtain pub key caC fs1 where ca: "Sign E key None (ca_template (default_ca c) pub ca_now) = (caC, Ok ())"
    "MarshalAetherportCertificateToPEM E caC = Ok ca_file"
    "read_file fs1 (gen_CaCertFile c) = Some ca_file"
    "generate_signed E node_key now c fs1 = (fs', Ok ())"
    using Generate_fresh_Ok [OF assms(9,2,3)] assms(10) by auto
  have caC: "d_NotAfter (Details caC) = ca_now" "d_NotBefore (Details caC) = ca_now"
    "d_Issuer (Details caC) = []"
    using Sign_details [OF ca(1)] dur by (auto simp: ca_template_def default_ca_def time_Add_def)
  have na: "nano_range (d_NotAfter (Details (node_template c caCert [] now)))" for caCert
    using assms(8) dur by (simp add: node_template_def)
  obtain caCert where n: "fst (UnmarshalAetherportCertificateFromPEM E ca_file) = Ok caCert"
    "d_NotAfter (Details cert) = time_Add now (gen_Duration c)"
    using generate_signed_cert [OF assms(1) ca(4) assms(7) na assms(12,13)] ca(3) dur
    by (auto simp: node_template_def)
  obtain x where x: "UnmarshalAetherportCertificateFromPEM E (ca_file @ []) = (Ok caCert, x)"
    using n(1) by (metis append_Nil2 prod.collapse)
  have cc: "d_NotAfter (Details caCert) = ca_now \<and> x = []"
    using pem_file_details [OF assms(1) ca(2) x] caC assms(6) by auto
  obtain s where s: "caMap p (d_Issuer (Details cert)) = Some s"
    "d_NotAfter (Details cert) \<le> d_NotAfter (Details s)"
    using v by (auto simp: Verify_accepts)
  have "s = caCert"
    using single_block_pool [OF _ assms(11) s(1)] x cc by simp
  with s(2) n(2) cc assms(4,5) show False by (simp add: time_Add_def)
qed

text \<open>Every certificate \<open>generate\<close> issues is marked as a CA certificate, so the check of the
  node's own 32-byte private key against it fails on the key length.\<close>

lemma node_cert_is_marked_ca:
  assumes "proto_laws E" and "generate_signed E node_key now c fs = (fs', Ok ())"
    and "nano_range now" and "nano_range (time_Add now (gen_Duration c))" and "gen_Duration c \<noteq> 0"
    and "read_file fs' (cert_path c) = Some node_file"
    and "UnmarshalAetherportCertificateFromPEM E node_file = (Ok cert, r)"
    and "length key = x25519KeyLen"
  shows "d_IsCA (Details cert) \<and> VerifyPrivateKey E cert key = Err BadKeyLength"
proof -
  have na: "nano_range (d_NotAfter (Details (node_template c caCert [] now)))" for caCert
    using assms(4,5) by (simp add: node_template_def)
  have "d_IsCA (Details cert)"
    using generate_signed_cert [OF assms(1,2,3) na assms(6,7)] by auto
  with assms(8) show ?thesis
    by (simp add: VerifyPrivateKey_def x25519KeyLen_def ed25519_PrivateKeySize_def)
qed

end
