(* ===== verification/GoBufio.thy ===== *)
theory GoBufio
  imports Prelude
begin

text \<open>
  The part of \<open>bufio.Reader\<close> and \<open>io.ReadFull\<close> the program uses, over a connection.

  A connection is the list of the byte strings its next reads return, each in one read when the
  caller's buffer is large enough and split otherwise, and what it does once they are used up:
  end, fail, or wait for the peer. A read never returns data together with an error, so the error
  field of the reader is never pending between calls and its state is the unread part of the
  buffer. A reader that waits for ever is \<open>None\<close>.
\<close>

datatype read_err = EOF | UnexpectedEOF | ConnFailed | CtxDone

datatype conn_end = AtEOF | Fails | Waits

type_synonym conn = "bytes list \<times> conn_end"

fun conn_read :: "nat \<Rightarrow> conn \<Rightarrow> (bytes \<times> read_err option \<times> conn) option" where
  "conn_read k (c # cs, e) =
     (if length c \<le> k then Some (c, None, cs, e) else Some (take k c, None, drop k c # cs, e))"
| "conn_read k ([], AtEOF) = Some ([], Some EOF, [], AtEOF)"
| "conn_read k ([], Fails) = Some ([], Some ConnFailed, [], Fails)"
| "conn_read k ([], Waits) = None"

definition bufsize :: nat where "bufsize = 4096"

fun conn_size :: "conn \<Rightarrow> nat" where
  "conn_size (cs, e) = sum_list (map (\<lambda>c. Suc (length c)) cs)"

lemma conn_read_size:
  "conn_read k s = Some (c, None, s') \<Longrightarrow> 0 < k \<Longrightarrow>
     conn_size s' < conn_size s \<and> length c + conn_size s' \<le> conn_size s"
  by (induction k s rule: conn_read.induct) (auto split: if_splits)

lemma conn_read_err: "conn_read k s = Some (c, Some e, s') \<Longrightarrow> c = [] \<and> s' = s"
  by (induction k s rule: conn_read.induct) (auto split: if_splits)

lemma conn_read_data:
  "conn_read k s = Some (c, None, s') \<Longrightarrow> concat (fst s) = c @ concat (fst s') \<and> snd s' = snd s"
  by (induction k s rule: conn_read.induct) (auto split: if_splits simp flip: append_assoc)

lemma conn_read_stop:
  "conn_read k s = Some (c, Some e, s') \<Longrightarrow>
     fst s = [] \<and> s' = s \<and> (e = EOF \<longleftrightarrow> snd s = AtEOF) \<and> snd s \<noteq> Waits"
  by (induction k s rule: conn_read.induct) (auto split: if_splits)

lemma conn_read_waits: "conn_read k s = None \<longleftrightarrow> s = ([], Waits)"
  by (induction k s rule: conn_read.induct) (auto split: if_splits)

text \<open>The loop of \<open>Peek(n)\<close>: fill the buffer until it holds \<open>n\<close> bytes.\<close>

function peek_loop :: "nat \<Rightarrow> bytes \<Rightarrow> conn \<Rightarrow> (bytes \<times> read_err option \<times> conn) option" where
  "peek_loop n buf s =
     (if length buf < n \<and> length buf < bufsize then
        (case conn_read (bufsize - length buf) s of
           None \<Rightarrow> None
         | Some (c, Some e, s') \<Rightarrow> Some (buf, Some e, s')
         | Some (c, None, s') \<Rightarrow> peek_loop n (buf @ c) s')
      else Some (buf, None, s))"
  by pat_completeness auto
termination
proof (relation "measures [\<lambda>(n, buf, s). conn_size s]", goal_cases)
  case 1
  show ?case by simp
next
  case (2 n buf s z c y r s')
  then have "conn_read (bufsize - length buf) s = Some (c, None, s')" "0 < bufsize - length buf"
    by auto
  from conn_read_size [OF this] show ?case by auto
qed

declare peek_loop.simps [simp del]

text \<open>\<open>Read\<close> into a buffer of \<open>m > 0\<close> bytes, and \<open>io.ReadFull\<close> into one of \<open>m\<close> bytes.\<close>

definition bufio_read ::
    "nat \<Rightarrow> bytes \<Rightarrow> conn \<Rightarrow> (bytes \<times> read_err option \<times> bytes \<times> conn) option" where
  "bufio_read m buf s =
     (if buf \<noteq> [] then Some (take m buf, None, drop m buf, s)
      else if bufsize \<le> m then
        map_option (\<lambda>(c, e, s'). (c, e, [], s')) (conn_read m s)
      else map_option (\<lambda>(c, e, s'). (take m c, e, drop m c, s')) (conn_read bufsize s))"

lemma bufio_read_size:
  assumes "bufio_read m buf s = Some (c, None, buf', s')" and "0 < m"
  shows "length buf' + conn_size s' < length buf + conn_size s"
proof (cases "buf = []")
  case False
  with assms show ?thesis by (cases buf) (auto simp: bufio_read_def)
next
  case True
  show ?thesis
  proof (cases "bufsize \<le> m")
    case True
    then obtain d where "conn_read m s = Some (d, None, s')" "buf' = []"
      using assms \<open>buf = []\<close> by (auto simp: bufio_read_def)
    with conn_read_size [OF this(1) assms(2)] show ?thesis
      using \<open>buf = []\<close> by auto
  next
    case False
    then obtain d where d: "conn_read bufsize s = Some (d, None, s')" "buf' = drop m d"
      using assms \<open>buf = []\<close> by (auto simp: bufio_read_def)
    have "0 < bufsize" by (simp add: bufsize_def)
    with conn_read_size [OF d(1)] d(2) assms(2) show ?thesis
      using \<open>buf = []\<close> by (cases d) auto
  qed
qed

function read_full ::
    "nat \<Rightarrow> bytes \<Rightarrow> bytes \<Rightarrow> conn \<Rightarrow> (bytes \<times> read_err option \<times> bytes \<times> conn) option" where
  "read_full m acc buf s =
     (if length acc < m then
        (case bufio_read (m - length acc) buf s of
           None \<Rightarrow> None
         | Some (c, Some e, buf', s') \<Rightarrow>
             Some (acc @ c,
                   if m \<le> length (acc @ c) then None
                   else if acc @ c \<noteq> [] \<and> e = EOF then Some UnexpectedEOF else Some e,
                   buf', s')
         | Some (c, None, buf', s') \<Rightarrow> read_full m (acc @ c) buf' s')
      else Some (acc, None, buf, s))"
  by pat_completeness auto
termination
proof (relation "measures [\<lambda>(m, acc, buf, s). length buf + conn_size s]", goal_cases)
  case 1
  show ?case by simp
next
  case (2 m acc buf s z c y r x buf' s')
  then have "bufio_read (m - length acc) buf s = Some (c, None, buf', s')" "0 < m - length acc"
    by auto
  from bufio_read_size [OF this] show ?case by auto
qed

declare read_full.simps [simp del]

end
