(* ===== verification/ChunkedIO.thy ===== *)
theory ChunkedIO
  imports GoBufio
begin

text \<open>
  \<open>messenger-chunked-io.go\<close>: a messenger that frames each message with its length, least
  significant byte first in as few bytes as it needs, ended by a newline unless there are eight.

  A Go slice is its backing array from the slice's first byte on, whose length is the capacity,
  with a length. The methods have value receivers: each \<open>read\<close> works on a copy of the buffered
  reader as \<open>NewChunkedIOMessenger\<close> made it, so it starts with an empty buffer and what the copy
  read ahead is gone when it returns.
\<close>

definition LF :: byte where "LF = CHR 0x0A"

record gslice =
  sl_array :: bytes
  sl_len :: nat

definition sl_data :: "gslice \<Rightarrow> bytes" where
  "sl_data b = take (sl_len b) (sl_array b)"

definition sl_ok :: "gslice \<Rightarrow> bool" where
  "sl_ok b \<longleftrightarrow> sl_len b \<le> length (sl_array b)"

section \<open>Writing\<close>

definition nbl_of :: "nat \<Rightarrow> nat" where
  "nbl_of n =
     (if n < 2 ^ 8 then 1 else if n < 2 ^ 16 then 2 else if n < 2 ^ 24 then 3
      else if n < 2 ^ 32 then 4 else if n < 2 ^ 40 then 5 else if n < 2 ^ 48 then 6
      else if n < 2 ^ 56 then 7 else 8)"

definition header_len :: "nat \<Rightarrow> nat" where
  "header_len nbl = nbl + (1 - nbl div 8)"

text \<open>The bytes \<open>byte(n)\<close>, \<open>byte(n >> 8)\<close> and so on.\<close>

fun le_bytes :: "nat \<Rightarrow> nat \<Rightarrow> bytes" where
  "le_bytes 0 n = []"
| "le_bytes (Suc k) n = byte_of n # le_bytes k (n div 256)"

definition chunk_header :: "nat \<Rightarrow> bytes" where
  "chunk_header n = le_bytes (nbl_of n) n @ (if nbl_of n < 8 then [LF] else [])"

text \<open>
  The frame that \<open>write\<close> hands to the connection, and the caller's slice afterwards. Reslicing past
  the capacity panics. \<open>append\<close> shifts the data inside the backing array when there is room, and
  the header then overwrites the front of the caller's data; otherwise it copies.
\<close>

definition write_frame :: "gslice \<Rightarrow> ('e, bytes \<times> gslice) res" where
  "write_frame b =
     (let n = sl_len b; h = header_len (nbl_of n); frame = chunk_header n @ sl_data b in
      if length (sl_array b) < h then Panic
      else Ok (frame,
               if h + n \<le> length (sl_array b)
               then b\<lparr>sl_array := frame @ drop (h + n) (sl_array b)\<rparr> else b))"

datatype chunk_error = IncompleteWrite nat nat | WriteFailed read_err | WriteCancelled

definition messenger_write ::
    "(bytes \<Rightarrow> nat \<times> read_err option) \<Rightarrow> gslice \<Rightarrow> (chunk_error, unit) res \<times> gslice" where
  "messenger_write io_write b =
     (case write_frame b of
        Ok (frame, b') \<Rightarrow>
          (case io_write frame of
             (n, None) \<Rightarrow>
               (if n < length frame then Err (IncompleteWrite n (length frame)) else Ok (), b')
           | (n, Some e) \<Rightarrow> (Err (WriteFailed e), b'))
      | Err e \<Rightarrow> (Err e, b)
      | Panic \<Rightarrow> (Panic, b))"

text \<open>
  \<open>Write\<close> and \<open>Read\<close> run the operation in a goroutine and wait for it or for the context: when the
  context ends first the caller gets its error, and the goroutine goes on. A panic of the
  goroutine ends the process in any case.
\<close>

definition messenger_Write ::
    "bool \<Rightarrow> (bytes \<Rightarrow> nat \<times> read_err option) \<Rightarrow> gslice \<Rightarrow> (chunk_error, unit) res \<times> gslice" where
  "messenger_Write ctx_first io_write b =
     (case messenger_write io_write b of
        (Panic, b') \<Rightarrow> (Panic, b')
      | (r, b') \<Rightarrow> (if ctx_first then Err WriteCancelled else r, b'))"

section \<open>Reading\<close>

fun le_val :: "bytes \<Rightarrow> nat" where
  "le_val [] = 0"
| "le_val (c # s) = byte_val c + 256 * le_val s"

text \<open>The number of length bytes and the length, from the bytes that were peeked.\<close>

function parse_from :: "nat \<Rightarrow> bytes \<Rightarrow> nat \<times> nat" where
  "parse_from k p =
     (if 8 \<le> k then (8, le_val (take 8 p))
      else if length p = k \<or> p ! k = LF then (k, le_val (take k p))
      else parse_from (Suc k) p)"
  by pat_completeness auto
termination by (relation "measure (\<lambda>(k, p). 8 - k)") auto

declare parse_from.simps [simp del]

definition parse_header :: "bytes \<Rightarrow> nat \<times> nat" where
  "parse_header p = parse_from 1 p"

datatype read_ret = ReadBlocks | ReadPanics | ReadRet bytes "read_err option"

text \<open>
  \<open>read\<close>, with the connection it leaves. The allocation of the message has the length and the header
  added in 64 bits; beyond \<open>mem\<close> bytes the runtime dies.
\<close>

definition messenger_read :: "nat \<Rightarrow> conn \<Rightarrow> read_ret \<times> conn" where
  "messenger_read mem s =
     (case peek_loop 8 [] s of
        None \<Rightarrow> (ReadBlocks, s)
      | Some (buf, err, s1) \<Rightarrow>
          let p = take 8 buf in
          if err \<noteq> None \<and> length p < 2 then (ReadRet [] err, s1)
          else
            let (nbl, n) = parse_header p;
                h = header_len nbl;
                sz = (n + h) mod 2 ^ 64
            in if mem < sz then (ReadPanics, s1)
               else
                 (case read_full sz [] buf s1 of
                    None \<Rightarrow> (ReadBlocks, s1)
                  | Some (b, err', buf', s2) \<Rightarrow>
                      if sz < h then (ReadPanics, s2)
                      else (ReadRet (drop h (b @ replicate (sz - length b) CHR 0x00)) err', s2)))"

definition messenger_Read :: "bool \<Rightarrow> nat \<Rightarrow> conn \<Rightarrow> read_ret \<times> conn" where
  "messenger_Read ctx_first mem s =
     (case messenger_read mem s of
        (ReadPanics, s') \<Rightarrow> (ReadPanics, s')
      | (r, s') \<Rightarrow> (if ctx_first then ReadRet [] (Some CtxDone) else r, s'))"

section \<open>Lengths as bytes\<close>

lemma length_le_bytes [simp]: "length (le_bytes k n) = k"
  by (induction k arbitrary: n) auto

lemma le_val_le_bytes [simp]: "le_val (le_bytes k n) = n mod 256 ^ k"
proof (induction k arbitrary: n)
  case 0
  then show ?case by simp
next
  case (Suc k)
  have "n mod 256 ^ Suc k = 256 * (n div 256 mod 256 ^ k) + n mod 256"
    by (metis mod_mult2_eq power_Suc)
  then show ?case by (simp add: Suc.IH)
qed

lemma nth_le_bytes: "i < k \<Longrightarrow> le_bytes k n ! i = byte_of (n div 256 ^ i)"
proof (induction k arbitrary: n i)
  case 0
  then show ?case by simp
next
  case (Suc k)
  then show ?case by (cases i) (auto simp: div_mult2_eq)
qed

lemma nbl_range: "1 \<le> nbl_of n" "nbl_of n \<le> 8"
  by (auto simp: nbl_of_def)

lemma nbl_fits: "n < 2 ^ 64 \<Longrightarrow> n < 256 ^ nbl_of n"
  by (auto simp: nbl_of_def)

lemma header_len_nbl: "header_len (nbl_of n) = (if nbl_of n < 8 then Suc (nbl_of n) else 8)"
  using nbl_range [of n] by (auto simp: header_len_def)

lemma length_chunk_header [simp]: "length (chunk_header n) = header_len (nbl_of n)"
  using nbl_range(2) [of n] by (auto simp: chunk_header_def header_len_nbl)

text \<open>The lengths whose bytes after the first are not newlines.\<close>

definition clean_length :: "nat \<Rightarrow> bool" where
  "clean_length n \<longleftrightarrow> (\<forall>i\<in>{1..<nbl_of n}. n div 256 ^ i mod 256 \<noteq> 10)"

lemma LF_val: "byte_of n = LF \<longleftrightarrow> n mod 256 = 10"
proof -
  have "byte_val LF = 10" by (simp add: LF_def byte_val_def)
  then have "LF = byte_of 10" by (metis byte_of_val)
  then show ?thesis by (metis byte_of_eq_iff byte_val_of \<open>byte_val LF = 10\<close>)
qed

lemma parse_from_skip:
  "k \<le> j \<Longrightarrow> j \<le> 8 \<Longrightarrow> \<forall>i\<in>{k..<j}. length p \<noteq> i \<and> p ! i \<noteq> LF \<Longrightarrow> parse_from k p = parse_from j p"
proof (induction "j - k" arbitrary: k)
  case 0
  then show ?case by simp
next
  case (Suc d)
  then have "parse_from (Suc k) p = parse_from j p" by simp
  moreover have "\<not> 8 \<le> k" "k < j" using Suc.prems(2) Suc.hyps(2) by auto
  ultimately show ?case using Suc.prems(3) by (simp add: parse_from.simps [of k])
qed

lemma parse_header_frame:
  assumes "n < 2 ^ 64" and "clean_length n" and "8 \<le> length (chunk_header n @ r)"
  shows "parse_header (take 8 (chunk_header n @ r)) = (nbl_of n, n)"
proof -
  let ?p = "take 8 (chunk_header n @ r)" and ?k = "nbl_of n"
  have len: "length ?p = 8" using assms(3) by simp
  have k: "1 \<le> ?k" "?k \<le> 8" by (rule nbl_range)+
  have dig: "?p ! i = byte_of (n div 256 ^ i)" if "i < ?k" for i
    using that k by (simp add: chunk_header_def nth_append nth_le_bytes)
  have "\<forall>i\<in>{1..<?k}. length ?p \<noteq> i \<and> ?p ! i \<noteq> LF"
    using assms(2) k len dig by (auto simp: clean_length_def LF_val)
  then have skip: "parse_header ?p = parse_from ?k ?p"
    using k unfolding parse_header_def by (intro parse_from_skip) auto
  have tk: "take ?k ?p = le_bytes ?k n"
    using k by (simp add: chunk_header_def min_def)
  have v: "le_val (le_bytes ?k n) = n" using nbl_fits [OF assms(1)] by simp
  show ?thesis
  proof (cases "?k = 8")
    case True
    with skip tk v show ?thesis by (simp add: parse_from.simps)
  next
    case False
    then have "?p ! ?k = LF" using k by (simp add: chunk_header_def nth_append)
    with False skip tk v k show ?thesis by (simp add: parse_from.simps)
  qed
qed

section \<open>Reading a frame\<close>

text \<open>
  The chunks \<open>cs1\<close> of the connection end where the frame ends: peeking and then reading the rest
  takes exactly these chunks.
\<close>

lemma peek_within:
  "\<forall>c\<in>set cs1. c \<noteq> [] \<Longrightarrow> n \<le> length (buf @ concat cs1) \<Longrightarrow> n \<le> bufsize \<Longrightarrow>
     \<exists>buf' cs1'. peek_loop n buf (cs1 @ cs2, e) = Some (buf', None, cs1' @ cs2, e)
       \<and> buf' @ concat cs1' = buf @ concat cs1 \<and> n \<le> length buf' \<and> (\<forall>c\<in>set cs1'. c \<noteq> [])"
proof (induction "sum_list (map length cs1)" arbitrary: buf cs1 rule: less_induct)
  case less
  show ?case
  proof (cases "length buf < n")
    case False
    then show ?thesis using less.prems by (auto simp: peek_loop.simps)
  next
    case True
    then obtain c cs where cs1: "cs1 = c # cs" "c \<noteq> []"
      using less.prems by (cases cs1) auto
    let ?k = "bufsize - length buf"
    have k: "0 < ?k" using True less.prems(3) by simp
    show ?thesis
    proof (cases "length c \<le> ?k")
      case fits: True
      have "sum_list (map length cs) < sum_list (map length cs1)" using cs1 by simp
      from less.hyps [OF this, of "buf @ c"] fits True less.prems cs1 k show ?thesis
        by (simp add: peek_loop.simps [of n buf])
    next
      case splits: False
      have "sum_list (map length (drop ?k c # cs)) < sum_list (map length cs1)"
        using cs1 k splits by simp
      moreover have ap: "(buf @ take ?k c) @ concat (drop ?k c # cs) = buf @ concat cs1"
        using cs1(1) by simp
      moreover have "\<forall>d\<in>set (drop ?k c # cs). d \<noteq> []" using less.prems(1) cs1 splits by simp
      ultimately have "\<exists>buf' cs1'. peek_loop n (buf @ take ?k c) ((drop ?k c # cs) @ cs2, e)
            = Some (buf', None, cs1' @ cs2, e)
          \<and> buf' @ concat cs1' = buf @ concat cs1 \<and> n \<le> length buf' \<and> (\<forall>c\<in>set cs1'. c \<noteq> [])"
        using less.hyps [of "drop ?k c # cs" "buf @ take ?k c"] less.prems(2,3)
        unfolding ap by blast
      then show ?thesis using True less.prems(3) cs1(1) splits
        by (simp add: peek_loop.simps [of n buf])
    qed
  qed
qed

lemma bufio_read_within:
  assumes "\<forall>c\<in>set cs1. c \<noteq> []" and "m = length (buf @ concat cs1)" and "0 < m"
  shows "\<exists>c cs1'. bufio_read m buf (cs1 @ cs2, e) = Some (c, None, [], cs1' @ cs2, e)
           \<and> c @ concat cs1' = buf @ concat cs1 \<and> (\<forall>c\<in>set cs1'. c \<noteq> [])
           \<and> length buf + length cs1' < length buf + length cs1 + (if buf = [] then 0 else 1)"
proof (cases "buf = []")
  case False
  with assms show ?thesis by (intro exI [of _ buf] exI [of _ cs1]) (simp add: bufio_read_def)
next
  case True
  with assms obtain c cs where cs1: "cs1 = c # cs" by (cases cs1) auto
  with assms True show ?thesis
    by (intro exI [of _ c] exI [of _ cs]) (auto simp: bufio_read_def)
qed

lemma read_full_within:
  "\<forall>c\<in>set cs1. c \<noteq> [] \<Longrightarrow> m = length (acc @ buf @ concat cs1) \<Longrightarrow>
     read_full m acc buf (cs1 @ cs2, e) = Some (acc @ buf @ concat cs1, None, [], cs2, e)"
proof (induction "length cs1 + (if buf = [] then 0 else 1)" arbitrary: acc buf cs1 rule: less_induct)
  case less
  show ?case
  proof (cases "length acc < m")
    case False
    then have "buf = []" "concat cs1 = []" using less.prems(2) by auto
    moreover from this(2) have "cs1 = []" using less.prems(1) by (cases cs1) auto
    ultimately show ?thesis using False by (simp add: read_full.simps)
  next
    case True
    have "m - length acc = length (buf @ concat cs1)" "0 < m - length acc"
      using True less.prems by auto
    from bufio_read_within [OF less.prems(1) this]
    obtain c cs1' where c: "bufio_read (m - length acc) buf (cs1 @ cs2, e) = Some (c, None, [], cs1' @ cs2, e)"
      "c @ concat cs1' = buf @ concat cs1" "\<forall>c\<in>set cs1'. c \<noteq> []"
      "length buf + length cs1' < length buf + length cs1 + (if buf = [] then 0 else 1)"
      by blast
    have l: "length cs1' + 0 < length cs1 + (if buf = [] then 0 else 1)" using c(4) by simp
    have "length (c @ concat cs1') = length (buf @ concat cs1)" using c(2) by simp
    then have m: "m = length ((acc @ c) @ [] @ concat cs1')" using less.prems(2) by simp
    have "read_full m (acc @ c) [] (cs1' @ cs2, e) = Some ((acc @ c) @ [] @ concat cs1', None, [], cs2, e)"
      using less.hyps [of cs1' "[]" "acc @ c"] l c(3) m by simp
    then show ?thesis using True c(1,2) by (simp add: read_full.simps [of m acc])
  qed
qed

lemma read_full_buffered:
  "m = length (acc @ b) \<Longrightarrow> b \<noteq> [] \<Longrightarrow> read_full m acc (b @ x) s = Some (acc @ b, None, x, s)"
  unfolding read_full.simps [of m acc] by (simp add: bufio_read_def read_full.simps)

lemma messenger_read_frame:
  assumes "sl_len b < 2 ^ 63" and "clean_length (sl_len b)" and "sl_ok b"
    and "concat cs1 = chunk_header (sl_len b) @ sl_data b" and "\<forall>c\<in>set cs1. c \<noteq> []"
    and "8 \<le> length (concat cs1)" and "length (concat cs1) \<le> mem"
  shows "messenger_read mem (cs1 @ cs2, e) = (ReadRet (sl_data b) None, cs2, e)"
proof -
  let ?n = "sl_len b"
  have "8 \<le> bufsize" by (simp add: bufsize_def)
  with peek_within [OF assms(5), of 8 "[]" cs2 e] assms(6)
  obtain buf cs1' where p: "peek_loop 8 [] (cs1 @ cs2, e) = Some (buf, None, cs1' @ cs2, e)"
    "buf @ concat cs1' = concat cs1" "8 \<le> length buf" "\<forall>c\<in>set cs1'. c \<noteq> []"
    by auto
  have t: "take 8 buf = take 8 (chunk_header ?n @ sl_data b)"
    using p(2,3) assms(4) by (metis append_eq_append_conv_if take_append take_take min_def
        append_take_drop_id diff_is_0_eq take_0 append_Nil2)
  have h: "parse_header (take 8 buf) = (nbl_of ?n, ?n)"
    unfolding t using assms(1,2,4,6) by (intro parse_header_frame) auto
  have dl: "length (sl_data b) = ?n" using assms(3) by (simp add: sl_data_def sl_ok_def)
  then have len: "length (concat cs1) = header_len (nbl_of ?n) + ?n" using assms(4) by simp
  have "header_len (nbl_of ?n) \<le> 8" using nbl_range(2) [of ?n] by (simp add: header_len_nbl)
  then have sz: "(?n + header_len (nbl_of ?n)) mod 2 ^ 64 = length (concat cs1)"
    using assms(1) len by simp
  have "read_full (length (concat cs1)) [] buf (cs1' @ cs2, e) = Some (concat cs1, None, [], cs2, e)"
    using read_full_within [OF p(4), of "length (concat cs1)" "[]" buf cs2 e] p(2) by (metis append_Nil)
  then show ?thesis
    using p(1) h sz assms(4,7) len by (simp add: messenger_read_def Let_def)
qed

end
