(* ===== verification/ChunkedFrames.thy ===== *)
theory ChunkedFrames
  imports ChunkedIO
begin

text \<open>
  The theorems on the framing of \<open>messenger-chunked-io.go\<close>: when a message comes through, what
  writing does to the caller's slice, and the messages and peers that break it.
\<close>

section \<open>Lemmas on one chunk\<close>

lemma peek_one_chunk:
  "8 \<le> length c \<Longrightarrow> length c \<le> bufsize \<Longrightarrow> peek_loop 8 [] (c # cs, e) = Some (c, None, cs, e)"
  by (cases c) (simp_all add: peek_loop.simps [of 8 "[]"] peek_loop.simps [of 8 c] bufsize_def
      peek_loop.simps)

lemma read_full_prefix:
  "0 < m \<Longrightarrow> m \<le> length b \<Longrightarrow> read_full m [] b s = Some (take m b, None, drop m b, s)"
  by (cases b) (simp_all add: read_full.simps [of m "[]"] bufio_read_def read_full.simps [of m "take m _"]
      read_full.simps [of m "_ # _"])

lemma byte_of_simps [simp]:
  "byte_of 2 = CHR 0x02" "byte_of 3 = CHR 0x03" "byte_of 6 = CHR 0x06" "byte_of 9 = CHR 0x09"
  by (simp_all add: byte_eq_iff, simp_all add: byte_val_def)

lemma messenger_read_one_chunk:
  assumes "8 \<le> length c" and "length c \<le> bufsize" and "parse_header (take 8 c) = (nbl, n)"
    and "0 < n + header_len nbl" and "n + header_len nbl \<le> length c" and "n + header_len nbl \<le> mem"
  shows "messenger_read mem (c # cs, e) = (ReadRet (take n (drop (header_len nbl) c)) None, cs, e)"
proof -
  let ?h = "header_len nbl"
  have "n + ?h < 2 ^ 64" using assms(2,5) by (simp add: bufsize_def)
  then have sz: "(n + ?h) mod 2 ^ 64 = n + ?h" by (rule mod_less)
  have d: "drop ?h (take (n + ?h) c) = take n (drop ?h c)" by (simp add: drop_take)
  have l: "length (take (n + ?h) c) = n + ?h" using assms(5) by simp
  have rf: "read_full (n + ?h) [] c (cs, e) = Some (take (n + ?h) c, None, drop (n + ?h) c, cs, e)"
    by (rule read_full_prefix [OF assms(4,5)])
  show ?thesis
    unfolding messenger_read_def peek_one_chunk [OF assms(1,2)] option.case prod.case Let_def
      assms(3) sz rf l
    using assms(6) by (simp add: d)
qed

lemma le_val_less: "le_val q < 256 ^ length q"
proof (induction q)
  case Nil
  then show ?case by simp
next
  case (Cons c q)
  have "byte_val c < 256" by simp
  with Cons show ?case by (simp del: byte_val_less)
qed

lemma header_short: "n < 256 \<Longrightarrow> chunk_header n = [byte_of n, LF]"
  by (simp add: chunk_header_def nbl_of_def)

lemma nbl_small: "n < 256 \<Longrightarrow> nbl_of n = 1" "256 \<le> n \<Longrightarrow> n < 65536 \<Longrightarrow> nbl_of n = 2"
  by (simp_all add: nbl_of_def)

lemma header_len_simps [simp]:
  "header_len (Suc 0) = 2" "header_len 1 = 2" "header_len 2 = 3" "header_len 8 = 8"
  by (simp_all add: header_len_def)

section \<open>Properties\<close>

text \<open>C19. A message written by \<open>write\<close> is what \<open>read\<close> returns, however the connection cuts the
  frame into chunks, provided no byte of its length but the first is a newline, its frame has at
  least eight bytes and its last chunk ends with it; nothing of what follows is touched.\<close>

theorem chunked_roundtrip:
  assumes "sl_ok b" and "write_frame b = Ok (frame, b')" and "sl_len b < 2 ^ 63"
    and "\<forall>i\<in>{1..<nbl_of (sl_len b)}. sl_len b div 256 ^ i mod 256 \<noteq> 10"
    and "concat cs1 = frame" and "\<forall>c\<in>set cs1. c \<noteq> []"
    and "8 \<le> length frame" and "length frame \<le> mem"
  shows "messenger_read mem (cs1 @ cs2, e) = (ReadRet (sl_data b) None, cs2, e)"
proof -
  have f: "frame = chunk_header (sl_len b) @ sl_data b"
    using assms(2) by (auto simp: write_frame_def Let_def split: if_splits)
  have "clean_length (sl_len b)" using assms(4) by (simp add: clean_length_def)
  from messenger_read_frame [OF assms(3) this assms(1)] assms(5-8) f show ?thesis by simp
qed

theorem chunked_roundtrip_witness:
  "write_frame \<lparr>sl_array = ''handshake'', sl_len = 9\<rparr>
     = (Ok (CHR 0x09 # CHR 0x0A # ''handshake'', \<lparr>sl_array = ''handshake'', sl_len = 9\<rparr>) :: (unit, _) res)
   \<and> messenger_read 1000 ([[CHR 0x09], CHR 0x0A # ''hand'', ''shake'', ''more''], Waits)
     = (ReadRet ''handshake'' None, [''more''], Waits)"
proof -
  let ?b = "\<lparr>sl_array = ''handshake'', sl_len = 9\<rparr>"
  have w: "write_frame ?b = (Ok (CHR 0x09 # CHR 0x0A # ''handshake'', ?b) :: (unit, _) res)"
    by (simp add: write_frame_def Let_def nbl_of_def header_short sl_data_def LF_def)
  have "messenger_read 1000 ([[CHR 0x09], CHR 0x0A # ''hand'', ''shake''] @ [''more''], Waits)
      = (ReadRet (sl_data ?b) None, [''more''], Waits)"
    by (rule chunked_roundtrip [OF _ w]) (simp_all add: sl_ok_def nbl_of_def)
  with w show ?thesis by (simp add: sl_data_def)
qed

text \<open>Writing panics exactly when the slice has no room for the header within its capacity, even
  for an empty message; otherwise the frame is the header and the message, and the caller's own
  slice keeps its data only when frame and slice did not fit the same array.\<close>

lemma write_frame_outcome:
  assumes "sl_ok b"
  shows "(write_frame b = Panic \<longleftrightarrow>
            length (sl_array b) < nbl_of (sl_len b) + (if sl_len b < 2 ^ 56 then 1 else 0))
   \<and> (\<forall>frame b'. write_frame b = Ok (frame, b') \<longrightarrow>
        frame = chunk_header (sl_len b) @ sl_data b \<and> sl_ok b' \<and> sl_len b' = sl_len b
        \<and> sl_data b' = (if length frame \<le> length (sl_array b) then take (sl_len b) frame else sl_data b))"
proof -
  have l: "length (chunk_header (sl_len b) @ sl_data b) = header_len (nbl_of (sl_len b)) + sl_len b"
    using assms by (simp add: sl_data_def sl_ok_def)
  have h: "header_len (nbl_of (sl_len b)) = nbl_of (sl_len b) + (if sl_len b < 2 ^ 56 then 1 else 0)"
    by (simp add: header_len_nbl) (simp add: nbl_of_def)
  have "write_frame b = Panic \<longleftrightarrow> length (sl_array b) < header_len (nbl_of (sl_len b))"
    by (simp add: write_frame_def Let_def)
  moreover have "frame = chunk_header (sl_len b) @ sl_data b \<and> sl_ok b' \<and> sl_len b' = sl_len b
      \<and> sl_data b' = (if length frame \<le> length (sl_array b) then take (sl_len b) frame else sl_data b)"
    if "write_frame b = Ok (frame, b')" for frame b'
    using that l assms
    by (auto simp: write_frame_def Let_def sl_data_def sl_ok_def take_append split: if_splits)
  ultimately show ?thesis unfolding h by blast
qed

text \<open>When the connection delivers a frame together with the bytes behind it, \<open>read\<close> returns the
  message and those bytes are gone: they stay in a copy of the reader that is thrown away.\<close>

lemma read_ahead_is_lost:
  assumes "sl_ok b" and "clean_length (sl_len b)" and "frame = chunk_header (sl_len b) @ sl_data b"
    and "8 \<le> length (frame @ x)" and "length (frame @ x) \<le> bufsize" and "bufsize \<le> mem"
  shows "messenger_read mem ((frame @ x) # cs, e) = (ReadRet (sl_data b) None, cs, e)"
proof -
  let ?n = "sl_len b"
  have dl: "length (sl_data b) = ?n" using assms(1) by (simp add: sl_data_def sl_ok_def)
  have le: "header_len (nbl_of ?n) + ?n \<le> length (frame @ x)" using assms(3) dl by simp
  then have "?n < 2 ^ 64" using assms(5) by (simp add: bufsize_def)
  from parse_header_frame [OF this assms(2), of "sl_data b @ x"] assms(3,4)
  have p: "parse_header (take 8 (frame @ x)) = (nbl_of ?n, ?n)" by simp
  have "0 < header_len (nbl_of ?n)" by (simp add: header_len_nbl)
  with messenger_read_one_chunk [OF assms(4,5) p, of mem cs e] le assms(5,6) show ?thesis
    using assms(3) dl by simp
qed

text \<open>A message of 2560 to 2815 bytes is misread: the second byte of its length is a newline, so
  the reader takes the first byte for the whole length and returns that many bytes of the rest,
  without an error.\<close>

lemma newline_length_is_misread:
  assumes "sl_ok b" and "2560 \<le> sl_len b" and "sl_len b < 2816" and "bufsize \<le> mem"
  shows "messenger_read mem ((chunk_header (sl_len b) @ sl_data b) # cs, e)
       = (ReadRet (take (sl_len b mod 256) (LF # sl_data b)) None, cs, e)
    \<and> take (sl_len b mod 256) (LF # sl_data b) \<noteq> sl_data b"
proof -
  let ?n = "sl_len b"
  let ?c = "chunk_header ?n @ sl_data b"
  have dl: "length (sl_data b) = ?n" using assms(1) by (simp add: sl_data_def sl_ok_def)
  have d: "?n div 256 = 10" using assms(2,3) by (intro div_nat_eqI) auto
  have h: "chunk_header ?n = [byte_of ?n, LF, LF]"
    using assms(2,3) d LF_val [of 10]
    by (simp add: chunk_header_def nbl_small numeral_2_eq_2)
  then have len: "length ?c = ?n + 3" using dl by simp
  have p: "parse_header (take 8 ?c) = (1, ?n mod 256)"
    using h by (simp add: parse_header_def parse_from.simps)
  have "length ?c \<le> bufsize" "8 \<le> length ?c" "?n mod 256 + 2 \<le> length ?c" "?n mod 256 + 2 \<le> mem"
    using assms(2-4) len by (auto simp: bufsize_def)
  then have "messenger_read mem (?c # cs, e) = (ReadRet (take (?n mod 256) (drop 2 ?c)) None, cs, e)"
    using messenger_read_one_chunk [OF _ _ p, of mem cs e] by simp
  moreover have "?n mod 256 < 256" by simp
  then have "?n mod 256 < ?n" using assms(2) by linarith
  then have "length (take (?n mod 256) (LF # sl_data b)) < length (sl_data b)"
    using dl by simp
  then have "take (?n mod 256) (LF # sl_data b) \<noteq> sl_data b" by (metis less_irrefl)
  ultimately show ?thesis using h by auto
qed

text \<open>A message of up to five bytes is not delivered while the peer waits for the answer: the
  reader waits for eight bytes first. It is delivered when the connection ends.\<close>

lemma short_message_waits:
  assumes "sl_ok b" and "sl_len b \<le> 5" and "bufsize \<le> mem"
  shows "fst (messenger_read mem ([chunk_header (sl_len b) @ sl_data b], Waits)) = ReadBlocks
    \<and> messenger_read mem ([chunk_header (sl_len b) @ sl_data b], AtEOF) = (ReadRet (sl_data b) None, [], AtEOF)"
proof -
  let ?n = "sl_len b"
  let ?c = "chunk_header ?n @ sl_data b"
  have dl: "length (sl_data b) = ?n" using assms(1) by (simp add: sl_data_def sl_ok_def)
  have h: "chunk_header ?n = [byte_of ?n, LF]" using assms(2) by (simp add: header_short)
  then have len: "length ?c = ?n + 2" using dl by simp
  have pk: "peek_loop 8 [] ([?c], e) = (case conn_read (bufsize - length ?c) ([], e) of
        None \<Rightarrow> None | Some (c, Some r, s) \<Rightarrow> Some (?c, Some r, s)
      | Some (c, None, s) \<Rightarrow> peek_loop 8 (?c @ c) s)" for e
    using len assms(2) by (simp add: peek_loop.simps [of 8 "[]"] peek_loop.simps [of 8 ?c] bufsize_def)
  have p: "parse_header (take 8 ?c) = (1, ?n)"
    using h assms(2) len by (simp add: parse_header_def parse_from.simps)
  have s: "(?n + 2) mod 2 ^ 64 = ?n + 2" using assms(2) by simp
  have m: "\<not> mem < ?n + 2" using assms(2,3) by (simp add: bufsize_def)
  have "read_full (?n + 2) [] ?c ([], AtEOF) = Some (?c, None, [], [], AtEOF)"
    using read_full_prefix [of "?n + 2" ?c "([], AtEOF)"] len by simp
  then have "messenger_read mem ([?c], AtEOF) = (ReadRet (drop 2 ?c) None, [], AtEOF)"
    using pk [of AtEOF] p s m len by (simp add: messenger_read_def)
  moreover have "fst (messenger_read mem ([?c], Waits)) = ReadBlocks"
    using pk [of Waits] by (simp add: messenger_read_def)
  ultimately show ?thesis using h by simp
qed

text \<open>A peer can end the process with eight bytes: a length without newlines that exceeds what
  the runtime can allocate, or that wraps around 64 bits, panics the reader, whatever follows.\<close>

lemma hostile_length_panics:
  assumes "length p = 8" and "\<forall>i\<in>{1..7}. p ! i \<noteq> LF" and "mem < le_val p + 8"
    and "length (p @ x) \<le> bufsize"
  shows "fst (messenger_read mem ((p @ x) # cs, e)) = ReadPanics"
proof -
  have "parse_from 1 p = parse_from 8 p"
    using assms(1,2) by (intro parse_from_skip) auto
  then have h: "parse_header (take 8 (p @ x)) = (8, le_val p)"
    using assms(1) by (simp add: parse_header_def parse_from.simps)
  have pk: "peek_loop 8 [] ((p @ x) # cs, e) = Some (p @ x, None, cs, e)"
    using assms(1,4) by (intro peek_one_chunk) auto
  let ?sz = "(le_val p + 8) mod 2 ^ 64"
  show ?thesis
  proof (cases "mem < ?sz")
    case True
    with h pk show ?thesis by (simp add: messenger_read_def)
  next
    case False
    with assms(3) have "2 ^ 64 \<le> le_val p + 8" by (metis mod_less not_le)
    moreover have "le_val p < 2 ^ 64" using le_val_less [of p] assms(1) by simp
    ultimately have "?sz = le_val p + 8 - 2 ^ 64" "le_val p + 8 - 2 ^ 64 < 8"
      by (simp_all add: mod_if) 
    then have "?sz < 8" by (simp only:)
    then have "?sz \<le> length (p @ x)" using assms(1) by simp
    then obtain b buf' where "read_full ?sz [] (p @ x) (cs, e) = Some (b, None, buf', cs, e)"
      using read_full_prefix [of ?sz "p @ x" "(cs, e)"]
      by (cases "?sz = 0") (auto simp: read_full.simps [of 0])
    with False \<open>?sz < 8\<close> show ?thesis
      unfolding messenger_read_def pk h option.case prod.case Let_def header_len_simps
      by simp
  qed
qed

section \<open>The header against a reference\<close>

text \<open>What the header means: the bytes up to the first newline after the first byte, eight at most,
  are the length, least significant first; and a length is written in as few bytes as hold it.\<close>

definition header_spec :: "bytes \<Rightarrow> nat \<times> nat" where
  "header_spec p =
     (let d = take 8 (hd p # takeWhile (\<lambda>c. c \<noteq> LF) (tl p)) in (length d, le_val d))"

lemma parse_from_spec:
  "1 \<le> k \<Longrightarrow> k \<le> length p \<Longrightarrow> length p \<le> 8 \<Longrightarrow>
     parse_from k p = (let d = take k p @ takeWhile (\<lambda>c. c \<noteq> LF) (drop k p) in (length d, le_val d))"
proof (induction "8 - k" arbitrary: k)
  case 0
  then have "k = 8" "length p = 8" by simp_all
  then show ?case by (simp add: parse_from.simps [of 8])
next
  case (Suc m)
  show ?case
  proof (cases "length p = k \<or> p ! k = LF")
    case True
    then have "takeWhile (\<lambda>c. c \<noteq> LF) (drop k p) = []"
      using Suc.prems(2) by (cases "length p = k") (simp_all add: takeWhile_eq_Nil_iff hd_drop_conv_nth)
    with True show ?thesis using Suc.hyps(2) Suc.prems by (simp add: parse_from.simps [of k] min_def)
  next
    case False
    then have k: "k < length p" "p ! k \<noteq> LF" using Suc.prems by auto
    then have "take (Suc k) p @ takeWhile (\<lambda>c. c \<noteq> LF) (drop (Suc k) p)
        = take k p @ takeWhile (\<lambda>c. c \<noteq> LF) (drop k p)"
      by (simp add: take_Suc_conv_app_nth Cons_nth_drop_Suc [symmetric])
    then show ?thesis using Suc.hyps(1) [of "Suc k"] Suc.hyps(2) Suc.prems k
      by (simp add: parse_from.simps [of k])
  qed
qed

lemma nbl_least: "n < 2 ^ 64 \<Longrightarrow> 1 \<le> k \<Longrightarrow> k \<le> 8 \<Longrightarrow> nbl_of n \<le> k \<longleftrightarrow> n < 256 ^ k"
proof -
  assume a: "n < 2 ^ 64" "1 \<le> k" "k \<le> 8"
  from a(2,3) consider "k = 1" | "k = 2" | "k = 3" | "k = 4" | "k = 5" | "k = 6" | "k = 7" | "k = 8"
    by linarith
  then show ?thesis using a(1) by cases (simp_all add: nbl_of_def)
qed

text \<open>C37. The two ladders of conditions are what the format says: for every length of 64 bits \<open>write\<close>
  takes the least number of bytes that holds it, and on any one to eight peeked bytes \<open>read\<close> takes
  the bytes before the first newline, the first byte excepted, as a little-endian number.\<close>

theorem header_equivalence:
  assumes "p \<noteq> []" and "length p \<le> 8" and "n < 2 ^ 64"
  shows "parse_header p = header_spec p
    \<and> (\<forall>k\<in>{1..8}. nbl_of n \<le> k \<longleftrightarrow> n < 256 ^ k)
    \<and> le_val (take (nbl_of n) (chunk_header n)) = n"
proof -
  have "take 8 (hd p # takeWhile (\<lambda>c. c \<noteq> LF) (tl p)) = hd p # takeWhile (\<lambda>c. c \<noteq> LF) (tl p)"
    using assms(1,2) length_takeWhile_le [of "\<lambda>c. c \<noteq> LF" "tl p"] by (cases p) auto
  moreover have "parse_header p = (let d = hd p # takeWhile (\<lambda>c. c \<noteq> LF) (tl p) in (length d, le_val d))"
    using assms(1,2) by (cases p) (simp_all add: parse_header_def parse_from_spec)
  ultimately have "parse_header p = header_spec p" by (simp add: header_spec_def Let_def)
  moreover have "le_val (take (nbl_of n) (chunk_header n)) = n"
    using nbl_fits [OF assms(3)] by (simp add: chunk_header_def)
  ultimately show ?thesis using nbl_least [OF assms(3)] by simp
qed

theorem header_equivalence_witness:
  "parse_header [CHR 0x0A, CHR ''a'', LF, CHR ''x''] = (2, 10 + 256 * 97)
    \<and> le_val (take (nbl_of 300) (chunk_header 300)) = 300"
proof -
  have "byte_val (CHR 0x0A) = 10" "byte_val (CHR ''a'') = 97" by (simp_all add: byte_val_def)
  moreover have "CHR ''a'' \<noteq> LF" by (simp add: LF_def)
  ultimately have "header_spec [CHR 0x0A, CHR ''a'', LF, CHR ''x''] = (2, 10 + 256 * 97)"
    by (simp add: header_spec_def)
  with header_equivalence [of "[CHR 0x0A, CHR ''a'', LF, CHR ''x'']" 300] show ?thesis by simp
qed

end
