(* ===== verification/DataChannel.thy ===== *)
theory DataChannel
  imports Main
begin

text \<open>
  The flow control of \<open>DataChannelConn\<close> in \<open>datachannel-conn.go\<close>: \<open>Write\<close> waits while more than
  \<open>wBuffMax\<close> bytes are buffered, and the callback that the data channel runs when its buffer falls
  to \<open>wBuffLow\<close> wakes the writers, counted by \<open>wBuffWaiter\<close>, over an unbuffered channel.

  A writer is its position in \<open>Write\<close>, the callback its position in its loop, and a step is one
  action of one of them or of the network. The deadline of a write plays no part: \<open>setDeadline\<close>
  has a value receiver, so the context that \<open>exec\<close> waits for is always the background one.
  Writers are numbered below \<open>k\<close>. The data channel reports the buffered amount, and it runs the
  callback, and takes no more acknowledgements until it returns, exactly when the amount falls
  from above the threshold to the threshold or below.
\<close>

definition wBuffMax :: nat where "wBuffMax = 1024 * 1024"
definition wBuffLow :: nat where "wBuffLow = 512 * 1024"

text \<open>
  Before the test, after a test that found too much, at \<open><-wBuffWaiterChan\<close>, and before the write
  to the data channel.
\<close>

datatype writer = Idle | Full | Waiting | Passed

text \<open>Not running, before the test of the counter, at the send, and before the decrement.\<close>

datatype low_callback = Returned | Testing | Sending | Counting

record dcc =
  buffered :: nat
  wBuffWaiter :: int
  writers :: "nat \<Rightarrow> writer"
  callback :: low_callback

definition new_dcc :: dcc where
  "new_dcc = \<lparr>buffered = 0, wBuffWaiter = 0, writers = (\<lambda>_. Idle), callback = Returned\<rparr>"

definition move :: "dcc \<Rightarrow> nat \<Rightarrow> writer \<Rightarrow> dcc" where
  "move \<sigma> t w = \<sigma>\<lparr>writers := (writers \<sigma>)(t := w)\<rparr>"

definition released :: "dcc \<Rightarrow> nat \<Rightarrow> dcc" where
  "released \<sigma> n =
     \<sigma>\<lparr>buffered := buffered \<sigma> - n,
       callback := (if wBuffLow < buffered \<sigma> \<and> buffered \<sigma> - n \<le> wBuffLow then Testing else Returned)\<rparr>"

inductive dc_step :: "nat \<Rightarrow> dcc \<Rightarrow> dcc \<Rightarrow> bool" for k :: nat where
  test_pass: "t < k \<Longrightarrow> writers \<sigma> t = Idle \<Longrightarrow> buffered \<sigma> \<le> wBuffMax \<Longrightarrow> dc_step k \<sigma> (move \<sigma> t Passed)"
| test_full: "t < k \<Longrightarrow> writers \<sigma> t = Idle \<Longrightarrow> wBuffMax < buffered \<sigma> \<Longrightarrow> dc_step k \<sigma> (move \<sigma> t Full)"
| count_up: "t < k \<Longrightarrow> writers \<sigma> t = Full \<Longrightarrow>
    dc_step k \<sigma> (move \<sigma> t Waiting\<lparr>wBuffWaiter := wBuffWaiter \<sigma> + 1\<rparr>)"
| put: "t < k \<Longrightarrow> writers \<sigma> t = Passed \<Longrightarrow> dc_step k \<sigma> (move \<sigma> t Idle\<lparr>buffered := buffered \<sigma> + n\<rparr>)"
| release: "callback \<sigma> = Returned \<Longrightarrow> n \<le> buffered \<sigma> \<Longrightarrow> dc_step k \<sigma> (released \<sigma> n)"
| test_zero: "callback \<sigma> = Testing \<Longrightarrow> wBuffWaiter \<sigma> = 0 \<Longrightarrow> dc_step k \<sigma> (\<sigma>\<lparr>callback := Returned\<rparr>)"
| test_more: "callback \<sigma> = Testing \<Longrightarrow> wBuffWaiter \<sigma> \<noteq> 0 \<Longrightarrow> dc_step k \<sigma> (\<sigma>\<lparr>callback := Sending\<rparr>)"
| wake: "callback \<sigma> = Sending \<Longrightarrow> t < k \<Longrightarrow> writers \<sigma> t = Waiting \<Longrightarrow>
    dc_step k \<sigma> (move \<sigma> t Passed\<lparr>callback := Counting\<rparr>)"
| count_down: "callback \<sigma> = Counting \<Longrightarrow>
    dc_step k \<sigma> (\<sigma>\<lparr>callback := Testing, wBuffWaiter := wBuffWaiter \<sigma> - 1\<rparr>)"

inductive dc_reach :: "nat \<Rightarrow> dcc \<Rightarrow> dcc \<Rightarrow> bool" for k :: nat and \<sigma>0 :: dcc where
  refl: "dc_reach k \<sigma>0 \<sigma>0"
| step: "dc_reach k \<sigma>0 \<sigma> \<Longrightarrow> dc_step k \<sigma> \<sigma>' \<Longrightarrow> dc_reach k \<sigma>0 \<sigma>'"

inductive_cases dc_stepE: "dc_step k \<sigma> \<sigma>'"

lemma move_simps [simp]:
  "buffered (move \<sigma> t w) = buffered \<sigma>" "wBuffWaiter (move \<sigma> t w) = wBuffWaiter \<sigma>"
  "callback (move \<sigma> t w) = callback \<sigma>" "writers (move \<sigma> t w) = (writers \<sigma>)(t := w)"
  by (simp_all add: move_def)

lemma released_simps [simp]:
  "wBuffWaiter (released \<sigma> n) = wBuffWaiter \<sigma>" "writers (released \<sigma> n) = writers \<sigma>"
  "buffered (released \<sigma> n) = buffered \<sigma> - n"
  "callback (released \<sigma> n) \<noteq> Counting" "callback (released \<sigma> n) \<noteq> Sending"
  by (simp_all add: released_def)

section \<open>The invariant\<close>

text \<open>
  The counter is the number of waiting writers, plus one between a send and its decrement; at a
  send it is not zero.
\<close>

definition waiting :: "nat \<Rightarrow> dcc \<Rightarrow> nat set" where
  "waiting k \<sigma> = {t. t < k \<and> writers \<sigma> t = Waiting}"

definition dc_inv :: "nat \<Rightarrow> dcc \<Rightarrow> bool" where
  "dc_inv k \<sigma> \<longleftrightarrow>
     wBuffWaiter \<sigma> = int (card (waiting k \<sigma>)) + (if callback \<sigma> = Counting then 1 else 0)
   \<and> (callback \<sigma> = Sending \<longrightarrow> waiting k \<sigma> \<noteq> {})"

lemma finite_waiting [simp]: "finite (waiting k \<sigma>)"
  by (simp add: waiting_def)

lemma waiting_upd:
  "t < k \<Longrightarrow> waiting k (\<sigma>\<lparr>writers := (writers \<sigma>)(t := Waiting)\<rparr>) = insert t (waiting k \<sigma>)"
  "w \<noteq> Waiting \<Longrightarrow> waiting k (\<sigma>\<lparr>writers := (writers \<sigma>)(t := w)\<rparr>) = waiting k \<sigma> - {t}"
  by (auto simp: waiting_def)

lemma waiting_other [simp]:
  "waiting k (\<sigma>\<lparr>callback := c\<rparr>) = waiting k \<sigma>" "waiting k (\<sigma>\<lparr>wBuffWaiter := w\<rparr>) = waiting k \<sigma>"
  "waiting k (\<sigma>\<lparr>buffered := b\<rparr>) = waiting k \<sigma>" "waiting k (released \<sigma> n) = waiting k \<sigma>"
  by (simp_all add: waiting_def)

lemma dc_step_inv: "dc_step k \<sigma> \<sigma>' \<Longrightarrow> dc_inv k \<sigma> \<Longrightarrow> dc_inv k \<sigma>'"
proof (induction rule: dc_step.induct)
  case (test_pass t \<sigma>)
  then have "t \<notin> waiting k \<sigma>" by (simp add: waiting_def)
  with test_pass show ?case by (simp add: dc_inv_def move_def waiting_upd)
next
  case (test_full t \<sigma>)
  then have "t \<notin> waiting k \<sigma>" by (simp add: waiting_def)
  with test_full show ?case by (simp add: dc_inv_def move_def waiting_upd)
next
  case (count_up t \<sigma>)
  then have "t \<notin> waiting k \<sigma>" by (simp add: waiting_def)
  with count_up show ?case by (auto simp: dc_inv_def move_def waiting_upd)
next
  case (put t \<sigma> n)
  then have "t \<notin> waiting k \<sigma>" by (simp add: waiting_def)
  with put show ?case by (simp add: dc_inv_def move_def waiting_upd)
next
  case (release \<sigma> n)
  then show ?case by (auto simp: dc_inv_def)
next
  case (test_more \<sigma>)
  then show ?case by (auto simp: dc_inv_def)
next
  case (wake \<sigma> t)
  then have t: "t \<in> waiting k \<sigma>" by (simp add: waiting_def)
  then have "int (card (waiting k \<sigma> - {t})) = int (card (waiting k \<sigma>)) - 1"
    by (simp add: card_gt_0_iff of_nat_diff Suc_leI)
      (metis One_nat_def Suc_leI card_gt_0_iff empty_iff finite_waiting of_nat_1 of_nat_diff)
  with wake show ?case by (simp add: dc_inv_def move_def waiting_upd)
qed (simp_all add: dc_inv_def)

lemma dc_reach_inv: "dc_reach k \<sigma>0 \<sigma> \<Longrightarrow> dc_inv k \<sigma>0 \<Longrightarrow> dc_inv k \<sigma>"
  by (induction rule: dc_reach.induct) (auto dest: dc_step_inv)

lemma new_dcc_inv: "dc_inv k new_dcc"
  by (simp add: dc_inv_def new_dcc_def waiting_def)

section \<open>Properties\<close>

text \<open>A run of one writer up to the point where its second write has found the buffer full.\<close>

lemma one_writer_full:
  "dc_reach 1 new_dcc \<lparr>buffered = 2 * wBuffMax, wBuffWaiter = 0, writers = (\<lambda>_. Idle)(0 := Full), callback = Returned\<rparr>"
proof -
  note s = dc_reach.step
  have 1: "dc_reach 1 new_dcc (move new_dcc 0 Passed)"
    by (rule s [OF dc_reach.refl], rule dc_step.test_pass) (simp_all add: new_dcc_def)
  have 2: "dc_reach 1 new_dcc (move (move new_dcc 0 Passed) 0 Idle\<lparr>buffered := 0 + 2 * wBuffMax\<rparr>)"
    using s [OF 1 dc_step.put [of 0 1 "move new_dcc 0 Passed" "2 * wBuffMax"]] by (simp add: new_dcc_def)
  let ?\<sigma> = "move (move new_dcc 0 Passed) 0 Idle\<lparr>buffered := 0 + 2 * wBuffMax\<rparr>"
  have "dc_reach 1 new_dcc (move ?\<sigma> 0 Full)"
    by (rule s [OF 2], rule dc_step.test_full) (simp_all add: wBuffMax_def)
  then show ?thesis by (simp add: move_def new_dcc_def)
qed

lemma one_writer_sending:
  "dc_reach 1 new_dcc \<lparr>buffered = 0, wBuffWaiter = 1, writers = (\<lambda>_. Idle)(0 := Waiting), callback = Sending\<rparr>"
proof -
  let ?f = "\<lparr>buffered = 2 * wBuffMax, wBuffWaiter = 0, writers = (\<lambda>_. Idle)(0 := Full), callback = Returned\<rparr>"
  have 1: "dc_reach 1 new_dcc (move ?f 0 Waiting\<lparr>wBuffWaiter := wBuffWaiter ?f + 1\<rparr>)"
    by (rule dc_reach.step [OF one_writer_full], rule dc_step.count_up) simp_all
  let ?w = "move ?f 0 Waiting\<lparr>wBuffWaiter := wBuffWaiter ?f + 1\<rparr>"
  have 2: "dc_reach 1 new_dcc (released ?w (2 * wBuffMax))"
    by (rule dc_reach.step [OF 1], rule dc_step.release) simp_all
  have "dc_reach 1 new_dcc (released ?w (2 * wBuffMax)\<lparr>callback := Sending\<rparr>)"
    by (rule dc_reach.step [OF 2], rule dc_step.test_more)
      (simp_all add: released_def wBuffMax_def wBuffLow_def)
  then show ?thesis by (simp add: move_def released_def)
qed

text \<open>C28. The callback never hangs at a send, and so never holds up the connection: whenever it is
  about to send, some writer is at the receiving end, because the counter is at every moment the
  number of waiting writers, plus one while the callback has yet to count the one it woke.\<close>

theorem callback_never_blocks:
  assumes "dc_reach k new_dcc \<sigma>"
  shows "wBuffWaiter \<sigma> = int (card {t. t < k \<and> writers \<sigma> t = Waiting})
           + (if callback \<sigma> = Counting then 1 else 0)
    \<and> (callback \<sigma> = Sending \<longrightarrow> (\<exists>\<sigma>'. dc_step k \<sigma> \<sigma>' \<and> callback \<sigma>' = Counting))"
proof -
  have inv: "dc_inv k \<sigma>" by (rule dc_reach_inv [OF assms new_dcc_inv])
  have "\<exists>\<sigma>'. dc_step k \<sigma> \<sigma>' \<and> callback \<sigma>' = Counting" if c: "callback \<sigma> = Sending"
  proof -
    obtain t where "t < k" "writers \<sigma> t = Waiting"
      using inv c by (auto simp: dc_inv_def waiting_def)
    with dc_step.wake [OF c] show ?thesis by fastforce
  qed
  with inv show ?thesis by (simp add: dc_inv_def waiting_def)
qed

theorem callback_never_blocks_witness:
  "\<exists>\<sigma> \<sigma>'. dc_reach 1 new_dcc \<sigma> \<and> callback \<sigma> = Sending \<and> dc_step 1 \<sigma> \<sigma>' \<and> callback \<sigma>' = Counting"
proof -
  let ?\<sigma> = "\<lparr>buffered = 0, wBuffWaiter = 1, writers = (\<lambda>_. Idle)(0 := Waiting), callback = Sending\<rparr>"
  have "callback ?\<sigma> = Sending" by simp
  with callback_never_blocks [OF one_writer_sending] one_writer_sending show ?thesis by blast
qed

text \<open>A wake-up can be lost. A writer that has found the buffer full, but has not yet counted
  itself when the buffer drains, waits for ever: no run of the connection from there on wakes it,
  although nothing is buffered.\<close>

lemma wakeup_can_be_lost:
  "\<exists>\<sigma>. dc_reach 1 new_dcc \<sigma> \<and> buffered \<sigma> = 0 \<and> writers \<sigma> 0 = Waiting
     \<and> \<not> (\<exists>\<sigma>'. dc_reach 1 \<sigma> \<sigma>' \<and> writers \<sigma>' 0 \<noteq> Waiting)"
proof -
  let ?f = "\<lparr>buffered = 2 * wBuffMax, wBuffWaiter = 0, writers = (\<lambda>_. Idle)(0 := Full), callback = Returned\<rparr>"
  let ?r = "released ?f (2 * wBuffMax)"
  have 1: "dc_reach 1 new_dcc ?r"
    by (rule dc_reach.step [OF one_writer_full], rule dc_step.release) simp_all
  have 2: "dc_reach 1 new_dcc (?r\<lparr>callback := Returned\<rparr>)"
    by (rule dc_reach.step [OF 1], rule dc_step.test_zero)
      (simp_all add: released_def wBuffMax_def wBuffLow_def)
  let ?z = "?r\<lparr>callback := Returned\<rparr>"
  have 3: "dc_reach 1 new_dcc (move ?z 0 Waiting\<lparr>wBuffWaiter := wBuffWaiter ?z + 1\<rparr>)" (is "dc_reach _ _ ?\<sigma>")
    by (rule dc_reach.step [OF 2], rule dc_step.count_up) simp_all
  have stuck: "buffered \<sigma>' = 0 \<and> writers \<sigma>' 0 = Waiting \<and> callback \<sigma>' = Returned"
    if "dc_reach 1 ?\<sigma> \<sigma>'" for \<sigma>'
    using that
  proof (induction rule: dc_reach.induct)
    case refl
    show ?case by (simp add: released_def)
  next
    case (step \<sigma>1 \<sigma>2)
    from step.hyps(2) step.IH show ?case
      by (cases rule: dc_step.cases) (auto simp: released_def)
  qed
  then have "\<not> (\<exists>\<sigma>'. dc_reach 1 ?\<sigma> \<sigma>' \<and> writers \<sigma>' 0 \<noteq> Waiting)" by blast
  with 3 stuck [OF dc_reach.refl] show ?thesis by blast
qed

end
