(* ===== verification/DataRead.thy ===== *)
theory DataRead
  imports Prelude
begin

text \<open>
  \<open>DataChannelConn.Read\<close> of \<open>datachannel-conn.go\<close>: \<open>smux\<close> reads a stream of bytes, the data channel
  gives messages, and a buffered reader of \<open>math.MaxUint16\<close> bytes stands between them.

  The detached channel is outside: \<open>src n s\<close> is its \<open>Read\<close> into \<open>n\<close> bytes, \<open>None\<close> while it waits, with
  the channel it leaves. \<open>whole_messages\<close> is what it documents: a message that fits the buffer is
  returned whole, and with no message left a read waits or is an error without data.
\<close>

section \<open>Reading\<close>

definition rBuff :: nat where "rBuff = 65535"

record ('s, 'e) reader =
  rd_buf :: bytes
  rd_err :: "'e option"
  rd_src :: 's

definition new_reader :: "'s \<Rightarrow> ('s, 'e) reader" where
  "new_reader s = \<lparr>rd_buf = [], rd_err = None, rd_src = s\<rparr>"

type_synonym ('s, 'e) source = "nat \<Rightarrow> 's \<Rightarrow> ('s \<times> bytes \<times> 'e option) option"

definition dcc_Read ::
    "('s, 'e) source \<Rightarrow> nat \<Rightarrow> ('s, 'e) reader \<Rightarrow> (('s, 'e) reader \<times> bytes \<times> 'e option) option" where
  "dcc_Read src m \<rho> =
     (if m = 0 then
        (if rd_buf \<rho> \<noteq> [] then Some (\<rho>, [], None) else Some (\<rho>\<lparr>rd_err := None\<rparr>, [], rd_err \<rho>))
      else if rd_buf \<rho> \<noteq> [] then
        Some (\<rho>\<lparr>rd_buf := drop m (rd_buf \<rho>)\<rparr>, take m (rd_buf \<rho>), None)
      else if rd_err \<rho> \<noteq> None then Some (\<rho>\<lparr>rd_err := None\<rparr>, [], rd_err \<rho>)
      else if rBuff \<le> m then
        (case src m (rd_src \<rho>) of
           None \<Rightarrow> None
         | Some (s, b, e) \<Rightarrow> Some (\<rho>\<lparr>rd_src := s\<rparr>, b, e))
      else
        (case src rBuff (rd_src \<rho>) of
           None \<Rightarrow> None
         | Some (s, b, e) \<Rightarrow>
             if b = [] then Some (\<rho>\<lparr>rd_src := s\<rparr>, [], e)
             else Some (\<lparr>rd_buf = drop m b, rd_err = e, rd_src = s\<rparr>, take m b, None)))"

text \<open>Reads one after the other, up to the first that waits or fails.\<close>

fun dcc_Reads ::
    "('s, 'e) source \<Rightarrow> nat list \<Rightarrow> ('s, 'e) reader \<Rightarrow> (('s, 'e) reader \<times> bytes list) option" where
  "dcc_Reads src [] \<rho> = Some (\<rho>, [])"
| "dcc_Reads src (m # ms) \<rho> =
     (case dcc_Read src m \<rho> of
        Some (\<rho>', b, None) \<Rightarrow> map_option (apsnd ((#) b)) (dcc_Reads src ms \<rho>')
      | _ \<Rightarrow> None)"

definition whole_messages :: "('s, 'e) source \<Rightarrow> ('s \<Rightarrow> bytes list) \<Rightarrow> bool" where
  "whole_messages src pending \<longleftrightarrow>
     (\<forall>n s c cs. pending s = c # cs \<and> length c \<le> n \<longrightarrow> (\<exists>s'. src n s = Some (s', c, None) \<and> pending s' = cs))
   \<and> (\<forall>n s s' b e. pending s = [] \<and> src n s = Some (s', b, e) \<longrightarrow> b = [] \<and> e \<noteq> None)"

section \<open>Nothing is lost\<close>

text \<open>All bytes still to come, and the states in which no error is kept back.\<close>

definition to_come :: "('s \<Rightarrow> bytes list) \<Rightarrow> ('s, 'e) reader \<Rightarrow> bytes" where
  "to_come pending \<rho> = rd_buf \<rho> @ concat (pending (rd_src \<rho>))"

definition reader_ok :: "('s \<Rightarrow> bytes list) \<Rightarrow> ('s, 'e) reader \<Rightarrow> bool" where
  "reader_ok pending \<rho> \<longleftrightarrow> rd_err \<rho> = None \<and> (\<forall>c\<in>set (pending (rd_src \<rho>)). length c \<le> rBuff)"

lemma read_from_buffer:
  "m = 0 \<or> rd_buf \<rho> \<noteq> [] \<Longrightarrow> reader_ok pending \<rho> \<Longrightarrow>
     dcc_Read src m \<rho> = Some (\<rho>\<lparr>rd_buf := drop m (rd_buf \<rho>)\<rparr>, take m (rd_buf \<rho>), None)"
  by (auto simp: dcc_Read_def reader_ok_def)

lemma read_message:
  assumes "whole_messages src pending" and "reader_ok pending \<rho>" and "0 < m" and "rd_buf \<rho> = []"
    and "pending (rd_src \<rho>) = c # cs"
  shows "\<exists>s. pending s = cs \<and> dcc_Read src m \<rho> = Some (\<lparr>rd_buf = drop m c, rd_err = None, rd_src = s\<rparr>, take m c, None)"
proof -
  have l: "length c \<le> rBuff" "rd_err \<rho> = None" using assms(2,5) by (simp_all add: reader_ok_def)
  have w: "\<exists>s. src n (rd_src \<rho>) = Some (s, c, None) \<and> pending s = cs" if "rBuff \<le> n" for n
    using assms(1,5) l(1) that unfolding whole_messages_def by fastforce
  show ?thesis
  proof (cases "rBuff \<le> m")
    case True
    with w [OF True] l assms(3,4) show ?thesis by (auto simp: dcc_Read_def)
  next
    case False
    with w [of rBuff] l assms(3,4) show ?thesis by (cases \<rho>) (auto simp: dcc_Read_def)
  qed
qed

lemma read_step:
  assumes "whole_messages src pending" and "reader_ok pending \<rho>" and "dcc_Read src m \<rho> = Some (\<rho>', b, None)"
  shows "reader_ok pending \<rho>' \<and> b @ to_come pending \<rho>' = to_come pending \<rho> \<and> length b \<le> m
    \<and> length (pending (rd_src \<rho>)) \<le> length (pending (rd_src \<rho>')) + 1"
proof -
  consider (buffered) "m = 0 \<or> rd_buf \<rho> \<noteq> []" | (message) c cs where "0 < m" "rd_buf \<rho> = []" "pending (rd_src \<rho>) = c # cs"
    | (over) "0 < m" "rd_buf \<rho> = []" "pending (rd_src \<rho>) = []"
    by (cases "pending (rd_src \<rho>)") auto
  then show ?thesis
  proof cases
    case buffered
    from read_from_buffer [OF this assms(2), of src] assms(2,3) show ?thesis
      by (auto simp: reader_ok_def to_come_def)
  next
    case message
    from read_message [OF assms(1,2) message] assms(2,3) message show ?thesis
      by (auto simp: reader_ok_def to_come_def)
  next
    case over
    then have "b' = [] \<and> e \<noteq> None" if "src n (rd_src \<rho>) = Some (s', b', e)" for n s' b' e
      using assms(1) that unfolding whole_messages_def by blast
    note this [of m] this [of rBuff]
    with over assms(2,3) have False
      by (auto simp: dcc_Read_def reader_ok_def split: if_splits option.splits)
    then show ?thesis ..
  qed
qed

lemma read_progress:
  assumes "whole_messages src pending" and "reader_ok pending \<rho>" and "pending (rd_src \<rho>) \<noteq> []"
  shows "\<exists>\<rho>' b. dcc_Read src m \<rho> = Some (\<rho>', b, None)"
proof (cases "m = 0 \<or> rd_buf \<rho> \<noteq> []")
  case True
  from read_from_buffer [OF this assms(2)] show ?thesis by blast
next
  case False
  from assms(3) obtain c cs where "pending (rd_src \<rho>) = c # cs" by (cases "pending (rd_src \<rho>)") auto
  with read_message [OF assms(1,2)] False show ?thesis by blast
qed

lemma reads_sound:
  assumes "whole_messages src pending"
  shows "reader_ok pending \<rho> \<Longrightarrow> dcc_Reads src ms \<rho> = Some (\<rho>', bs) \<Longrightarrow>
     concat bs @ to_come pending \<rho>' = to_come pending \<rho> \<and> list_all2 (\<lambda>b m. length b \<le> m) bs ms"
proof (induction ms arbitrary: \<rho> bs)
  case (Cons m ms)
  then obtain \<rho>1 b bs1 where r: "dcc_Read src m \<rho> = Some (\<rho>1, b, None)" "dcc_Reads src ms \<rho>1 = Some (\<rho>', bs1)"
    "bs = b # bs1" by (auto split: option.splits)
  from read_step [OF assms Cons.prems(1) r(1)] Cons.IH [OF _ r(2)] r(3) show ?case by auto
qed simp

lemma reads_progress:
  assumes "whole_messages src pending"
  shows "reader_ok pending \<rho> \<Longrightarrow> length ms \<le> length (pending (rd_src \<rho>)) \<Longrightarrow> \<exists>\<rho>' bs. dcc_Reads src ms \<rho> = Some (\<rho>', bs)"
proof (induction ms arbitrary: \<rho>)
  case (Cons m ms)
  then have "pending (rd_src \<rho>) \<noteq> []" by auto
  from read_progress [OF assms Cons.prems(1) this] obtain \<rho>1 b where r: "dcc_Read src m \<rho> = Some (\<rho>1, b, None)"
    by blast
  from read_step [OF assms Cons.prems(1) r] Cons.prems(2) Cons.IH [of \<rho>1] r show ?case by fastforce
qed simp

text \<open>C33. The buffered reader makes a stream of the messages: with messages of at most 65535 bytes waiting,
  reads into buffers of any sizes, small ones and empty ones included, get as far as there are
  messages, and what they return, one after the other, and what is still buffered or waiting are
  together exactly the bytes of the messages in order.\<close>

theorem reads_lose_nothing:
  assumes "whole_messages src pending" and "\<forall>c\<in>set (pending s). length c \<le> 65535"
  shows "(length ms \<le> length (pending s) \<longrightarrow> (\<exists>\<rho> bs. dcc_Reads src ms (new_reader s) = Some (\<rho>, bs)))
    \<and> (\<forall>\<rho> bs. dcc_Reads src ms (new_reader s) = Some (\<rho>, bs) \<longrightarrow>
          concat bs @ rd_buf \<rho> @ concat (pending (rd_src \<rho>)) = concat (pending s)
          \<and> list_all2 (\<lambda>b m. length b \<le> m) bs ms)"
proof -
  let ?\<rho> = "new_reader s"
  have ok: "reader_ok pending ?\<rho>" using assms(2) by (simp add: reader_ok_def new_reader_def rBuff_def)
  have t: "to_come pending ?\<rho> = concat (pending s)" "rd_src ?\<rho> = s" by (simp_all add: to_come_def new_reader_def)
  show ?thesis
    using reads_progress [OF assms(1) ok, of ms] reads_sound [OF assms(1) ok, of ms]
    unfolding t by (simp add: to_come_def)
qed

text \<open>A channel that gives its messages whole, and refuses a buffer too small for the next.\<close>

fun demo_source :: "(bytes list, bool) source" where
  "demo_source n [] = Some ([], [], Some False)"
| "demo_source n (c # cs) = (if length c \<le> n then Some (cs, c, None) else Some (cs, [], Some True))"

theorem reads_lose_nothing_witness:
  "\<exists>\<rho> bs. dcc_Reads demo_source [2, 0, 5] (new_reader [''abc'', ''de'', ''f'']) = Some (\<rho>, bs)
     \<and> concat bs @ rd_buf \<rho> @ concat (rd_src \<rho>) = ''abcdef''"
proof -
  have w: "whole_messages demo_source id" by (auto simp: whole_messages_def)
  have l: "\<forall>c\<in>set (id [''abc'', ''de'', ''f'']). length c \<le> 65535" by simp
  note a = reads_lose_nothing [of demo_source id "[''abc'', ''de'', ''f'']" "[2, 0, 5]", OF w l]
  have "\<exists>\<rho> bs. dcc_Reads demo_source [2, 0, 5] (new_reader [''abc'', ''de'', ''f'']) = Some (\<rho>, bs)"
    by (rule mp [OF conjunct1 [OF a]]) simp
  then obtain \<rho> bs where r: "dcc_Reads demo_source [2, 0, 5] (new_reader [''abc'', ''de'', ''f'']) = Some (\<rho>, bs)"
    by (elim exE)
  note c = conjunct1 [OF mp [OF spec [OF spec [OF conjunct2 [OF a]]] r]]
  from c have "concat bs @ rd_buf \<rho> @ concat (rd_src \<rho>) = ''abcdef''" by simp
  with r show ?thesis by (intro exI conjI)
qed

end
