(* ===== verification/Utils.thy ===== *)
theory Utils
  imports GoBufio "HOL-Library.Sublist"
begin

text \<open>
  \<open>utils.go\<close>: sending, receiving and closing on a channel under a context, and the relay between
  two connections.

  A context is \<open>None\<close> while it is alive and its error once it is done. A channel without a buffer
  is whether it is closed, the number of receivers blocked at it, the values of the senders
  blocked at it, and what it has handed to blocked receivers so far. A \<open>select\<close> takes any of its
  cases that is ready, so a helper is the list of its possible outcomes, each with the channel it
  leaves behind; an empty list is a call that blocks.
\<close>

section \<open>Channels\<close>

datatype ctx_error = Canceled | DeadlineExceeded

type_synonym go_ctx = "ctx_error option"

datatype chan_error = CtxErr ctx_error | ErrChannelClosed | RecoveredPanic

record 'a chan =
  ch_closed :: bool
  ch_receivers :: nat
  ch_senders :: "'a list"
  ch_handed :: "'a list"

type_synonym ('s, 'a) outcomes = "('s \<times> (chan_error, 'a) res) list"

definition new_chan :: "'a chan" where
  "new_chan = \<lparr>ch_closed = False, ch_receivers = 0, ch_senders = [], ch_handed = []\<rparr>"

text \<open>The cases \<open><-ctx.Done()\<close>, \<open>c <- t\<close> and \<open><-c\<close> of a select.\<close>

definition case_done :: "go_ctx \<Rightarrow> 's \<Rightarrow> ('s, 'a) outcomes" where
  "case_done ctx s = (case ctx of None \<Rightarrow> [] | Some e \<Rightarrow> [(s, Err (CtxErr e))])"

definition case_send :: "'a chan \<Rightarrow> 'a \<Rightarrow> ('a chan, unit) outcomes" where
  "case_send c t =
     (if ch_closed c then [(c, Panic)]
      else if 0 < ch_receivers c then
        [(c\<lparr>ch_receivers := ch_receivers c - 1, ch_handed := ch_handed c @ [t]\<rparr>, Ok ())]
      else [])"

definition case_recv :: "'a chan \<Rightarrow> ('a chan, 'a) outcomes" where
  "case_recv c =
     (case ch_senders c of
        t # ts \<Rightarrow> [(c\<lparr>ch_senders := ts\<rparr>, Ok t)]
      | [] \<Rightarrow> if ch_closed c then [(c, Err ErrChannelClosed)] else [])"

text \<open>The deferred function that turns a panic into the returned error.\<close>

fun recovering :: "(chan_error, 'a) res \<Rightarrow> (chan_error, 'a) res" where
  "recovering Panic = Err RecoveredPanic"
| "recovering r = r"

definition chanSend :: "go_ctx \<Rightarrow> 'a chan \<Rightarrow> 'a \<Rightarrow> ('a chan, unit) outcomes" where
  "chanSend ctx c t = map (apsnd recovering) (case_done ctx c @ case_send c t)"

definition chanRecv :: "go_ctx \<Rightarrow> 'a chan \<Rightarrow> ('a chan, 'a) outcomes" where
  "chanRecv ctx c = case_done ctx c @ case_recv c"

text \<open>
  \<open>close\<close> wakes the blocked receivers, which find the channel closed, and makes the blocked senders
  panic; both leave the channel.
\<close>

definition go_close :: "'a chan \<Rightarrow> 'a chan \<times> (chan_error, unit) res" where
  "go_close c =
     (if ch_closed c then (c, Panic)
      else (c\<lparr>ch_closed := True, ch_receivers := 0, ch_senders := []\<rparr>, Ok ()))"

definition chanClose :: "'a chan \<Rightarrow> 'a chan \<times> (chan_error, unit) res" where
  "chanClose c = apsnd recovering (go_close c)"

text \<open>Nobody waits at a closed channel, and a sender and a receiver never both wait.\<close>

definition chan_ok :: "'a chan \<Rightarrow> bool" where
  "chan_ok c \<longleftrightarrow>
     (ch_closed c \<longrightarrow> ch_receivers c = 0 \<and> ch_senders c = []) \<and> (ch_receivers c = 0 \<or> ch_senders c = [])"

lemma chan_ok_new [simp]: "chan_ok new_chan"
  by (simp add: chan_ok_def new_chan_def)

lemma recovering_not_Panic [simp]: "recovering r \<noteq> Panic"
  by (cases r) auto

lemma in_chanSend:
  "(c', r) \<in> set (chanSend ctx c t) \<longleftrightarrow>
     (\<exists>e. ctx = Some e \<and> c' = c \<and> r = Err (CtxErr e))
     \<or> ch_closed c \<and> c' = c \<and> r = Err RecoveredPanic
     \<or> \<not> ch_closed c \<and> 0 < ch_receivers c \<and> r = Ok ()
       \<and> c' = c\<lparr>ch_receivers := ch_receivers c - 1, ch_handed := ch_handed c @ [t]\<rparr>"
  by (auto simp: chanSend_def case_done_def case_send_def split: option.splits)

lemma in_chanRecv:
  "(c', r) \<in> set (chanRecv ctx c) \<longleftrightarrow>
     (\<exists>e. ctx = Some e \<and> c' = c \<and> r = Err (CtxErr e))
     \<or> (\<exists>t ts. ch_senders c = t # ts \<and> c' = c\<lparr>ch_senders := ts\<rparr> \<and> r = Ok t)
     \<or> ch_senders c = [] \<and> ch_closed c \<and> c' = c \<and> r = Err ErrChannelClosed"
  by (auto simp: chanRecv_def case_done_def case_recv_def split: option.splits list.splits)

lemma chanSend_blocks: "chanSend ctx c t = [] \<longleftrightarrow> ctx = None \<and> \<not> ch_closed c \<and> ch_receivers c = 0"
  by (auto simp: chanSend_def case_done_def case_send_def split: option.splits)

lemma chanRecv_blocks: "chanRecv ctx c = [] \<longleftrightarrow> ctx = None \<and> \<not> ch_closed c \<and> ch_senders c = []"
  by (auto simp: chanRecv_def case_done_def case_recv_def split: option.splits list.splits)

lemma chanClose_eq:
  "chanClose c = (if ch_closed c then (c, Err RecoveredPanic)
     else (c\<lparr>ch_closed := True, ch_receivers := 0, ch_senders := []\<rparr>, Ok ()))"
  by (simp add: chanClose_def go_close_def)

section \<open>The relay\<close>

text \<open>
  One side of a relay: what its peer will send and how that ends, what was written to it, and
  whether it was closed. A peer that stays silent has the end \<open>Waits\<close>.
\<close>

record rwc =
  rw_in :: conn
  rw_out :: bytes
  rw_closed :: bool

datatype copy_error = ReadErr read_err | WriteErr | UseOfClosed

text \<open>
  Where a copying goroutine stands in \<open>io.Copy\<close> and after it: before a read, before the write of what it
  read, before the deferred \<open>Close\<close> of its destination, or done.
\<close>

datatype copy_pc = Reading | Holding bytes | Closing "copy_error option" | Finished "copy_error option"

definition copyBuf :: nat where "copyBuf = 32 * 1024"

text \<open>
  The next action of a copy. The network decides whether a write fails, and after how many bytes;
  \<open>None\<close> as result is a read that waits.
\<close>

fun copy_next :: "nat option \<Rightarrow> rwc \<Rightarrow> rwc \<Rightarrow> copy_pc \<Rightarrow> (rwc \<times> rwc \<times> copy_pc) option" where
  "copy_next w src dst Reading =
     (if rw_closed src then Some (src, dst, Closing (Some UseOfClosed))
      else case conn_read copyBuf (rw_in src) of
        None \<Rightarrow> None
      | Some (b, None, cn) \<Rightarrow> Some (src\<lparr>rw_in := cn\<rparr>, dst, Holding b)
      | Some (b, Some e, cn) \<Rightarrow>
          Some (src\<lparr>rw_in := cn\<rparr>, dst, Closing (if e = EOF then None else Some (ReadErr e))))"
| "copy_next w src dst (Holding b) =
     (if rw_closed dst then Some (src, dst, Closing (Some UseOfClosed))
      else case w of
        None \<Rightarrow> Some (src, dst\<lparr>rw_out := rw_out dst @ b\<rparr>, Reading)
      | Some n \<Rightarrow> Some (src, dst\<lparr>rw_out := rw_out dst @ take n b\<rparr>, Closing (Some WriteErr)))"
| "copy_next w src dst (Closing e) = Some (src, dst\<lparr>rw_closed := True\<rparr>, Finished e)"
| "copy_next w src dst (Finished e) = None"

record relay =
  side_a :: rwc
  side_b :: rwc
  copy_ab :: copy_pc
  copy_ba :: copy_pc

definition relay_start :: "conn \<Rightarrow> conn \<Rightarrow> relay" where
  "relay_start a b =
     \<lparr>side_a = \<lparr>rw_in = a, rw_out = [], rw_closed = False\<rparr>,
      side_b = \<lparr>rw_in = b, rw_out = [], rw_closed = False\<rparr>, copy_ab = Reading, copy_ba = Reading\<rparr>"

inductive relay_step :: "relay \<Rightarrow> relay \<Rightarrow> bool" where
  ab: "copy_next w (side_a \<rho>) (side_b \<rho>) (copy_ab \<rho>) = Some (a, b, pc) \<Longrightarrow>
    relay_step \<rho> (\<rho>\<lparr>side_a := a, side_b := b, copy_ab := pc\<rparr>)"
| ba: "copy_next w (side_b \<rho>) (side_a \<rho>) (copy_ba \<rho>) = Some (b, a, pc) \<Longrightarrow>
    relay_step \<rho> (\<rho>\<lparr>side_a := a, side_b := b, copy_ba := pc\<rparr>)"

inductive_cases relay_stepE: "relay_step \<rho> \<rho>'"

text \<open>
  The \<open>switch\<close> after both goroutines are done. \<open>errors.Is(io.EOF, err)\<close> holds for \<open>io.EOF\<close> itself only.
\<close>

definition relay_result :: "copy_error option \<Rightarrow> copy_error option \<Rightarrow> copy_error list option" where
  "relay_result errA errB =
     (case (errA, errB) of
        (Some x, Some y) \<Rightarrow> if x = ReadErr EOF \<or> y = ReadErr EOF then None else Some [x, y]
      | _ \<Rightarrow> None)"

fun relay_returns :: "relay \<Rightarrow> copy_error list option option" where
  "relay_returns \<rho> =
     (case (copy_ab \<rho>, copy_ba \<rho>) of
        (Finished x, Finished y) \<Rightarrow> Some (relay_result x y)
      | _ \<Rightarrow> None)"

end
