(* ===== verification/Detach.thy ===== *)
theory Detach
  imports Utils GoTime
begin

text \<open>
  The rest of \<open>datachannel-conn.go\<close>: waiting for a data channel to open and detaching it, the deadline
  of a write, and the addresses of the connection.
\<close>

section \<open>Detaching\<close>

text \<open>
  What happens to a channel that is not open yet; the handlers share a \<open>sync.Once\<close>, so that only the
  first of these counts. \<open>detach_result\<close> is the answer of the library's \<open>Detach\<close>: its error, a
  connection of another type, or the connection.
\<close>

datatype dc_event = DCOpen | DCError bytes | DCClose

datatype detach_error =
    WaitCanceled chan_error | ChannelError bytes | ClosedBeforeOpened | DetachCallFailed | UnexpectedType

datatype detach_result = DetachErr | OtherType | Detached

definition event_error :: "dc_event \<Rightarrow> detach_error option" where
  "event_error e =
     (case e of DCOpen \<Rightarrow> None | DCError x \<Rightarrow> Some (ChannelError x) | DCClose \<Rightarrow> Some ClosedBeforeOpened)"

definition detach_call :: "detach_result \<Rightarrow> (detach_error, unit) res" where
  "detach_call d = (case d of DetachErr \<Rightarrow> Err DetachCallFailed | OtherType \<Rightarrow> Err UnexpectedType | Detached \<Rightarrow> Ok ())"

text \<open>The outcomes, each with whether the channel was closed; an empty list is a wait.\<close>

definition detach :: "go_ctx \<Rightarrow> bool \<Rightarrow> dc_event list \<Rightarrow> detach_result \<Rightarrow> (bool \<times> (detach_error, unit) res) list" where
  "detach ctx is_open events d =
     (if is_open then [(False, detach_call d)]
      else
        let errc = new_chan\<lparr>ch_senders := map event_error (take 1 events)\<rparr> in
        map (\<lambda>(_, r). case r of
            Err e \<Rightarrow> (True, Err (WaitCanceled e))
          | Panic \<Rightarrow> (False, Panic)
          | Ok None \<Rightarrow> (False, detach_call d)
          | Ok (Some x) \<Rightarrow> (False, Err x)) (chanRecv ctx errc))"

section \<open>Deadlines\<close>

text \<open>
  A context of \<open>contextExec\<close>: the background one, or one with a deadline and whether it was cancelled.
\<close>

datatype exec_ctx = NoCtx | Deadline time bool

record context_exec =
  ce_context :: exec_ctx

definition newContextExec :: context_exec where
  "newContextExec = \<lparr>ce_context = NoCtx\<rparr>"

text \<open>
  \<open>exec\<close> at the instant \<open>now\<close>: it returns nil when the function has finished and the error of a context
  whose deadline has passed; a cancelled context only makes it look again.
\<close>

datatype exec_result = ExecDone | ExecDeadline | ExecRetry

definition exec_select :: "context_exec \<Rightarrow> time \<Rightarrow> bool \<Rightarrow> exec_result list" where
  "exec_select ce now finished =
     (if finished then [ExecDone] else []) @
     (case ce_context ce of
        NoCtx \<Rightarrow> []
      | Deadline d cancelled \<Rightarrow>
          if cancelled then [ExecRetry] else if d \<le> now then [ExecDeadline] else [])"

text \<open>
  \<open>setDeadline\<close> has a value receiver: its body works on a copy, and the caller keeps what it had. The
  first component is the copy at the end, the second the caller's value.
\<close>

definition setDeadline :: "time option \<Rightarrow> context_exec \<Rightarrow> context_exec \<times> context_exec" where
  "setDeadline t ce =
     (case t of None \<Rightarrow> ce\<lparr>ce_context := NoCtx\<rparr> | Some d \<Rightarrow> ce\<lparr>ce_context := Deadline d False\<rparr>, ce)"

record dc_conn =
  dcc_wCtx :: context_exec
  dcc_readDeadline :: "time option"

definition new_dc_conn :: dc_conn where
  "new_dc_conn = \<lparr>dcc_wCtx = newContextExec, dcc_readDeadline = None\<rparr>"

definition SetWriteDeadline :: "time option \<Rightarrow> dc_conn \<Rightarrow> dc_conn" where
  "SetWriteDeadline t dcc = dcc\<lparr>dcc_wCtx := snd (setDeadline t (dcc_wCtx dcc))\<rparr>"

text \<open>The deadline of reads is kept by the detached channel, whose call may fail.\<close>

definition SetDeadline :: "bool \<Rightarrow> time option \<Rightarrow> dc_conn \<Rightarrow> dc_conn \<times> bool" where
  "SetDeadline read_ok t dcc =
     (if \<not> read_ok then (dcc, False)
      else (SetWriteDeadline t (dcc\<lparr>dcc_readDeadline := t\<rparr>), True))"

definition addr_Network :: bytes where "addr_Network = ''sctp''"
definition addr_String :: bytes where "addr_String = ''host''"

text \<open>Both ends of a connection have the same address.\<close>

definition LocalAddr :: "dc_conn \<Rightarrow> bytes \<times> bytes" where
  "LocalAddr dcc = (addr_Network, addr_String)"

definition RemoteAddr :: "dc_conn \<Rightarrow> bytes \<times> bytes" where
  "RemoteAddr dcc = (addr_Network, addr_String)"

text \<open>\<open>NewDataChannelConn\<close>: the connection is made of a detached channel; its errors are those of \<open>detach\<close>.\<close>

definition NewDataChannelConn ::
    "go_ctx \<Rightarrow> bool \<Rightarrow> dc_event list \<Rightarrow> detach_result \<Rightarrow> (bool \<times> (detach_error, dc_conn) res) list" where
  "NewDataChannelConn ctx is_open events d =
     map (\<lambda>(closed, r). (closed, rbind r (\<lambda>_. Ok new_dc_conn))) (detach ctx is_open events d)"

section \<open>Properties\<close>

lemma SetWriteDeadline_id [simp]: "SetWriteDeadline t dcc = dcc"
  by (simp add: SetWriteDeadline_def setDeadline_def)

lemma SetDeadlines_wCtx: "dcc_wCtx (fold (\<lambda>(ok, t) d. fst (SetDeadline ok t d)) ds dcc) = dcc_wCtx dcc"
  by (induction ds arbitrary: dcc) (auto simp: SetDeadline_def)

text \<open>The deadline of a write has no effect. After any deadlines on a connection, past ones included,
  a write that has not finished waits at every instant, and returns only when it has finished.\<close>

lemma write_deadline_ignored:
  "exec_select (dcc_wCtx (fold (\<lambda>(ok, t) d. fst (SetDeadline ok t d)) ds new_dc_conn)) now finished
     = (if finished then [ExecDone] else [])"
  by (simp add: SetDeadlines_wCtx new_dc_conn_def newContextExec_def exec_select_def)

text \<open>Detaching answers to the first thing that happens to the channel, and to nothing after it: an
  open channel is detached, an error or a close before it opened is the error, a finished context
  closes the channel, and it waits exactly while nothing has happened and the context lives.\<close>

lemma detach_outcomes:
  "set (detach ctx is_open events d) =
     (if is_open then {(False, detach_call d)}
      else (case ctx of None \<Rightarrow> {} | Some e \<Rightarrow> {(True, Err (WaitCanceled (CtxErr e)))})
        \<union> (case events of
             [] \<Rightarrow> {}
           | DCOpen # _ \<Rightarrow> {(False, detach_call d)}
           | DCError x # _ \<Rightarrow> {(False, Err (ChannelError x))}
           | DCClose # _ \<Rightarrow> {(False, Err ClosedBeforeOpened)}))"
  by (auto simp: detach_def chanRecv_def case_done_def case_recv_def new_chan_def event_error_def
      split: option.splits list.splits dc_event.splits)

text \<open>A connection is made only of a channel that was open or opened first, and was detached; it is then
  not closed.\<close>

lemma NewDataChannelConn_Ok:
  assumes "(closed, Ok dcc) \<in> set (NewDataChannelConn ctx is_open events d)"
  shows "dcc = new_dc_conn \<and> d = Detached \<and> \<not> closed \<and> (is_open \<or> (\<exists>es. events = DCOpen # es))"
  using assms
  by (auto simp: NewDataChannelConn_def detach_outcomes detach_call_def rbind_eq_Ok
      split: if_splits option.splits list.splits dc_event.splits detach_result.splits)

end
