(* ===== verification/RelayRuns.thy ===== *)
theory RelayRuns
  imports Utils
begin

text \<open>
  Properties of \<open>utils.go\<close>: the channel helpers, and the runs of a relay under every interleaving of
  its two goroutines.
\<close>

section \<open>Termination\<close>

fun pc_rank :: "copy_pc \<Rightarrow> nat" where
  "pc_rank Reading = 2"
| "pc_rank (Holding b) = 3"
| "pc_rank (Closing e) = 1"
| "pc_rank (Finished e) = 0"

definition copy_left :: "rwc \<Rightarrow> copy_pc \<Rightarrow> nat" where
  "copy_left src pc = 2 * conn_size (rw_in src) + pc_rank pc"

definition relay_left :: "relay \<Rightarrow> nat" where
  "relay_left \<rho> = copy_left (side_a \<rho>) (copy_ab \<rho>) + copy_left (side_b \<rho>) (copy_ba \<rho>)"

lemma copy_next_left:
  assumes "copy_next w src dst pc = Some (src', dst', pc')"
  shows "copy_left src' pc' < copy_left src pc \<and> rw_in dst' = rw_in dst"
proof (cases pc)
  case Reading
  show ?thesis
  proof (cases "rw_closed src")
    case True
    with Reading assms show ?thesis by (auto simp: copy_left_def)
  next
    case False
    with Reading assms obtain b e cn where r: "conn_read copyBuf (rw_in src) = Some (b, e, cn)"
      by (auto split: option.splits)
    show ?thesis
    proof (cases e)
      case None
      with r have "conn_size cn < conn_size (rw_in src)"
        using conn_read_size [of copyBuf "rw_in src" b cn] by (simp add: copyBuf_def)
      with Reading False assms r None show ?thesis by (auto simp: copy_left_def)
    next
      case (Some x)
      with r have "cn = rw_in src" using conn_read_stop by blast
      with Reading False assms r Some show ?thesis by (auto simp: copy_left_def)
    qed
  qed
qed (use assms in \<open>auto simp: copy_left_def split: if_splits option.splits\<close>)

lemma relay_step_left: "relay_step \<rho> \<rho>' \<Longrightarrow> relay_left \<rho>' < relay_left \<rho>"
  by (erule relay_stepE) (auto simp: relay_left_def copy_left_def dest!: copy_next_left)

lemma relay_steps_left: "(relay_step ^^ n) \<rho> \<rho>' \<Longrightarrow> n + relay_left \<rho>' \<le> relay_left \<rho>"
  by (induction n arbitrary: \<rho>') (fastforce dest: relay_step_left)+

text \<open>A copy is stuck only at the end or at a peer that stays silent.\<close>

lemma copy_next_None:
  "copy_next w src dst pc = None \<longleftrightarrow>
     (\<exists>e. pc = Finished e) \<or> pc = Reading \<and> \<not> rw_closed src \<and> rw_in src = ([], Waits)"
  by (cases pc) (auto simp: conn_read_waits split: option.splits)

section \<open>What gets through\<close>

text \<open>
  The bytes \<open>d\<close> one side will send are, at every moment, what was written to the other side, what
  the goroutine holds and what is still to come, and nothing is missing when the copy ends well.
\<close>

fun copy_inv :: "bytes \<Rightarrow> conn_end \<Rightarrow> rwc \<Rightarrow> rwc \<Rightarrow> copy_pc \<Rightarrow> bool" where
  "copy_inv d e src dst Reading \<longleftrightarrow> d = rw_out dst @ concat (fst (rw_in src)) \<and> snd (rw_in src) = e"
| "copy_inv d e src dst (Holding b) \<longleftrightarrow> d = rw_out dst @ b @ concat (fst (rw_in src)) \<and> snd (rw_in src) = e"
| "copy_inv d e src dst (Closing x) \<longleftrightarrow> prefix (rw_out dst) d \<and> (x = None \<longrightarrow> rw_out dst = d \<and> e = AtEOF)"
| "copy_inv d e src dst (Finished x) \<longleftrightarrow>
     prefix (rw_out dst) d \<and> (x = None \<longrightarrow> rw_out dst = d \<and> e = AtEOF) \<and> rw_closed dst"

lemma copy_next_inv:
  assumes "copy_next w src dst pc = Some (src', dst', pc')" and "copy_inv d e src dst pc"
  shows "copy_inv d e src' dst' pc'"
proof (cases pc)
  case Reading
  show ?thesis
  proof (cases "rw_closed src")
    case True
    with Reading assms show ?thesis by auto
  next
    case False
    with Reading assms obtain b x cn where r: "conn_read copyBuf (rw_in src) = Some (b, x, cn)"
      by (auto split: option.splits)
    show ?thesis
    proof (cases x)
      case None
      with r Reading False assms show ?thesis using conn_read_data [of copyBuf "rw_in src" b cn] by auto
    next
      case (Some y)
      with r Reading False assms show ?thesis
        using conn_read_stop [of copyBuf "rw_in src" b y cn] by auto
    qed
  qed
next
  case (Holding b)
  have "prefix (take n b) (b @ z)" for n z
    by (metis append_take_drop_id append.assoc prefixI)
  with assms Holding show ?thesis by (auto split: if_splits option.splits)
qed (use assms in auto)

text \<open>The other goroutine may close a side and take from its input, but it writes elsewhere.\<close>

lemma copy_next_frame:
  assumes "copy_next w src dst pc = Some (src', dst', pc')"
  shows "rw_out src' = rw_out src \<and> rw_in dst' = rw_in dst \<and> rw_closed src' = rw_closed src
    \<and> (rw_closed dst \<longrightarrow> rw_closed dst')"
  using assms by (cases pc) (auto split: if_splits option.splits)

lemma copy_inv_frame:
  assumes "copy_inv d e src dst pc" and "rw_in src' = rw_in src" and "rw_out dst' = rw_out dst"
    and "rw_closed dst \<longrightarrow> rw_closed dst'"
  shows "copy_inv d e src' dst' pc"
  using assms by (cases pc) auto

definition relay_inv :: "conn \<Rightarrow> conn \<Rightarrow> relay \<Rightarrow> bool" where
  "relay_inv a b \<rho> \<longleftrightarrow>
     copy_inv (concat (fst a)) (snd a) (side_a \<rho>) (side_b \<rho>) (copy_ab \<rho>)
   \<and> copy_inv (concat (fst b)) (snd b) (side_b \<rho>) (side_a \<rho>) (copy_ba \<rho>)"

lemma relay_start_inv: "relay_inv a b (relay_start a b)"
  by (simp add: relay_inv_def relay_start_def)

lemma relay_step_inv:
  assumes "relay_step \<rho> \<rho>'" and "relay_inv a b \<rho>"
  shows "relay_inv a b \<rho>'"
  using assms(1)
proof (cases rule: relay_step.cases)
  case (ab w x y pc)
  with copy_next_inv [OF ab(2)] copy_next_frame [OF ab(2)] assms(2) show ?thesis
    unfolding relay_inv_def by (auto intro: copy_inv_frame)
next
  case (ba w x y pc)
  with copy_next_inv [OF ba(2)] copy_next_frame [OF ba(2)] assms(2) show ?thesis
    unfolding relay_inv_def by (auto intro: copy_inv_frame)
qed

lemma relay_reach_inv: "relay_step\<^sup>*\<^sup>* (relay_start a b) \<rho> \<Longrightarrow> relay_inv a b \<rho>"
  by (induction rule: rtranclp_induct) (auto intro: relay_start_inv relay_step_inv)

section \<open>One direction run to its end\<close>

lemma copy_to_eof:
  assumes "side_a \<rho> = \<lparr>rw_in = (cs, AtEOF), rw_out = u, rw_closed = False\<rparr>" and "\<not> rw_closed (side_b \<rho>)"
    and "copy_ab \<rho> = Reading"
  shows "relay_step\<^sup>*\<^sup>* \<rho> (\<rho>\<lparr>side_a := \<lparr>rw_in = ([], AtEOF), rw_out = u, rw_closed = False\<rparr>,
      side_b := side_b \<rho>\<lparr>rw_out := rw_out (side_b \<rho>) @ concat cs\<rparr>, copy_ab := Closing None\<rparr>)"
  using assms
proof (induction "conn_size (cs, AtEOF)" arbitrary: cs \<rho> rule: less_induct)
  case less
  note a = less.prems(1) and b = less.prems(2) and pc = less.prems(3)
  show ?case
  proof (cases cs)
    case Nil
    have "relay_step \<rho> (\<rho>\<lparr>side_a := \<lparr>rw_in = ([], AtEOF), rw_out = u, rw_closed = False\<rparr>,
        side_b := side_b \<rho>, copy_ab := Closing None\<rparr>)"
      by (rule relay_step.ab [where w = None]) (simp add: a pc Nil)
    then show ?thesis using Nil by (cases "side_b \<rho>") simp
  next
    case (Cons c cs0)
    obtain h cs' where r: "conn_read copyBuf (cs, AtEOF) = Some (h, None, cs', AtEOF)"
      by (cases "length c \<le> copyBuf") (auto simp: Cons)
    have size: "conn_size (cs', AtEOF) < conn_size (cs, AtEOF)"
      using conn_read_size [OF r] by (simp add: copyBuf_def)
    have data: "concat cs = h @ concat cs'" using conn_read_data [OF r] by simp
    let ?s = "\<lparr>rw_in = (cs', AtEOF), rw_out = u, rw_closed = False\<rparr>"
    let ?h = "\<rho>\<lparr>side_a := ?s, side_b := side_b \<rho>, copy_ab := Holding h\<rparr>"
    have "relay_step \<rho> ?h"
      by (rule relay_step.ab [where w = None]) (simp add: a pc r)
    moreover have "relay_step ?h (?h\<lparr>side_a := ?s, side_b := side_b \<rho>\<lparr>rw_out := rw_out (side_b \<rho>) @ h\<rparr>,
        copy_ab := Reading\<rparr>)" (is "relay_step _ ?w")
      by (rule relay_step.ab [where w = None]) (simp add: b)
    moreover have "relay_step\<^sup>*\<^sup>* ?w (?w\<lparr>side_a := \<lparr>rw_in = ([], AtEOF), rw_out = u, rw_closed = False\<rparr>,
        side_b := side_b ?w\<lparr>rw_out := rw_out (side_b ?w) @ concat cs'\<rparr>, copy_ab := Closing None\<rparr>)"
      by (rule less.hyps [OF size]) (simp_all add: b)
    ultimately show ?thesis by (simp add: data converse_rtranclp_into_rtranclp)
  qed
qed

lemma half_close_run:
  "\<exists>\<rho>. relay_step\<^sup>*\<^sup>* (relay_start (request, AtEOF) answer) \<rho>
     \<and> relay_returns \<rho> = Some None \<and> rw_out (side_b \<rho>) = concat request \<and> rw_out (side_a \<rho>) = []"
proof -
  let ?a = "\<lparr>rw_in = ([], AtEOF), rw_out = [], rw_closed = False\<rparr>"
  let ?b = "\<lparr>rw_in = answer, rw_out = concat request, rw_closed = False\<rparr>"
  let ?r = "\<lambda>a b x y. \<lparr>side_a = a, side_b = b, copy_ab = x, copy_ba = y\<rparr>"
  have "relay_step\<^sup>*\<^sup>* (relay_start (request, AtEOF) answer) (?r ?a ?b (Closing None) Reading)"
    using copy_to_eof [of "relay_start (request, AtEOF) answer" request "[]"] by (simp add: relay_start_def)
  also have "relay_step (?r ?a ?b (Closing None) Reading)
      (?r ?a (?b\<lparr>rw_closed := True\<rparr>) (Finished None) Reading)"
    using relay_step.ab [where \<rho> = "?r ?a ?b (Closing None) Reading"] by simp
  also have "relay_step \<dots> (?r ?a (?b\<lparr>rw_closed := True\<rparr>) (Finished None) (Closing (Some UseOfClosed)))"
    using relay_step.ba [where \<rho> = "?r ?a (?b\<lparr>rw_closed := True\<rparr>) (Finished None) Reading"] by simp
  also have "relay_step \<dots> (?r (?a\<lparr>rw_closed := True\<rparr>) (?b\<lparr>rw_closed := True\<rparr>) (Finished None)
      (Finished (Some UseOfClosed)))"
    using relay_step.ba [where \<rho> = "?r ?a (?b\<lparr>rw_closed := True\<rparr>) (Finished None) (Closing (Some UseOfClosed))"]
    by simp
  finally show ?thesis by (intro exI conjI) (auto simp: relay_result_def)
qed

section \<open>Properties\<close>

text \<open>The channel helpers never panic: a send on a closed channel and a second close are errors.
  A send succeeds exactly by handing its value to a receiver that waits, a failed send or receive
  leaves the channel as it was, a receive on a closed channel reports it, and a helper blocks only
  while the context is alive and nobody is at the other end of an open channel.\<close>

lemma channel_helpers:
  "((c', r) \<in> set (chanSend ctx c t) \<longrightarrow>
      r \<noteq> Panic \<and> (case r of Ok _ \<Rightarrow> \<not> ch_closed c \<and> ch_receivers c = Suc (ch_receivers c') \<and> ch_handed c' = ch_handed c @ [t]
                    | _ \<Rightarrow> c' = c))
   \<and> ((c'', q) \<in> set (chanRecv ctx c) \<longrightarrow>
      q \<noteq> Panic \<and> (case q of Ok v \<Rightarrow> ch_senders c = v # ch_senders c''
                    | Err e \<Rightarrow> c'' = c \<and> (e = ErrChannelClosed \<longrightarrow> ch_closed c)))
   \<and> snd (chanClose c) = (if ch_closed c then Err RecoveredPanic else Ok ()) \<and> ch_closed (fst (chanClose c))
   \<and> (chanSend ctx c t = [] \<longleftrightarrow> ctx = None \<and> \<not> ch_closed c \<and> ch_receivers c = 0)
   \<and> (chanRecv ctx c = [] \<longleftrightarrow> ctx = None \<and> \<not> ch_closed c \<and> ch_senders c = [])"
  by (auto simp: in_chanSend in_chanRecv chanSend_blocks chanRecv_blocks chanClose_eq)



text \<open>C21. A relay neither invents, reorders nor repeats bytes: at every moment what was written to one
  side is a prefix of what the other side sends; a direction that has ended without an error has
  passed on everything; and an error is returned only when both directions failed.\<close>

theorem relay_faithful:
  assumes "relay_step\<^sup>*\<^sup>* (relay_start a b) \<rho>"
  shows "prefix (rw_out (side_b \<rho>)) (concat (fst a)) \<and> prefix (rw_out (side_a \<rho>)) (concat (fst b))
    \<and> (copy_ab \<rho> = Finished None \<longrightarrow> rw_out (side_b \<rho>) = concat (fst a))
    \<and> (copy_ba \<rho> = Finished None \<longrightarrow> rw_out (side_a \<rho>) = concat (fst b))
    \<and> (relay_returns \<rho> = Some (Some es) \<longrightarrow>
        (\<exists>x y. es = [x, y] \<and> copy_ab \<rho> = Finished (Some x) \<and> copy_ba \<rho> = Finished (Some y)))"
proof -
  have p: "prefix (rw_out dst) d \<and> (pc = Finished None \<longrightarrow> rw_out dst = d)"
    if "copy_inv d e src dst pc" for d e src dst pc
    using that by (cases pc) (auto simp: prefix_def)
  have "\<exists>x y. es = [x, y] \<and> copy_ab \<rho> = Finished (Some x) \<and> copy_ba \<rho> = Finished (Some y)"
    if "relay_returns \<rho> = Some (Some es)"
    using that by (auto simp: relay_result_def split: copy_pc.splits option.splits if_splits)
  with p relay_reach_inv [OF assms] show ?thesis unfolding relay_inv_def by blast
qed

theorem relay_faithful_witness:
  "\<exists>\<rho>. relay_step\<^sup>*\<^sup>* (relay_start ([''GET'', '' /''], AtEOF) ([''200''], Fails)) \<rho>
     \<and> relay_returns \<rho> \<noteq> None \<and> prefix (rw_out (side_b \<rho>)) ''GET /'' \<and> prefix (rw_out (side_a \<rho>)) ''200''"
proof -
  obtain \<rho> where \<rho>: "relay_step\<^sup>*\<^sup>* (relay_start ([''GET'', '' /''], AtEOF) ([''200''], Fails)) \<rho>"
      "relay_returns \<rho> = Some None"
    using half_close_run [of "[''GET'', '' /'']" "([''200''], Fails)"] by blast
  with relay_faithful [OF \<rho>(1), of "[]"] show ?thesis by (intro exI [of _ \<rho>]) simp
qed

text \<open>The end of one direction ends the other. When the client at one side closes its sending half
  after its request, the relay can return without an error before a single byte of the answer has
  gone back.\<close>

lemma half_close_cuts_answer:
  "\<exists>\<rho>. relay_step\<^sup>*\<^sup>* (relay_start (request, AtEOF) answer) \<rho>
     \<and> relay_returns \<rho> = Some None \<and> rw_out (side_b \<rho>) = concat request \<and> rw_out (side_a \<rho>) = []"
  by (rule half_close_run)

end
