(* ===== verification/GoJson.thy ===== *)
theory GoJson
  imports Prelude
begin

text \<open>
  The part of \<open>encoding/json\<close> (Go 1.19) the signalling uses, with the part of \<open>unicode/utf8\<close> it needs:
  the quoting of strings with the escapes that are safe in HTML, the syntax check of a document,
  and its values. The value of a number is not kept, since no field of the program is a number.
\<close>

section \<open>UTF-8\<close>

definition cont_byte :: "byte \<Rightarrow> bool" where
  "cont_byte c \<longleftrightarrow> 128 \<le> byte_val c \<and> byte_val c < 192"

definition low6 :: "byte \<Rightarrow> nat" where
  "low6 c = byte_val c mod 64"

text \<open>
  \<open>utf8.DecodeRune\<close>: the first code point and its size, \<open>None\<close> where the library answers
  \<open>RuneError\<close> with size 1 (or 0). The second byte has a narrower range after four first bytes.
\<close>

fun decode_rune :: "bytes \<Rightarrow> (nat \<times> nat) option" where
  "decode_rune [] = None"
| "decode_rune (a # s) =
     (let x = byte_val a in
      if x < 128 then Some (x, 1)
      else if 194 \<le> x \<and> x < 224 then
        (case s of
           b # _ \<Rightarrow> if cont_byte b then Some ((x - 192) * 64 + low6 b, 2) else None
         | _ \<Rightarrow> None)
      else if 224 \<le> x \<and> x < 240 then
        (case s of
           b # c # _ \<Rightarrow>
             if (if x = 224 then 160 else 128) \<le> byte_val b \<and> byte_val b < (if x = 237 then 160 else 192)
                \<and> cont_byte c
             then Some (((x - 224) * 64 + low6 b) * 64 + low6 c, 3) else None
         | _ \<Rightarrow> None)
      else if 240 \<le> x \<and> x < 245 then
        (case s of
           b # c # d # _ \<Rightarrow>
             if (if x = 240 then 144 else 128) \<le> byte_val b \<and> byte_val b < (if x = 244 then 144 else 192)
                \<and> cont_byte c \<and> cont_byte d
             then Some ((((x - 240) * 64 + low6 b) * 64 + low6 c) * 64 + low6 d, 4) else None
         | _ \<Rightarrow> None)
      else None)"

text \<open>\<open>utf8.EncodeRune\<close>; a surrogate or a value beyond the range becomes U+FFFD.\<close>

definition rune_error :: bytes where
  "rune_error = [byte_of 239, byte_of 191, byte_of 189]"

definition encode_rune :: "nat \<Rightarrow> bytes" where
  "encode_rune r =
     (if r < 128 then [byte_of r]
      else if r < 2048 then [byte_of (192 + r div 64), byte_of (128 + r mod 64)]
      else if 1114112 \<le> r \<or> 55296 \<le> r \<and> r < 57344 then rune_error
      else if r < 65536 then
        [byte_of (224 + r div 4096), byte_of (128 + r div 64 mod 64), byte_of (128 + r mod 64)]
      else [byte_of (240 + r div 262144), byte_of (128 + r div 4096 mod 64),
            byte_of (128 + r div 64 mod 64), byte_of (128 + r mod 64)])"

lemma decode_rune_len: "decode_rune s = Some (r, n) \<Longrightarrow> 0 < n \<and> n \<le> length s"
  by (induction s rule: decode_rune.induct) (auto simp: Let_def split: if_splits list.splits)

lemma decode_rune_append:
  "decode_rune s = Some (r, n) \<Longrightarrow> decode_rune (take n s @ t) = Some (r, n)"
  by (induction s rule: decode_rune.induct) (auto simp: Let_def split: if_splits list.splits)

text \<open>A code point of more than one byte begins with a byte that is not ASCII.\<close>

lemma decode_rune_ascii [simp]: "byte_val a < 128 \<Longrightarrow> decode_rune (a # s) = Some (byte_val a, 1)"
  by simp

declare decode_rune.simps(2) [simp del]

section \<open>Quoting\<close>

definition bslash :: byte where "bslash = CHR 0x5C"
definition dquote :: byte where "dquote = CHR 0x22"

definition hex_digit :: "nat \<Rightarrow> byte" where
  "hex_digit n = byte_of (if n < 10 then 48 + n else 87 + n)"

definition html_safe :: "byte \<Rightarrow> bool" where
  "html_safe c \<longleftrightarrow> 32 \<le> byte_val c \<and> byte_val c < 128
     \<and> c \<notin> {dquote, bslash, CHR ''<'', CHR ''>'', CHR ''&''}"

definition quote_ascii :: "byte \<Rightarrow> bytes" where
  "quote_ascii c =
     (if html_safe c then [c]
      else if c = bslash \<or> c = dquote then [bslash, c]
      else if c = CHR 0x0A then [bslash, CHR ''n'']
      else if c = CHR 0x0D then [bslash, CHR ''r'']
      else if c = CHR 0x09 then [bslash, CHR ''t'']
      else bslash # ''u00'' @ [hex_digit (byte_val c div 16), hex_digit (byte_val c mod 16)])"

text \<open>The next piece of the output, and the input after it.\<close>

fun quote_step :: "bytes \<Rightarrow> bytes \<times> bytes" where
  "quote_step [] = ([], [])"
| "quote_step (c # s) =
     (if byte_val c < 128 then (quote_ascii c, s)
      else case decode_rune (c # s) of
        None \<Rightarrow> (bslash # ''ufffd'', s)
      | Some (r, n) \<Rightarrow>
          if r = 8232 \<or> r = 8233 then (bslash # ''u202'' @ [hex_digit (r mod 16)], drop n (c # s))
          else (take n (c # s), drop n (c # s)))"

lemma quote_step_less: "quote_step (c # s) = (e, r) \<Longrightarrow> length r < length (c # s)"
  by (auto split: if_splits option.splits dest!: decode_rune_len)

function quote_body :: "bytes \<Rightarrow> bytes" where
  "quote_body [] = []"
| "quote_body (c # s) = (case quote_step (c # s) of (e, r) \<Rightarrow> e @ quote_body r)"
  by pat_completeness auto
termination
  by (relation "measure length") (simp, metis in_measure quote_step_less)

declare quote_body.simps(2) [simp del]

definition json_quote :: "bytes \<Rightarrow> bytes" where
  "json_quote s = dquote # quote_body s @ [dquote]"

section \<open>Reading a string\<close>

definition hex_val :: "byte \<Rightarrow> nat option" where
  "hex_val c =
     (let x = byte_val c in
      if 48 \<le> x \<and> x < 58 then Some (x - 48)
      else if 97 \<le> x \<and> x < 103 then Some (x - 87)
      else if 65 \<le> x \<and> x < 71 then Some (x - 55)
      else None)"

text \<open>\<open>getu4\<close> on what follows a backslash: the letter \<open>u\<close> and four digits.\<close>

fun u4 :: "bytes \<Rightarrow> (nat \<times> bytes) option" where
  "u4 (u # a # b # c # d # s) =
     (if u \<noteq> CHR ''u'' then None
      else case (hex_val a, hex_val b, hex_val c, hex_val d) of
        (Some w, Some x, Some y, Some z) \<Rightarrow> Some (((w * 16 + x) * 16 + y) * 16 + z, s)
      | _ \<Rightarrow> None)"
| "u4 _ = None"

fun low_surrogate :: "bytes \<Rightarrow> (nat \<times> bytes) option" where
  "low_surrogate (b # s) =
     (if b = bslash then
        (case u4 s of
           Some (r, s') \<Rightarrow> if 56320 \<le> r \<and> r < 57344 then Some (r, s') else None
         | None \<Rightarrow> None)
      else None)"
| "low_surrogate [] = None"

definition escaped_rune :: "nat \<Rightarrow> bytes \<Rightarrow> bytes \<times> bytes" where
  "escaped_rune r s =
     (if 55296 \<le> r \<and> r < 57344 then
        (case (if r < 56320 then low_surrogate s else None) of
           Some (r1, s') \<Rightarrow> (encode_rune ((r - 55296) * 1024 + (r1 - 56320) + 65536), s')
         | None \<Rightarrow> (rune_error, s))
      else (encode_rune r, s))"

definition simple_escape :: "byte \<Rightarrow> byte option" where
  "simple_escape c =
     map_of [(dquote, dquote), (bslash, bslash), (CHR ''/'', CHR ''/''), (CHR ''b'', CHR 0x08),
       (CHR ''f'', CHR 0x0C), (CHR ''n'', CHR 0x0A), (CHR ''r'', CHR 0x0D), (CHR ''t'', CHR 0x09)] c"

fun read_escape :: "bytes \<Rightarrow> (bytes \<times> bytes) option" where
  "read_escape [] = None"
| "read_escape (c # s) =
     (case simple_escape c of
        Some d \<Rightarrow> Some ([d], s)
      | None \<Rightarrow> (case u4 (c # s) of
           None \<Rightarrow> None
         | Some (r, s') \<Rightarrow> Some (escaped_rune r s')))"

text \<open>The next character of a string, which is not its closing quote, and the input after it.\<close>

fun str_step :: "bytes \<Rightarrow> (bytes \<times> bytes) option" where
  "str_step [] = None"
| "str_step (c # s) =
     (if c = bslash then read_escape s
      else if byte_val c < 32 then None
      else case decode_rune (c # s) of
        None \<Rightarrow> Some (rune_error, s)
      | Some (r, n) \<Rightarrow> Some (take n (c # s), drop n (c # s)))"

lemma u4_less: "u4 s = Some (r, s') \<Longrightarrow> length s' < length s"
  by (induction s rule: u4.induct) (auto split: if_splits option.splits)

lemma escaped_rune_less: "escaped_rune r s = (p, s') \<Longrightarrow> length s' \<le> length s"
  by (cases s) (auto simp: escaped_rune_def split: if_splits option.splits dest!: u4_less)

lemma str_step_less:
  assumes "str_step s = Some (p, r)"
  shows "length r < length s"
proof (cases s)
  case (Cons c s0)
  have "length r < Suc (length s0)" if e: "read_escape s0 = Some (p, r)"
  proof (cases s0)
    case (Cons d s1)
    with e show ?thesis
      by (auto split: option.splits dest: escaped_rune_less u4_less)
        (metis escaped_rune_less length_Cons less_Suc_eq order.strict_trans1 u4_less)
  qed (use e in simp)
  with Cons assms show ?thesis
    by (auto split: if_splits option.splits dest: decode_rune_len)
qed (use assms in simp)

function scan_str :: "bytes \<Rightarrow> (bytes \<times> bytes) option" where
  "scan_str s =
     (if s \<noteq> [] \<and> hd s = dquote then Some ([], tl s)
      else case str_step s of
        None \<Rightarrow> None
      | Some (p, r) \<Rightarrow> map_option (apfst ((@) p)) (scan_str r))"
  by pat_completeness auto
termination
  by (relation "measure length") (auto dest: str_step_less)

declare scan_str.simps [simp del]

lemma scan_str_less: "scan_str s = Some (v, r) \<Longrightarrow> length r < length s"
proof (induction s arbitrary: v rule: scan_str.induct)
  case (1 s)
  show ?case
  proof (cases "s \<noteq> [] \<and> hd s = dquote")
    case True
    with "1.prems" have "r = tl s" by (simp add: scan_str.simps [of s])
    with True show ?thesis by (cases s) simp_all
  next
    case False
    with "1.prems" obtain p r0 v0 where "str_step s = Some (p, r0)" "scan_str r0 = Some (v0, r)"
      by (auto simp: scan_str.simps [of s] split: option.splits)
    with "1.IH" [OF False] show ?thesis using str_step_less by fastforce
  qed
qed

section \<open>Quoting and reading back\<close>

text \<open>What a string becomes on the way: each byte that is not UTF-8 is replaced by U+FFFD.\<close>

fun valid_step :: "bytes \<Rightarrow> bytes \<times> bytes" where
  "valid_step s =
     (case decode_rune s of None \<Rightarrow> (rune_error, drop 1 s) | Some (r, n) \<Rightarrow> (take n s, drop n s))"

function to_valid :: "bytes \<Rightarrow> bytes" where
  "to_valid [] = []"
| "to_valid (c # s) = (case valid_step (c # s) of (p, r) \<Rightarrow> p @ to_valid r)"
  by pat_completeness auto
termination
  by (relation "measure length") (auto split: option.splits if_splits dest!: decode_rune_len)

declare to_valid.simps(2) [simp del]

lemma quote_step_rest: "snd (quote_step (c # s)) = snd (valid_step (c # s))"
  by (auto split: option.splits)

lemma to_valid_piece: "to_valid (fst (valid_step (c # s)) @ t) = fst (valid_step (c # s)) @ to_valid t"
proof (cases "decode_rune (c # s)")
  case None
  have d: "decode_rune (rune_error @ t) = Some (65533, 3)"
    by (simp add: rune_error_def decode_rune.simps(2) Let_def cont_byte_def low6_def)
  obtain d0 e where e: "rune_error = d0 # e" "length e = 2" by (simp add: rune_error_def)
  have "decode_rune (d0 # e @ t) = Some (65533, 3)" using d unfolding e(1) by simp
  with e have "valid_step (d0 # e @ t) = (d0 # e, t)" by simp
  then have "to_valid (d0 # e @ t) = d0 # e @ to_valid t" by (simp add: to_valid.simps(2) del: valid_step.simps)
  then have "to_valid (rune_error @ t) = rune_error @ to_valid t" unfolding e(1) by simp
  with None show ?thesis by simp
next
  case (Some p)
  obtain r n where p: "decode_rune (c # s) = Some (r, n)" using Some by (cases p) simp
  obtain m where n: "n = Suc m" "m \<le> length s" using decode_rune_len [OF p] by (cases n) auto
  with decode_rune_append [OF p, of t] p show ?thesis by (simp add: to_valid.simps(2))
qed

lemma to_valid_idem: "to_valid (to_valid s) = to_valid s"
proof (induction s rule: to_valid.induct)
  case (2 c s)
  have "to_valid (c # s) = fst (valid_step (c # s)) @ to_valid (snd (valid_step (c # s)))"
    by (simp add: to_valid.simps(2) case_prod_beta del: valid_step.simps)
  moreover have "to_valid (to_valid (snd (valid_step (c # s)))) = to_valid (snd (valid_step (c # s)))"
    by (rule "2.IH" [of "fst (valid_step (c # s))"]) simp
  ultimately show ?case by (simp only: to_valid_piece)
qed simp

text \<open>Decoding and encoding a code point gives its bytes back.\<close>

lemma low6_cont: "128 \<le> byte_val b \<Longrightarrow> byte_val b < 192 \<Longrightarrow> byte_val b = 128 + low6 b"
  by (simp add: low6_def le_mod_geq)

lemma low6_less: "low6 b < 64"
  by (simp add: low6_def)

lemma byte_of_eqI: "byte_val b = n \<Longrightarrow> byte_of n = b"
  by auto

lemma mult_numeral_64: "(64 * 64 :: nat) = 4096" "(64 * 4096 :: nat) = 262144"
  by simp_all

lemma encode_rune_3:
  "2048 \<le> r \<Longrightarrow> r < 65536 \<Longrightarrow> \<not> (55296 \<le> r \<and> r < 57344) \<Longrightarrow>
     encode_rune r = [byte_of (224 + r div 4096), byte_of (128 + r div 64 mod 64), byte_of (128 + r mod 64)]"
  by (auto simp: encode_rune_def)

lemma encode_rune_4:
  "65536 \<le> r \<Longrightarrow> r < 1114112 \<Longrightarrow>
     encode_rune r = [byte_of (240 + r div 262144), byte_of (128 + r div 4096 mod 64),
       byte_of (128 + r div 64 mod 64), byte_of (128 + r mod 64)]"
  by (simp add: encode_rune_def)

lemma digits64:
  fixes q l :: nat
  assumes "l < 64"
  shows "(q * 64 + l) div 64 = q" "(q * 64 + l) mod 64 = l"
    "(q * 64 + l) div 4096 = q div 64" "(q * 64 + l) div 262144 = q div 4096"
proof -
  show d: "(q * 64 + l) div 64 = q" and "(q * 64 + l) mod 64 = l" using assms by simp_all
  have "n div 4096 = n div 64 div 64" "n div 262144 = n div 64 div 4096" for n :: nat
    using div_mult2_eq [of n 64 64] div_mult2_eq [of n 64 4096] by (simp_all only: mult_numeral_64)
  with d show "(q * 64 + l) div 4096 = q div 64" "(q * 64 + l) div 262144 = q div 4096" by metis+
qed

lemmas low6_digits = digits64 [OF low6_less]

lemma encode_decode_2:
  assumes "194 \<le> byte_val a" and "byte_val a < 224" and "cont_byte b"
  shows "encode_rune ((byte_val a - 192) * 64 + low6 b) = [a, b]"
proof -
  let ?r = "(byte_val a - 192) * 64 + low6 b"
  have r: "128 \<le> ?r" "?r < 2048" using assms(1,2) low6_less [of b] by linarith+
  have "?r div 64 = byte_val a - 192" "?r mod 64 = low6 b" unfolding low6_digits by (rule refl)+
  then have "byte_of (192 + ?r div 64) = a" "byte_of (128 + ?r mod 64) = b"
    using assms low6_cont [of b] by (auto intro!: byte_of_eqI simp: cont_byte_def)
  with r show ?thesis by (simp add: encode_rune_def)
qed

lemma encode_decode_3:
  assumes "224 \<le> byte_val a" and "byte_val a < 240" and "cont_byte c"
    and "(if byte_val a = 224 then 160 else 128) \<le> byte_val b"
    and "byte_val b < (if byte_val a = 237 then 160 else 192)"
  shows "encode_rune (((byte_val a - 224) * 64 + low6 b) * 64 + low6 c) = [a, b, c]"
proof -
  let ?r = "((byte_val a - 224) * 64 + low6 b) * 64 + low6 c"
  have b: "byte_val b = 128 + low6 b"
    using assms(4,5) by (intro low6_cont) (auto split: if_splits)
  have c: "byte_val c = 128 + low6 c" using assms(3) low6_cont [of c] by (simp add: cont_byte_def)
  have r: "2048 \<le> ?r" "?r < 65536" "\<not> (55296 \<le> ?r \<and> ?r < 57344)"
    using assms(1,2,4,5) b low6_less [of b] low6_less [of c] by (auto split: if_splits)
  have "224 + (byte_val a - 224) = byte_val a" using assms(1) by simp
  with encode_rune_3 [OF r] show ?thesis
    unfolding low6_digits by (simp only: b [symmetric] c [symmetric] byte_of_val)
qed

lemma encode_decode_4:
  assumes "240 \<le> byte_val a" and "byte_val a < 245" and "cont_byte c" and "cont_byte d"
    and "(if byte_val a = 240 then 144 else 128) \<le> byte_val b"
    and "byte_val b < (if byte_val a = 244 then 144 else 192)"
  shows "encode_rune ((((byte_val a - 240) * 64 + low6 b) * 64 + low6 c) * 64 + low6 d) = [a, b, c, d]"
proof -
  let ?r = "(((byte_val a - 240) * 64 + low6 b) * 64 + low6 c) * 64 + low6 d"
  have b: "byte_val b = 128 + low6 b"
    using assms(5,6) by (intro low6_cont) (auto split: if_splits)
  have c: "byte_val c = 128 + low6 c" "byte_val d = 128 + low6 d"
    using assms(3,4) low6_cont [of c] low6_cont [of d] by (simp_all add: cont_byte_def)
  have r: "65536 \<le> ?r" "?r < 1114112"
    using assms(1,2,5,6) b low6_less [of b] low6_less [of c] low6_less [of d] by (auto split: if_splits)
  have "240 + (byte_val a - 240) = byte_val a" using assms(1) by simp
  with encode_rune_4 [OF r] show ?thesis
    unfolding low6_digits by (simp only: b [symmetric] c [symmetric] byte_of_val)
qed

lemma encode_decode_rune: "decode_rune s = Some (r, n) \<Longrightarrow> encode_rune r = take n s"
proof (induction s rule: decode_rune.induct)
  case (2 a s)
  then show ?case
    using encode_decode_2 [of a] encode_decode_3 [of a] encode_decode_4 [of a]
    by (auto simp: decode_rune.simps(2) Let_def encode_rune_def [of "byte_val a"] split: if_splits list.splits)
qed simp

text \<open>Each escape reads back as the byte it stands for.\<close>

lemma hex_val_digit: "n < 16 \<Longrightarrow> hex_val (hex_digit n) = Some n"
  by (simp add: hex_val_def hex_digit_def Let_def)

lemma simple_escape_u [simp]: "simple_escape CHR ''u'' = None"
  by (simp add: simple_escape_def dquote_def bslash_def)

lemma read_u4:
  assumes "w < 16" "x < 16" "y < 16" "z < 16"
  shows "read_escape (CHR ''u'' # hex_digit w # hex_digit x # hex_digit y # hex_digit z # s)
     = Some (escaped_rune (((w * 16 + x) * 16 + y) * 16 + z) s)"
  using assms by (simp add: hex_val_digit)

lemma hex_digit_consts: "hex_digit 0 = CHR ''0''" "hex_digit 2 = CHR ''2''" "hex_digit 15 = CHR ''f''"
    "hex_digit 13 = CHR ''d''"
  by (simp_all add: hex_digit_def byte_eq_iff) (simp_all add: byte_val_def)

lemma read_control:
  assumes "byte_val c < 128"
  shows "read_escape (''u00'' @ [hex_digit (byte_val c div 16), hex_digit (byte_val c mod 16)] @ s) = Some ([c], s)"
proof -
  have "byte_val c div 16 < 16" using assms by simp
  then have "read_escape (''u00'' @ [hex_digit (byte_val c div 16), hex_digit (byte_val c mod 16)] @ s)
      = Some (escaped_rune (((0 * 16 + 0) * 16 + byte_val c div 16) * 16 + byte_val c mod 16) s)"
    using read_u4 [of 0 0 "byte_val c div 16" "byte_val c mod 16" s] hex_digit_consts(1) by simp
  also have "((0 * 16 + 0) * 16 + byte_val c div 16) * 16 + byte_val c mod 16 = byte_val c" by simp
  also have "escaped_rune (byte_val c) s = ([c], s)"
    using assms by (simp add: escaped_rune_def encode_rune_def)
  finally show ?thesis .
qed

lemma read_replacement: "read_escape (''ufffd'' @ s) = Some (rune_error, s)"
  using read_u4 [of 15 15 15 13 s] unfolding hex_digit_consts
  by (simp add: escaped_rune_def encode_rune_def rune_error_def del: read_escape.simps)

lemma read_separator:
  assumes "r = 8232 \<or> r = 8233"
  shows "read_escape (''u202'' @ hex_digit (r mod 16) # s) = Some (encode_rune r, s)"
  using assms read_u4 [of 2 0 2 "r mod 16" s] unfolding hex_digit_consts
  by (auto simp: escaped_rune_def simp del: read_escape.simps)

lemma str_step_simple: "simple_escape d = Some x \<Longrightarrow> str_step (bslash # d # s) = Some ([x], s)"
  by simp

lemma bslash_dquote [simp]: "bslash \<noteq> dquote" "dquote \<noteq> bslash"
  by (simp_all add: bslash_def dquote_def)

lemma quote_ascii_cases:
  "html_safe c \<or> quote_ascii c = [bslash, c] \<and> (c = bslash \<or> c = dquote)
   \<or> quote_ascii c = [bslash, CHR ''n''] \<and> c = CHR 0x0A
   \<or> quote_ascii c = [bslash, CHR ''r''] \<and> c = CHR 0x0D
   \<or> quote_ascii c = [bslash, CHR ''t''] \<and> c = CHR 0x09
   \<or> quote_ascii c = bslash # ''u00'' @ [hex_digit (byte_val c div 16), hex_digit (byte_val c mod 16)]"
  unfolding quote_ascii_def
  by (cases "html_safe c"; cases "c = bslash \<or> c = dquote"; cases "c = CHR 0x0A"; cases "c = CHR 0x0D";
      cases "c = CHR 0x09"; simp only: if_True if_False simp_thms)

lemma quote_ascii_read:
  assumes "byte_val c < 128"
  shows "\<exists>d e. quote_ascii c = d # e \<and> d \<noteq> dquote \<and> str_step (d # e @ s) = Some ([c], s)"
proof -
  have simple: "simple_escape bslash = Some bslash" "simple_escape dquote = Some dquote"
    "simple_escape CHR ''n'' = Some CHR 0x0A" "simple_escape CHR ''r'' = Some CHR 0x0D"
    "simple_escape CHR ''t'' = Some CHR 0x09"
    by (simp_all add: simple_escape_def bslash_def dquote_def)
  have u: "str_step (bslash # ''u00'' @ [hex_digit (byte_val c div 16), hex_digit (byte_val c mod 16)] @ s)
      = Some ([c], s)"
    using read_control [OF assms, of s] by (simp del: read_escape.simps)
  consider "html_safe c" | "quote_ascii c = [bslash, c]" "c = bslash \<or> c = dquote"
    | "quote_ascii c = [bslash, CHR ''n'']" "c = CHR 0x0A"
    | "quote_ascii c = [bslash, CHR ''r'']" "c = CHR 0x0D"
    | "quote_ascii c = [bslash, CHR ''t'']" "c = CHR 0x09"
    | "quote_ascii c = bslash # ''u00'' @ [hex_digit (byte_val c div 16), hex_digit (byte_val c mod 16)]"
    using quote_ascii_cases [of c] by argo
  then show ?thesis
  proof cases
    case 1
    with assms show ?thesis by (auto simp: quote_ascii_def html_safe_def)
  next
    case 2
    with simple(1,2) show ?thesis by (auto intro: str_step_simple simp del: str_step.simps)
  next
    case 6
    with u show ?thesis by (simp del: str_step.simps)
  qed (use simple(3-5) in \<open>simp_all add: str_step_simple del: str_step.simps\<close>)
qed

lemma quote_step_read:
  "\<exists>d e. quote_step (c # s) = (d # e, snd (valid_step (c # s))) \<and> d \<noteq> dquote
     \<and> str_step (d # e @ t) = Some (fst (valid_step (c # s)), t)"
proof (cases "byte_val c < 128")
  case True
  with quote_ascii_read [OF True, of t] show ?thesis by (simp del: str_step.simps)
next
  case False
  show ?thesis
  proof (cases "decode_rune (c # s)")
    case None
    with False read_replacement [of t] show ?thesis by (simp del: read_escape.simps)
  next
    case (Some p)
    obtain r n where p: "decode_rune (c # s) = Some (r, n)" using Some by (cases p) simp
    obtain m where n: "n = Suc m" using decode_rune_len [OF p] by (cases n) auto
    show ?thesis
    proof (cases "r = 8232 \<or> r = 8233")
      case True
      with False p encode_decode_rune [OF p] read_separator [OF True, of t] show ?thesis
        by (simp del: read_escape.simps)
    next
      case r: False
      have "c \<noteq> dquote" "c \<noteq> bslash" "\<not> byte_val c < 32"
        using False by (auto simp: dquote_def bslash_def byte_val_def)
      moreover have "decode_rune (c # take m s @ t) = Some (r, n)"
        using decode_rune_append [OF p, of t] n by simp
      moreover have "length (take m s) = m" using decode_rune_len [OF p] n by simp
      ultimately show ?thesis using False p r n by simp
    qed
  qed
qed

lemma scan_quote: "scan_str (quote_body s @ dquote # t) = Some (to_valid s, t)"
proof (induction s rule: to_valid.induct)
  case 1
  show ?case by (simp add: scan_str.simps)
next
  case (2 c s)
  let ?v = "valid_step (c # s)"
  obtain d e where q: "quote_step (c # s) = (d # e, snd ?v)" "d \<noteq> dquote"
    "str_step (d # e @ quote_body (snd ?v) @ dquote # t) = Some (fst ?v, quote_body (snd ?v) @ dquote # t)"
    using quote_step_read by blast
  have "scan_str (quote_body (snd ?v) @ dquote # t) = Some (to_valid (snd ?v), t)"
    by (rule "2.IH" [of "fst ?v"]) simp
  with q show ?case
    by (simp add: quote_body.simps(2) to_valid.simps(2) scan_str.simps [of "d # e @ _"] case_prod_beta
        del: str_step.simps valid_step.simps)
qed

section \<open>Documents\<close>

text \<open>
  A document is cut into tokens and the tokens are read with a stack of the arrays and objects
  that are open, at most \<open>maxNestingDepth\<close> of them.
\<close>

datatype token = TLBrace | TRBrace | TLBrack | TRBrack | TComma | TColon
  | TStr bytes | TNum | TBool bool | TNull

datatype json = JNull | JBool bool | JNum | JStr bytes | JArr "json list" | JObj "(bytes \<times> json) list"

definition is_digit :: "byte \<Rightarrow> bool" where
  "is_digit c \<longleftrightarrow> 48 \<le> byte_val c \<and> byte_val c < 58"

text \<open>A number: a sign, an integer without leading zeros, a fraction, an exponent.\<close>

definition digits1 :: "bytes \<Rightarrow> bytes option" where
  "digits1 s = (if s \<noteq> [] \<and> is_digit (hd s) then Some (dropWhile is_digit s) else None)"

definition lex_int :: "bytes \<Rightarrow> bytes option" where
  "lex_int s = (if s \<noteq> [] \<and> hd s = CHR ''0'' then Some (tl s) else digits1 s)"

definition lex_frac :: "bytes \<Rightarrow> bytes option" where
  "lex_frac s = (if s \<noteq> [] \<and> hd s = CHR ''.'' then digits1 (tl s) else Some s)"

definition lex_exp :: "bytes \<Rightarrow> bytes option" where
  "lex_exp s =
     (if s \<noteq> [] \<and> hd s \<in> {CHR ''e'', CHR ''E''}
      then digits1 (if tl s \<noteq> [] \<and> hd (tl s) \<in> {CHR ''+'', CHR ''-''} then tl (tl s) else tl s)
      else Some s)"

definition lex_num :: "bytes \<Rightarrow> bytes option" where
  "lex_num s =
     Option.bind (lex_int (if s \<noteq> [] \<and> hd s = CHR ''-'' then tl s else s))
       (\<lambda>s1. Option.bind (lex_frac s1) lex_exp)"

definition is_space :: "byte \<Rightarrow> bool" where
  "is_space c \<longleftrightarrow> c \<in> {CHR '' '', CHR 0x09, CHR 0x0A, CHR 0x0D}"

definition punct :: "byte \<Rightarrow> token option" where
  "punct c =
     map_of [(CHR ''{'', TLBrace), (CHR ''}'', TRBrace), (CHR ''['', TLBrack), (CHR '']'', TRBrack),
       (CHR '','', TComma), (CHR '':'', TColon)] c"

fun lex_token :: "bytes \<Rightarrow> (token \<times> bytes) option" where
  "lex_token [] = None"
| "lex_token (c # s) =
     (case punct c of
        Some t \<Rightarrow> Some (t, s)
      | None \<Rightarrow>
          if c = dquote then map_option (apfst TStr) (scan_str s)
          else if take 4 (c # s) = ''true'' then Some (TBool True, drop 4 (c # s))
          else if take 5 (c # s) = ''false'' then Some (TBool False, drop 5 (c # s))
          else if take 4 (c # s) = ''null'' then Some (TNull, drop 4 (c # s))
          else map_option (Pair TNum) (lex_num (c # s)))"

lemma digits1_less: "digits1 s = Some r \<Longrightarrow> length r < length s"
proof -
  assume d: "digits1 s = Some r"
  then have "s \<noteq> []" "is_digit (hd s)" "r = dropWhile is_digit s"
    by (auto simp: digits1_def split: if_splits)
  then show "length r < length s"
    by (cases s) (auto simp: length_dropWhile_le le_imp_less_Suc)
qed

lemma lex_num_less: "lex_num s = Some r \<Longrightarrow> length r < length s"
proof -
  assume "lex_num s = Some r"
  then obtain s1 s2 where 1: "lex_int (if s \<noteq> [] \<and> hd s = CHR ''-'' then tl s else s) = Some s1"
    and 2: "lex_frac s1 = Some s2" and 3: "lex_exp s2 = Some r"
    by (auto simp: lex_num_def bind_eq_Some_conv)
  from 1 have "length s1 < length s"
    by (cases s) (auto simp: lex_int_def split: if_splits dest!: digits1_less)
  moreover from 2 have "length s2 \<le> length s1"
    by (cases s1) (auto simp: lex_frac_def split: if_splits dest!: digits1_less)
  moreover from 3 have "length r \<le> length s2"
    by (cases s2) (auto simp: lex_exp_def split: if_splits dest!: digits1_less)
  ultimately show "length r < length s" by linarith
qed

lemma lex_token_less: "lex_token s = Some (t, r) \<Longrightarrow> length r < length s"
  by (cases s) (auto split: option.splits if_splits dest!: scan_str_less lex_num_less)

function lex :: "bytes \<Rightarrow> token list option" where
  "lex [] = Some []"
| "lex (c # s) =
     (if is_space c then lex s
      else case lex_token (c # s) of
        None \<Rightarrow> None
      | Some (t, r) \<Rightarrow> map_option ((#) t) (lex r))"
  by pat_completeness auto
termination
  by (relation "measure length") (simp, simp, metis in_measure lex_token_less)

declare lex.simps(2) [simp del] lex_token.simps(2) [simp del]

definition maxNestingDepth :: nat where "maxNestingDepth = 10000"

text \<open>
  Before a value, before a value or the end of an empty array, before a key or the end of an empty
  object, before a key, before a colon, and after a value.
\<close>

datatype parse_mode = WantValue | WantItem | WantMember | WantKey | WantColon | Have json

datatype frame = InArr "json list" | InObj "(bytes \<times> json) list" "bytes option"

definition scalar :: "token \<Rightarrow> json option" where
  "scalar t =
     (case t of TStr s \<Rightarrow> Some (JStr s) | TNum \<Rightarrow> Some JNum | TBool b \<Rightarrow> Some (JBool b) | TNull \<Rightarrow> Some JNull
      | _ \<Rightarrow> None)"

text \<open>One token: the next mode and stack.\<close>

definition open_frame :: "parse_mode \<Rightarrow> frame \<Rightarrow> frame list \<Rightarrow> (parse_mode \<times> frame list) option" where
  "open_frame m f st = (if length st < maxNestingDepth then Some (m, f # st) else None)"

fun want_value :: "frame list \<Rightarrow> token \<Rightarrow> (parse_mode \<times> frame list) option" where
  "want_value st TLBrace = open_frame WantMember (InObj [] None) st"
| "want_value st TLBrack = open_frame WantItem (InArr []) st"
| "want_value st t = map_option (\<lambda>v. (Have v, st)) (scalar t)"

fun want_key :: "frame list \<Rightarrow> token \<Rightarrow> (parse_mode \<times> frame list) option" where
  "want_key (InObj kvs None # st) (TStr k) = Some (WantColon, InObj kvs (Some k) # st)"
| "want_key st t = None"

fun parse_token :: "parse_mode \<Rightarrow> frame list \<Rightarrow> token \<Rightarrow> (parse_mode \<times> frame list) option" where
  "parse_token WantValue st t = want_value st t"
| "parse_token WantItem st t =
     (case (st, t) of
        (InArr [] # st', TRBrack) \<Rightarrow> Some (Have (JArr []), st')
      | _ \<Rightarrow> want_value st t)"
| "parse_token WantMember st t =
     (case (st, t) of
        (InObj [] None # st', TRBrace) \<Rightarrow> Some (Have (JObj []), st')
      | _ \<Rightarrow> want_key st t)"
| "parse_token WantKey st t = want_key st t"
| "parse_token WantColon st t = (if t = TColon then Some (WantValue, st) else None)"
| "parse_token (Have v) st t =
     (case (st, t) of
        (InArr vs # st', TComma) \<Rightarrow> Some (WantValue, InArr (vs @ [v]) # st')
      | (InArr vs # st', TRBrack) \<Rightarrow> Some (Have (JArr (vs @ [v])), st')
      | (InObj kvs (Some k) # st', TComma) \<Rightarrow> Some (WantKey, InObj (kvs @ [(k, v)]) None # st')
      | (InObj kvs (Some k) # st', TRBrace) \<Rightarrow> Some (Have (JObj (kvs @ [(k, v)])), st')
      | _ \<Rightarrow> None)"

fun parse_tokens :: "parse_mode \<Rightarrow> frame list \<Rightarrow> token list \<Rightarrow> json option" where
  "parse_tokens m st [] = (case (m, st) of (Have v, []) \<Rightarrow> Some v | _ \<Rightarrow> None)"
| "parse_tokens m st (t # ts) =
     (case parse_token m st t of None \<Rightarrow> None | Some (m', st') \<Rightarrow> parse_tokens m' st' ts)"

definition json_parse :: "bytes \<Rightarrow> json option" where
  "json_parse b = Option.bind (lex b) (parse_tokens WantValue [])"

text \<open>
  The name of a field matches a key of the same length up to the case bit of each letter; exact
  matches are among these.
\<close>

definition case_mask :: "byte \<Rightarrow> nat" where
  "case_mask c = (if byte_val c div 32 mod 2 = 1 then byte_val c - 32 else byte_val c)"

definition field_matches :: "bytes \<Rightarrow> bytes \<Rightarrow> bool" where
  "field_matches name key \<longleftrightarrow> map case_mask key = map case_mask name"

section \<open>Lemmas on documents\<close>

text \<open>Plain text is quoted and read as it is.\<close>

lemma quote_plain: "\<forall>c\<in>set s. html_safe c \<Longrightarrow> quote_body s = s"
  by (induction s) (auto simp: quote_body.simps(2) quote_ascii_def html_safe_def)

lemma to_valid_ascii: "\<forall>c\<in>set s. byte_val c < 128 \<Longrightarrow> to_valid s = s"
  by (induction s) (auto simp: to_valid.simps(2))

lemma lex_punct: "punct c = Some t \<Longrightarrow> \<not> is_space c \<Longrightarrow> lex (c # s) = map_option ((#) t) (lex s)"
  by (simp add: lex.simps(2) lex_token.simps(2))

lemma lex_puncts:
  "lex (CHR ''{'' # s) = map_option ((#) TLBrace) (lex s)"
  "lex (CHR ''}'' # s) = map_option ((#) TRBrace) (lex s)"
  "lex (CHR '','' # s) = map_option ((#) TComma) (lex s)"
  "lex (CHR '':'' # s) = map_option ((#) TColon) (lex s)"
  by (simp_all add: lex_punct punct_def is_space_def)

lemma lex_quote: "lex (json_quote s @ t) = map_option ((#) (TStr (to_valid s))) (lex t)"
proof -
  have "punct dquote = None" "\<not> is_space dquote" by (simp_all add: punct_def is_space_def dquote_def)
  then show ?thesis by (simp add: json_quote_def lex.simps(2) lex_token.simps(2) scan_quote)
qed

end
