(* ===== verification/SignalMessenger.thy ===== *)
theory SignalMessenger
  imports GoJson Utils
begin

text \<open>
  \<open>signal-messenger.go\<close>: offers, answers and ICE candidates as JSON messages over a \<open>Messenger\<close>, and
  the goroutine \<open>readLoop\<close> that hands what it reads to the callers of the three \<open>Recv\<close> methods.

  The messenger below is \<open>link\<close>, the interface of \<open>messenger.go\<close> with its \<open>Close\<close>; a read that waits is
  \<open>None\<close>. The candidates of the WebRTC library are outside: \<open>ice_lib\<close> has the JSON text of a
  candidate, \<open>None\<close> where \<open>json.Marshal(ic.ToJSON())\<close> fails, and what \<open>json.Unmarshal\<close> leaves of a text
  in a fresh \<open>ICECandidateInit\<close>, whether it reports an error or not.
\<close>

section \<open>Messages\<close>

record sm_msg =
  msg_Type :: bytes
  msg_Data :: bytes

definition signalMessengerOffer :: bytes where "signalMessengerOffer = ''OFFER''"
definition signalMessengerAnswer :: bytes where "signalMessengerAnswer = ''ANSWER''"
definition signalMessengerIceCandidate :: bytes where "signalMessengerIceCandidate = ''ICE_CANDIDATE''"

definition marshal_msg :: "sm_msg \<Rightarrow> bytes" where
  "marshal_msg m =
     CHR ''{'' # json_quote ''type'' @ CHR '':'' # json_quote (msg_Type m) @
     CHR '','' # json_quote ''data'' @ CHR '':'' # json_quote (msg_Data m) @ ''}''"

text \<open>
  A string sets its field, \<open>null\<close> leaves it alone, anything else is an error that is kept until the
  whole object is read; unknown keys are skipped.
\<close>

definition string_field :: "json \<Rightarrow> bytes \<Rightarrow> bytes \<times> bool" where
  "string_field v old = (case v of JStr s \<Rightarrow> (s, False) | JNull \<Rightarrow> (old, False) | _ \<Rightarrow> (old, True))"

fun decode_member :: "bytes \<times> json \<Rightarrow> sm_msg \<times> bool \<Rightarrow> sm_msg \<times> bool" where
  "decode_member (k, v) (m, bad) =
     (if field_matches ''type'' k then
        (case string_field v (msg_Type m) of (s, e) \<Rightarrow> (m\<lparr>msg_Type := s\<rparr>, bad \<or> e))
      else if field_matches ''data'' k then
        (case string_field v (msg_Data m) of (s, e) \<Rightarrow> (m\<lparr>msg_Data := s\<rparr>, bad \<or> e))
      else (m, bad))"

definition empty_msg :: sm_msg where
  "empty_msg = \<lparr>msg_Type = [], msg_Data = []\<rparr>"

definition unmarshal_msg :: "bytes \<Rightarrow> sm_msg option" where
  "unmarshal_msg b =
     (case json_parse b of
        Some (JObj kvs) \<Rightarrow>
          (case fold decode_member kvs (empty_msg, False) of (m, bad) \<Rightarrow> if bad then None else Some m)
      | Some JNull \<Rightarrow> Some empty_msg
      | _ \<Rightarrow> None)"

section \<open>The messenger\<close>

record ('s, 'e) link =
  l_Read :: "'s \<Rightarrow> ('s \<times> ('e, bytes) res) option"
  l_Write :: "bytes \<Rightarrow> 's \<Rightarrow> 's \<times> ('e, unit) res"
  l_Close :: "'s \<Rightarrow> 's \<times> ('e, unit) res"

record ('k, 'c) ice_lib =
  cand_JSON :: "'k \<Rightarrow> bytes option"
  cand_Init :: "bytes \<Rightarrow> 'c"

datatype 'c signal = Offer bytes | Answer bytes | Candidate 'c

datatype sig_kind = KAnswer | KOffer | KCandidate

instantiation sig_kind :: enum
begin

definition "enum_sig_kind = [KAnswer, KOffer, KCandidate]"
definition "enum_all_sig_kind P \<longleftrightarrow> P KAnswer \<and> P KOffer \<and> P KCandidate"
definition "enum_ex_sig_kind P \<longleftrightarrow> P KAnswer \<or> P KOffer \<or> P KCandidate"

instance
proof
  show "UNIV = set (Enum.enum :: sig_kind list)"
    using sig_kind.exhaust by (auto simp: enum_sig_kind_def)
qed (auto simp: enum_sig_kind_def enum_all_sig_kind_def enum_ex_sig_kind_def intro: sig_kind.exhaust,
     (metis sig_kind.exhaust)+)

end

lemma all_sig_kind: "(\<forall>k. P k) \<longleftrightarrow> P KAnswer \<and> P KOffer \<and> P KCandidate" for P :: "sig_kind \<Rightarrow> bool"
  by (metis sig_kind.exhaust)

text \<open>
  Where \<open>readLoop\<close> stands: at the top of the loop, in the send of a signal, after a \<open>break\<close>, or in a
  panic of the messenger. The state has the three channels as whether each is closed; the one
  possible sender at each is the loop itself.
\<close>

datatype 'c loop_pc = AtTop | Sending "'c signal" | Ended | Crashed

record ('s, 'c) signaller =
  sg_io :: 's
  sg_ctx :: go_ctx
  sg_loop :: "'c loop_pc"
  sg_closed :: "sig_kind \<Rightarrow> bool"

definition NewSignalMessenger :: "go_ctx \<Rightarrow> 's \<Rightarrow> ('s, 'c) signaller" where
  "NewSignalMessenger ctx io = \<lparr>sg_io = io, sg_ctx = ctx, sg_loop = AtTop, sg_closed = (\<lambda>_. False)\<rparr>"

definition ICECandidateInit :: "('k, 'c) ice_lib \<Rightarrow> sm_msg \<Rightarrow> 'c" where
  "ICECandidateInit L m = cand_Init L (msg_Data m)"

text \<open>The \<open>switch\<close> on the type of a message.\<close>

definition msg_signal :: "('k, 'c) ice_lib \<Rightarrow> sm_msg \<Rightarrow> 'c signal option" where
  "msg_signal L m =
     (if msg_Type m = signalMessengerOffer then Some (Offer (msg_Data m))
      else if msg_Type m = signalMessengerAnswer then Some (Answer (msg_Data m))
      else if msg_Type m = signalMessengerIceCandidate then Some (Candidate (ICECandidateInit L m))
      else None)"

text \<open>One turn of the loop up to its send; \<open>None\<close> while the read waits.\<close>

definition readLoop_read ::
    "('k, 'c) ice_lib \<Rightarrow> ('s, 'e) link \<Rightarrow> ('s, 'c) signaller \<Rightarrow> ('s, 'c) signaller option" where
  "readLoop_read L M \<sigma> =
     (if sg_ctx \<sigma> \<noteq> None then Some (\<sigma>\<lparr>sg_loop := Ended\<rparr>)
      else case l_Read M (sg_io \<sigma>) of
        None \<Rightarrow> None
      | Some (io, Err e) \<Rightarrow> Some (\<sigma>\<lparr>sg_io := io, sg_loop := Ended\<rparr>)
      | Some (io, Panic) \<Rightarrow> Some (\<sigma>\<lparr>sg_io := io, sg_loop := Crashed\<rparr>)
      | Some (io, Ok b) \<Rightarrow>
          (case unmarshal_msg b of
             None \<Rightarrow> Some (\<sigma>\<lparr>sg_io := io\<rparr>)
           | Some m \<Rightarrow>
               (case msg_signal L m of
                  None \<Rightarrow> Some (\<sigma>\<lparr>sg_io := io\<rparr>)
                | Some x \<Rightarrow> Some (\<sigma>\<lparr>sg_io := io, sg_loop := Sending x\<rparr>))))"

text \<open>A channel as its users see it: the loop may be blocked at it, unless it is closed.\<close>

definition loop_chan :: "bool \<Rightarrow> 'a list \<Rightarrow> 'a chan" where
  "loop_chan closed vs =
     \<lparr>ch_closed = closed, ch_receivers = 0, ch_senders = (if closed then [] else vs), ch_handed = []\<rparr>"

definition offer_chan :: "('s, 'c) signaller \<Rightarrow> bytes chan" where
  "offer_chan \<sigma> = loop_chan (sg_closed \<sigma> KOffer) (case sg_loop \<sigma> of Sending (Offer v) \<Rightarrow> [v] | _ \<Rightarrow> [])"

definition answer_chan :: "('s, 'c) signaller \<Rightarrow> bytes chan" where
  "answer_chan \<sigma> = loop_chan (sg_closed \<sigma> KAnswer) (case sg_loop \<sigma> of Sending (Answer v) \<Rightarrow> [v] | _ \<Rightarrow> [])"

definition ican_chan :: "('s, 'c) signaller \<Rightarrow> 'c chan" where
  "ican_chan \<sigma> = loop_chan (sg_closed \<sigma> KCandidate) (case sg_loop \<sigma> of Sending (Candidate v) \<Rightarrow> [v] | _ \<Rightarrow> [])"

text \<open>
  A receive that takes the value of the blocked loop lets the loop go on; the \<open>chanSend\<close> of the loop
  otherwise ends only with an error, which is ignored, and the value is lost.
\<close>

definition received :: "('s, 'c) signaller \<Rightarrow> ('a chan \<times> (chan_error, 'a) res) \<Rightarrow> ('s, 'c) signaller \<times> (chan_error, 'a) res" where
  "received \<sigma> cr = (case snd cr of Ok v \<Rightarrow> \<sigma>\<lparr>sg_loop := AtTop\<rparr> | _ \<Rightarrow> \<sigma>, snd cr)"

definition RecvOffer :: "go_ctx \<Rightarrow> ('s, 'c) signaller \<Rightarrow> (('s, 'c) signaller, bytes) outcomes" where
  "RecvOffer ctx \<sigma> = map (received \<sigma>) (chanRecv ctx (offer_chan \<sigma>))"

definition RecvAnswer :: "go_ctx \<Rightarrow> ('s, 'c) signaller \<Rightarrow> (('s, 'c) signaller, bytes) outcomes" where
  "RecvAnswer ctx \<sigma> = map (received \<sigma>) (chanRecv ctx (answer_chan \<sigma>))"

definition RecvICECandidate :: "go_ctx \<Rightarrow> ('s, 'c) signaller \<Rightarrow> (('s, 'c) signaller, 'c) outcomes" where
  "RecvICECandidate ctx \<sigma> = map (received \<sigma>) (chanRecv ctx (ican_chan \<sigma>))"

definition readLoop_send :: "('s, 'c) signaller \<Rightarrow> ('s, 'c) signaller list" where
  "readLoop_send \<sigma> =
     (case sg_loop \<sigma> of
        Sending (Offer v) \<Rightarrow> map (\<lambda>_. \<sigma>\<lparr>sg_loop := AtTop\<rparr>) (chanSend (sg_ctx \<sigma>) (offer_chan \<sigma>) v)
      | Sending (Answer v) \<Rightarrow> map (\<lambda>_. \<sigma>\<lparr>sg_loop := AtTop\<rparr>) (chanSend (sg_ctx \<sigma>) (answer_chan \<sigma>) v)
      | Sending (Candidate v) \<Rightarrow> map (\<lambda>_. \<sigma>\<lparr>sg_loop := AtTop\<rparr>) (chanSend (sg_ctx \<sigma>) (ican_chan \<sigma>) v)
      | _ \<Rightarrow> [])"

definition close_kind :: "sig_kind \<Rightarrow> ('s, 'c) signaller \<Rightarrow> ('s, 'c) signaller" where
  "close_kind k \<sigma> =
     \<sigma>\<lparr>sg_closed := (sg_closed \<sigma>)(k := ch_closed (fst (chanClose (loop_chan (sg_closed \<sigma> k) ([] :: unit list)))))\<rparr>"

definition signal_Close :: "('s, 'e) link \<Rightarrow> ('s, 'c) signaller \<Rightarrow> ('s, 'c) signaller \<times> ('e, unit) res" where
  "signal_Close M \<sigma> =
     (let \<sigma>' = close_kind KCandidate (close_kind KOffer (close_kind KAnswer \<sigma>)) in
      case l_Close M (sg_io \<sigma>') of (io, r) \<Rightarrow> (\<sigma>'\<lparr>sg_io := io\<rparr>, r))"

text \<open>
  The three senders. Marshalling a struct of two strings never fails; a nil candidate, which the
  library reports at the end of gathering, is not sent.
\<close>

datatype 'e send_error = MarshalFailed | LinkFailed 'e

definition SendOffer :: "('s, 'e) link \<Rightarrow> bytes \<Rightarrow> 's \<Rightarrow> 's \<times> ('e send_error, unit) res" where
  "SendOffer M offer io =
     apsnd (map_err LinkFailed) (l_Write M (marshal_msg \<lparr>msg_Type = signalMessengerOffer, msg_Data = offer\<rparr>) io)"

definition SendAnswer :: "('s, 'e) link \<Rightarrow> bytes \<Rightarrow> 's \<Rightarrow> 's \<times> ('e send_error, unit) res" where
  "SendAnswer M answer io =
     apsnd (map_err LinkFailed) (l_Write M (marshal_msg \<lparr>msg_Type = signalMessengerAnswer, msg_Data = answer\<rparr>) io)"

definition SendICECandidate ::
    "('k, 'c) ice_lib \<Rightarrow> ('s, 'e) link \<Rightarrow> 'k option \<Rightarrow> 's \<Rightarrow> 's \<times> ('e send_error, unit) res" where
  "SendICECandidate L M ic io =
     (case ic of
        None \<Rightarrow> (io, Ok ())
      | Some k \<Rightarrow>
          (case cand_JSON L k of
             None \<Rightarrow> (io, Err MarshalFailed)
           | Some b \<Rightarrow> apsnd (map_err LinkFailed)
               (l_Write M (marshal_msg \<lparr>msg_Type = signalMessengerIceCandidate, msg_Data = b\<rparr>) io)))"

section \<open>A message comes through\<close>

lemma to_valid_types:
  "to_valid ''type'' = ''type''" "to_valid ''data'' = ''data''"
  "to_valid signalMessengerOffer = signalMessengerOffer"
  "to_valid signalMessengerAnswer = signalMessengerAnswer"
  "to_valid signalMessengerIceCandidate = signalMessengerIceCandidate"
  by (rule to_valid_ascii,
      simp add: signalMessengerOffer_def signalMessengerAnswer_def signalMessengerIceCandidate_def byte_val_def)+

lemma field_names: "field_matches ''type'' ''type''" "field_matches ''data'' ''data''"
    "\<not> field_matches ''type'' ''data''"
  by (simp_all add: field_matches_def case_mask_def byte_val_def)

lemma json_parse_msg:
  "json_parse (marshal_msg m) =
     Some (JObj [(''type'', JStr (to_valid (msg_Type m))), (''data'', JStr (to_valid (msg_Data m)))])"
  by (simp add: json_parse_def marshal_msg_def lex_puncts lex_quote to_valid_types scalar_def
      open_frame_def maxNestingDepth_def)

lemma unmarshal_marshal:
  "unmarshal_msg (marshal_msg m) = Some \<lparr>msg_Type = to_valid (msg_Type m), msg_Data = to_valid (msg_Data m)\<rparr>"
  by (simp add: unmarshal_msg_def json_parse_msg field_names string_field_def empty_msg_def)

end
