(* ===== verification/SignalOrder.thy ===== *)
theory SignalOrder
  imports SignalMessenger
begin

text \<open>
  One node sends offers, answers and candidates, the other receives them through its \<open>readLoop\<close>: the
  two ends of \<open>signal-messenger.go\<close> as a system, and the queue of signals it implements.
\<close>

section \<open>The system\<close>

text \<open>
  The state is that of the receiving messenger, whose link also takes the writes of the sending
  node. A step is labelled with the signal that a successful send puts in, or the one that a
  receive takes out, in the form in which it is received. A send is one step here, which sends that
  do not overlap are; \<open>SendRace\<close> has those that do.
\<close>

datatype 'c sig_label = Sent "'c signal" | Got "'c signal" | Lost | Shut | Internal

inductive sig_step ::
    "('k, 'c) ice_lib \<Rightarrow> ('s, 'e) link \<Rightarrow> ('s, 'c) signaller \<Rightarrow> 'c sig_label \<Rightarrow> ('s, 'c) signaller \<Rightarrow> bool"
  for L M where
  send_offer: "SendOffer M s (sg_io \<sigma>) = (io, Ok ()) \<Longrightarrow>
    sig_step L M \<sigma> (Sent (Offer (to_valid s))) (\<sigma>\<lparr>sg_io := io\<rparr>)"
| send_answer: "SendAnswer M s (sg_io \<sigma>) = (io, Ok ()) \<Longrightarrow>
    sig_step L M \<sigma> (Sent (Answer (to_valid s))) (\<sigma>\<lparr>sg_io := io\<rparr>)"
| send_candidate: "cand_JSON L k = Some b \<Longrightarrow> SendICECandidate L M (Some k) (sg_io \<sigma>) = (io, Ok ()) \<Longrightarrow>
    sig_step L M \<sigma> (Sent (Candidate (cand_Init L (to_valid b)))) (\<sigma>\<lparr>sg_io := io\<rparr>)"
| send_nil: "SendICECandidate L M None (sg_io \<sigma>) = (io, r) \<Longrightarrow> sig_step L M \<sigma> Internal (\<sigma>\<lparr>sg_io := io\<rparr>)"
| send_failed: "(io, Err e) \<in> {SendOffer M s (sg_io \<sigma>), SendAnswer M s (sg_io \<sigma>), SendICECandidate L M (Some k) (sg_io \<sigma>)} \<Longrightarrow>
    sig_step L M \<sigma> Internal (\<sigma>\<lparr>sg_io := io\<rparr>)"
| read: "sg_loop \<sigma> = AtTop \<Longrightarrow> readLoop_read L M \<sigma> = Some \<sigma>' \<Longrightarrow> sig_step L M \<sigma> Internal \<sigma>'"
| got_offer: "(\<sigma>', Ok v) \<in> set (RecvOffer ctx \<sigma>) \<Longrightarrow> sig_step L M \<sigma> (Got (Offer v)) \<sigma>'"
| got_answer: "(\<sigma>', Ok v) \<in> set (RecvAnswer ctx \<sigma>) \<Longrightarrow> sig_step L M \<sigma> (Got (Answer v)) \<sigma>'"
| got_candidate: "(\<sigma>', Ok v) \<in> set (RecvICECandidate ctx \<sigma>) \<Longrightarrow> sig_step L M \<sigma> (Got (Candidate v)) \<sigma>'"
| give_up: "\<sigma>' \<in> set (readLoop_send \<sigma>) \<Longrightarrow> sig_step L M \<sigma> Lost \<sigma>'"
| cancel: "sig_step L M \<sigma> Shut (\<sigma>\<lparr>sg_ctx := Some e\<rparr>)"
| close_all: "sig_step L M \<sigma> Shut (fst (signal_Close M \<sigma>))"

inductive sig_run ::
    "('k, 'c) ice_lib \<Rightarrow> ('s, 'e) link \<Rightarrow> ('s, 'c) signaller \<Rightarrow> 'c sig_label list \<Rightarrow> ('s, 'c) signaller \<Rightarrow> bool"
  for L M \<sigma>0 where
  start: "sig_run L M \<sigma>0 [] \<sigma>0"
| extend: "sig_run L M \<sigma>0 ls \<sigma> \<Longrightarrow> sig_step L M \<sigma> l \<sigma>' \<Longrightarrow> sig_run L M \<sigma>0 (ls @ [l]) \<sigma>'"

lemma sig_run_Cons: "sig_step L M \<sigma> l \<sigma>1 \<Longrightarrow> sig_run L M \<sigma>1 ls \<sigma>' \<Longrightarrow> sig_run L M \<sigma> (l # ls) \<sigma>'"
proof (rotate_tac, induction rule: sig_run.induct)
  case start
  then show ?case using sig_run.extend [OF sig_run.start] by fastforce
next
  case (extend ls \<sigma>' l' \<sigma>'')
  then show ?case using sig_run.extend by fastforce
qed

text \<open>Turns of the reading loop alone.\<close>

definition loop_turn ::
    "('k, 'c) ice_lib \<Rightarrow> ('s, 'e) link \<Rightarrow> ('s, 'c) signaller \<Rightarrow> ('s, 'c) signaller \<Rightarrow> bool" where
  "loop_turn L M \<sigma> \<sigma>' \<longleftrightarrow> sg_loop \<sigma> = AtTop \<and> readLoop_read L M \<sigma> = Some \<sigma>'"

lemma turns_run: "(loop_turn L M)\<^sup>*\<^sup>* \<sigma> \<sigma>' \<Longrightarrow> \<exists>ls. sig_run L M \<sigma> ls \<sigma>' \<and> set ls \<subseteq> {Internal}"
proof (induction rule: rtranclp_induct)
  case base
  show ?case by (intro exI [of _ "[]"]) (simp add: sig_run.start)
next
  case (step \<sigma>1 \<sigma>2)
  then obtain ls where l: "sig_run L M \<sigma> ls \<sigma>1" "set ls \<subseteq> {Internal}" by blast
  have "sig_step L M \<sigma>1 Internal \<sigma>2" using step(2) by (simp add: loop_turn_def sig_step.read)
  from sig_run.extend [OF l(1) this] l(2) show ?case by (intro exI [of _ "ls @ [Internal]"]) simp
qed

section \<open>The abstract queue\<close>

text \<open>
  What the callers may rely on: one queue of signals, from which only the first can be taken, by a
  receive of its kind. Signals are lost only after the receiver was shut.
\<close>

record 'c fifo =
  queue :: "'c signal list"
  live :: bool

inductive fifo_step :: "'c fifo \<Rightarrow> 'c sig_label \<Rightarrow> 'c fifo \<Rightarrow> bool" where
  "fifo_step q (Sent x) (q\<lparr>queue := queue q @ [x]\<rparr>)"
| "queue q = x # xs \<Longrightarrow> fifo_step q (Got x) (q\<lparr>queue := xs\<rparr>)"
| "queue q = x # xs \<Longrightarrow> \<not> live q \<Longrightarrow> fifo_step q Lost (q\<lparr>queue := xs\<rparr>)"
| "fifo_step q Shut (q\<lparr>live := False\<rparr>)"
| "fifo_step q Internal q"

inductive fifo_run :: "'c fifo \<Rightarrow> 'c sig_label list \<Rightarrow> 'c fifo \<Rightarrow> bool" for q0 where
  start: "fifo_run q0 [] q0"
| extend: "fifo_run q0 ls q \<Longrightarrow> fifo_step q l q' \<Longrightarrow> fifo_run q0 (ls @ [l]) q'"

inductive_simps fifo_step_simps [simp]:
  "fifo_step q (Sent x) q'" "fifo_step q (Got x) q'" "fifo_step q Lost q'" "fifo_step q Shut q'"
  "fifo_step q Internal q'"

fun sent :: "'c sig_label list \<Rightarrow> 'c signal list" where
  "sent [] = []"
| "sent (Sent x # ls) = x # sent ls"
| "sent (l # ls) = sent ls"

fun got :: "'c sig_label list \<Rightarrow> 'c signal list" where
  "got [] = []"
| "got (Got x # ls) = x # got ls"
| "got (l # ls) = got ls"

lemma sent_append [simp]: "sent (ls @ ms) = sent ls @ sent ms"
  by (induction ls rule: sent.induct) auto

lemma got_append [simp]: "got (ls @ ms) = got ls @ got ms"
  by (induction ls rule: got.induct) auto

lemma fifo_order:
  "fifo_run q0 ls q \<Longrightarrow> live q0 \<Longrightarrow> Shut \<notin> set ls \<Longrightarrow>
     live q \<and> queue q0 @ sent ls = got ls @ queue q"
proof (induction rule: fifo_run.induct)
  case (extend ls q l q')
  then show ?case by (cases l) auto
qed simp

lemma fifo_subseq:
  "fifo_run q0 ls q \<Longrightarrow> subseq (got ls @ queue q) (queue q0 @ sent ls)"
proof (induction rule: fifo_run.induct)
  case (extend ls q l q')
  then show ?case
  proof (cases l)
    case (Sent x)
    with extend have "q' = q\<lparr>queue := queue q @ [x]\<rparr>" by simp
    with Sent extend.IH show ?thesis by (simp add: list_emb_append_mono flip: append_assoc)
  next
    case Lost
    with extend obtain x xs where "queue q = x # xs" "queue q' = xs" by auto
    then have "subseq (got ls @ queue q') (got ls @ queue q)"
      by (simp add: subseq_append' subseq_Cons')
    with Lost extend.IH show ?thesis by (simp add: subseq_order.order_trans)
  qed (use extend in auto)
qed simp

section \<open>The interface of a link\<close>

text \<open>
  What the signalling needs of the messenger below it: the messages that were written and not yet
  read form a queue; an error leaves it alone, nothing panics, and an open link with a message can
  be read.
\<close>

locale message_link =
  fixes M :: "('s, 'e) link"
    and ok :: "'s \<Rightarrow> bool"
    and pending :: "'s \<Rightarrow> bytes list"
    and is_open :: "'s \<Rightarrow> bool"
  assumes write_law: "ok s \<Longrightarrow> l_Write M b s = (s', r) \<Longrightarrow>
      ok s' \<and> r \<noteq> Panic \<and> pending s' = pending s @ (if r = Ok () then [b] else []) \<and> is_open s' = is_open s"
    and read_law: "ok s \<Longrightarrow> l_Read M s = Some (s', Ok b) \<Longrightarrow>
      ok s' \<and> pending s = b # pending s' \<and> is_open s' = is_open s"
    and read_error: "ok s \<Longrightarrow> l_Read M s = Some (s', Err e) \<Longrightarrow> ok s' \<and> pending s' = pending s \<and> \<not> is_open s"
    and read_safe: "ok s \<Longrightarrow> l_Read M s \<noteq> Some (s', Panic)"
    and close_law: "ok s \<Longrightarrow> ok (fst (l_Close M s)) \<and> pending (fst (l_Close M s)) = pending s"
    and read_live: "ok s \<Longrightarrow> is_open s \<Longrightarrow> pending s = b # bs \<Longrightarrow> \<exists>s'. l_Read M s = Some (s', Ok b)"
begin

lemma send_law:
  assumes "ok s" and "apsnd (map_err LinkFailed) (l_Write M b s) = (s', r)"
  shows "ok s' \<and> r \<noteq> Panic \<and> pending s' = pending s @ (if r = Ok () then [b] else []) \<and> is_open s' = is_open s"
  using assms write_law [of s b] by (cases "l_Write M b s") auto

end

text \<open>What the loop will make of the messages in the link, and the abstraction of a state.\<close>

definition decoded :: "('k, 'c) ice_lib \<Rightarrow> bytes list \<Rightarrow> 'c signal list" where
  "decoded L bs = List.map_filter (\<lambda>b. Option.bind (unmarshal_msg b) (msg_signal L)) bs"

definition abs_fifo ::
    "('k, 'c) ice_lib \<Rightarrow> ('s \<Rightarrow> bytes list) \<Rightarrow> ('s, 'c) signaller \<Rightarrow> 'c fifo" where
  "abs_fifo L pending \<sigma> =
     \<lparr>queue = (case sg_loop \<sigma> of Sending x \<Rightarrow> [x] | _ \<Rightarrow> []) @ decoded L (pending (sg_io \<sigma>)),
      live = (sg_ctx \<sigma> = None \<and> (\<forall>k. \<not> sg_closed \<sigma> k))\<rparr>"

lemma decoded_simps [simp]:
  "decoded L [] = []" "decoded L (bs @ cs) = decoded L bs @ decoded L cs"
  "decoded L (b # bs) =
     (case Option.bind (unmarshal_msg b) (msg_signal L) of None \<Rightarrow> [] | Some x \<Rightarrow> [x]) @ decoded L bs"
  by (simp_all add: decoded_def map_filter_def split: option.splits)

lemma signal_types:
  "signalMessengerAnswer \<noteq> signalMessengerOffer" "signalMessengerIceCandidate \<noteq> signalMessengerOffer"
  "signalMessengerIceCandidate \<noteq> signalMessengerAnswer"
  by (simp_all add: signalMessengerOffer_def signalMessengerAnswer_def signalMessengerIceCandidate_def)

lemma decoded_sent [simp]:
  "decoded L [marshal_msg \<lparr>msg_Type = signalMessengerOffer, msg_Data = s\<rparr>] = [Offer (to_valid s)]"
  "decoded L [marshal_msg \<lparr>msg_Type = signalMessengerAnswer, msg_Data = s\<rparr>] = [Answer (to_valid s)]"
  "decoded L [marshal_msg \<lparr>msg_Type = signalMessengerIceCandidate, msg_Data = s\<rparr>] = [Candidate (cand_Init L (to_valid s))]"
  by (simp_all add: unmarshal_marshal to_valid_types msg_signal_def ICECandidateInit_def signal_types)

text \<open>A receive succeeds exactly when the loop is blocked with a signal of its kind.\<close>

lemma in_RecvOffer:
  "(\<sigma>', Ok v) \<in> set (RecvOffer ctx \<sigma>) \<longleftrightarrow>
     sg_loop \<sigma> = Sending (Offer v) \<and> \<not> sg_closed \<sigma> KOffer \<and> \<sigma>' = \<sigma>\<lparr>sg_loop := AtTop\<rparr>"
  by (auto simp: RecvOffer_def received_def in_chanRecv offer_chan_def loop_chan_def image_iff
      split: loop_pc.splits signal.splits if_splits intro!: bexI [where x = "(_, Ok v)"])

lemma in_RecvAnswer:
  "(\<sigma>', Ok v) \<in> set (RecvAnswer ctx \<sigma>) \<longleftrightarrow>
     sg_loop \<sigma> = Sending (Answer v) \<and> \<not> sg_closed \<sigma> KAnswer \<and> \<sigma>' = \<sigma>\<lparr>sg_loop := AtTop\<rparr>"
  by (auto simp: RecvAnswer_def received_def in_chanRecv answer_chan_def loop_chan_def image_iff
      split: loop_pc.splits signal.splits if_splits intro!: bexI [where x = "(_, Ok v)"])

lemma in_RecvICECandidate:
  "(\<sigma>', Ok v) \<in> set (RecvICECandidate ctx \<sigma>) \<longleftrightarrow>
     sg_loop \<sigma> = Sending (Candidate v) \<and> \<not> sg_closed \<sigma> KCandidate \<and> \<sigma>' = \<sigma>\<lparr>sg_loop := AtTop\<rparr>"
  by (auto simp: RecvICECandidate_def received_def in_chanRecv ican_chan_def loop_chan_def image_iff
      split: loop_pc.splits signal.splits if_splits intro!: bexI [where x = "(_, Ok v)"])

lemmas in_Recv = in_RecvOffer in_RecvAnswer in_RecvICECandidate

lemma chanSend_loop_chan: "chanSend ctx (loop_chan cl vs) v \<noteq> [] \<longleftrightarrow> ctx \<noteq> None \<or> cl"
  by (auto simp: chanSend_blocks loop_chan_def)

lemma in_map_const: "y \<in> set (map (\<lambda>_. c) xs) \<longleftrightarrow> y = c \<and> xs \<noteq> []"
  by (cases xs) auto

lemma in_readLoop_send:
  assumes "\<sigma>' \<in> set (readLoop_send \<sigma>)"
  shows "(\<exists>x. sg_loop \<sigma> = Sending x) \<and> (sg_ctx \<sigma> \<noteq> None \<or> (\<exists>k. sg_closed \<sigma> k)) \<and> \<sigma>' = \<sigma>\<lparr>sg_loop := AtTop\<rparr>"
proof -
  obtain x where x: "sg_loop \<sigma> = Sending x"
    using assms by (cases "sg_loop \<sigma>") (auto simp: readLoop_send_def)
  with assms show ?thesis
    by (cases x) (auto simp: readLoop_send_def in_map_const offer_chan_def answer_chan_def ican_chan_def
        chanSend_loop_chan simp del: set_map)
qed

lemma signal_Close_closed: "sg_closed (fst (signal_Close M \<sigma>)) k"
  by (cases k) (simp_all add: signal_Close_def close_kind_def chanClose_eq loop_chan_def Let_def split: prod.splits)

lemma signal_Close_rest:
  "sg_loop (fst (signal_Close M \<sigma>)) = sg_loop \<sigma>" "sg_io (fst (signal_Close M \<sigma>)) = fst (l_Close M (sg_io \<sigma>))"
  "sg_ctx (fst (signal_Close M \<sigma>)) = sg_ctx \<sigma>"
  by (simp_all add: signal_Close_def close_kind_def Let_def split: prod.splits)

section \<open>Refinement\<close>

context message_link
begin

lemma sent_abs:
  assumes "ok (sg_io \<sigma>)" and "apsnd (map_err LinkFailed) (l_Write M b (sg_io \<sigma>)) = (io, Ok ())"
    and "decoded L [b] = [x]"
  shows "ok io \<and> fifo_step (abs_fifo L pending \<sigma>) (Sent x) (abs_fifo L pending (\<sigma>\<lparr>sg_io := io\<rparr>))"
  using send_law [OF assms(1,2)] assms(3) by (simp add: abs_fifo_def del: decoded_simps(3))

lemma failed_abs:
  assumes "ok (sg_io \<sigma>)"
    and "(io, Err e) \<in> {SendOffer M s (sg_io \<sigma>), SendAnswer M s (sg_io \<sigma>), SendICECandidate L M (Some k) (sg_io \<sigma>)}"
  shows "ok io \<and> pending io = pending (sg_io \<sigma>)"
  using assms send_law [OF assms(1), of _ io "Err e"]
  by (auto simp: SendOffer_def SendAnswer_def SendICECandidate_def split: option.splits)

lemma read_abs:
  assumes "ok (sg_io \<sigma>)" and "sg_loop \<sigma> = AtTop" and "readLoop_read L M \<sigma> = Some \<sigma>'"
  shows "ok (sg_io \<sigma>') \<and> abs_fifo L pending \<sigma>' = abs_fifo L pending \<sigma>"
proof (cases "sg_ctx \<sigma> = None")
  case False
  with assms show ?thesis by (auto simp: readLoop_read_def abs_fifo_def)
next
  case True
  with assms obtain io r where r: "l_Read M (sg_io \<sigma>) = Some (io, r)"
    by (auto simp: readLoop_read_def split: option.splits)
  show ?thesis
  proof (cases r)
    case (Ok b)
    with read_law [OF assms(1)] r have "ok io" "pending (sg_io \<sigma>) = b # pending io" by auto
    with True assms r Ok show ?thesis
      by (auto simp: readLoop_read_def abs_fifo_def split: option.splits)
  next
    case (Err e)
    with read_error [OF assms(1)] r have "ok io" "pending io = pending (sg_io \<sigma>)" by auto
    with True assms r Err show ?thesis by (auto simp: readLoop_read_def abs_fifo_def)
  next
    case Panic
    with read_safe [OF assms(1)] r show ?thesis by blast
  qed
qed

lemma step_refines:
  assumes "sig_step L M \<sigma> l \<sigma>'" and "ok (sg_io \<sigma>)"
  shows "ok (sg_io \<sigma>') \<and> fifo_step (abs_fifo L pending \<sigma>) l (abs_fifo L pending \<sigma>')"
  using assms
proof (induction rule: sig_step.induct)
  case (send_offer s \<sigma> io)
  then show ?case using sent_abs [OF _ _ decoded_sent(1)] by (simp add: SendOffer_def del: fifo_step_simps)
next
  case (send_answer s \<sigma> io)
  then show ?case using sent_abs [OF _ _ decoded_sent(2)] by (simp add: SendAnswer_def del: fifo_step_simps)
next
  case (send_candidate k b \<sigma> io)
  then show ?case using sent_abs [OF _ _ decoded_sent(3)] by (simp add: SendICECandidate_def del: fifo_step_simps)
next
  case (send_nil \<sigma> io r)
  then show ?case by (auto simp: SendICECandidate_def abs_fifo_def)
next
  case (send_failed io e s \<sigma> k)
  from failed_abs [OF send_failed(2,1)] show ?case by (simp add: abs_fifo_def)
next
  case (read \<sigma> \<sigma>')
  from read_abs [OF read(3,1,2)] show ?case by simp
next
  case (give_up \<sigma>' \<sigma>)
  from in_readLoop_send [OF give_up(1)] give_up(2) show ?case by (auto simp: abs_fifo_def)
next
  case (close_all \<sigma>)
  with close_law [OF close_all] show ?case
    by (simp add: abs_fifo_def signal_Close_rest signal_Close_closed)
qed (auto simp: in_Recv abs_fifo_def)

lemma run_refines:
  "sig_run L M \<sigma>0 ls \<sigma> \<Longrightarrow> ok (sg_io \<sigma>0) \<Longrightarrow>
     ok (sg_io \<sigma>) \<and> fifo_run (abs_fifo L pending \<sigma>0) ls (abs_fifo L pending \<sigma>)"
  by (induction rule: sig_run.induct) (auto intro: fifo_run.intros dest: step_refines)

text \<open>Until the receiver is shut, its loop runs and the link stays open.\<close>

definition running :: "('s, 'c) signaller \<Rightarrow> bool" where
  "running \<sigma> \<longleftrightarrow> is_open (sg_io \<sigma>) \<and> sg_ctx \<sigma> = None \<and> (\<forall>k. \<not> sg_closed \<sigma> k)
     \<and> sg_loop \<sigma> \<noteq> Ended \<and> sg_loop \<sigma> \<noteq> Crashed"

lemma send_open:
  assumes "ok s"
  shows "SendOffer M v s = (io, r) \<Longrightarrow> is_open io = is_open s"
    "SendAnswer M v s = (io, r) \<Longrightarrow> is_open io = is_open s"
    "SendICECandidate L M c s = (io, r) \<Longrightarrow> is_open io = is_open s"
proof -
  show "SendOffer M v s = (io, r) \<Longrightarrow> is_open io = is_open s"
    using send_law [OF assms] unfolding SendOffer_def by blast
  show "SendAnswer M v s = (io, r) \<Longrightarrow> is_open io = is_open s"
    using send_law [OF assms] unfolding SendAnswer_def by blast
  show "SendICECandidate L M c s = (io, r) \<Longrightarrow> is_open io = is_open s"
    using send_law [OF assms] unfolding SendICECandidate_def by (cases c) (auto split: option.splits)
qed

lemma step_running:
  assumes "sig_step L M \<sigma> l \<sigma>'" and "ok (sg_io \<sigma>)" and "l \<noteq> Shut" and "running \<sigma>"
  shows "running \<sigma>'"
  using assms
proof (induction rule: sig_step.induct)
  case (read \<sigma> \<sigma>')
  then obtain io r where r: "l_Read M (sg_io \<sigma>) = Some (io, r)"
    by (auto simp: readLoop_read_def running_def split: option.splits)
  obtain b where b: "r = Ok b"
    using r read_error [OF read(3)] read_safe [OF read(3)] read(5) by (cases r) (auto simp: running_def)
  have "is_open io" using read_law [OF read(3)] r b read(5) by (simp add: running_def)
  with read(2,5) r b show ?case by (auto simp: readLoop_read_def running_def split: option.splits)
next
  case (give_up \<sigma>' \<sigma>)
  with in_readLoop_send [OF give_up(1)] show ?case by (auto simp: running_def)
next
  case (send_failed io e s \<sigma> k)
  have "SendOffer M s (sg_io \<sigma>) = (io, Err e) \<or> SendAnswer M s (sg_io \<sigma>) = (io, Err e)
      \<or> SendICECandidate L M (Some k) (sg_io \<sigma>) = (io, Err e)"
    using send_failed(1) by auto
  then have "is_open io = is_open (sg_io \<sigma>)" using send_open [OF send_failed(2)] by blast
  with send_failed show ?case by (simp add: running_def)
next
  case (send_nil \<sigma> io r)
  with send_open(3) [OF send_nil(2,1)] show ?case by (simp add: running_def)
next
  case (send_offer s \<sigma> io)
  with send_open(1) [OF send_offer(2,1)] show ?case by (simp add: running_def)
next
  case (send_answer s \<sigma> io)
  with send_open(2) [OF send_answer(2,1)] show ?case by (simp add: running_def)
next
  case (send_candidate k b \<sigma> io)
  with send_open(3) [OF send_candidate(3,2)] show ?case by (simp add: running_def)
qed (auto simp: running_def in_Recv)

lemma run_running:
  "sig_run L M \<sigma>0 ls \<sigma> \<Longrightarrow> ok (sg_io \<sigma>0) \<Longrightarrow> running \<sigma>0 \<Longrightarrow> Shut \<notin> set ls \<Longrightarrow> running \<sigma>"
proof (induction rule: sig_run.induct)
  case (extend ls \<sigma> l \<sigma>')
  have "ok (sg_io \<sigma>)" using run_refines [OF extend(1,4)] by simp
  from step_running [OF extend(2) this] extend show ?case by auto
qed simp

text \<open>The first signal can always be had: the loop reads until it is blocked with it.\<close>

lemma head_turns:
  assumes "ok (sg_io \<sigma>)" and "running \<sigma>" and "queue (abs_fifo L pending \<sigma>) = x # xs"
  shows "\<exists>\<sigma>'. (loop_turn L M)\<^sup>*\<^sup>* \<sigma> \<sigma>' \<and> ok (sg_io \<sigma>') \<and> running \<sigma>' \<and> sg_loop \<sigma>' = Sending x
    \<and> abs_fifo L pending \<sigma>' = abs_fifo L pending \<sigma>"
  using assms
proof (induction "length (pending (sg_io \<sigma>))" arbitrary: \<sigma>)
  case 0
  then have "sg_loop \<sigma> = Sending x" by (auto simp: abs_fifo_def split: loop_pc.splits)
  with 0 show ?case by blast
next
  case (Suc n)
  show ?case
  proof (cases "sg_loop \<sigma> = AtTop")
    case False
    then have "sg_loop \<sigma> = Sending x"
      using Suc.prems(2,3) by (auto simp: abs_fifo_def running_def split: loop_pc.splits)
    with Suc.prems show ?thesis by blast
  next
    case True
    obtain b bs where p: "pending (sg_io \<sigma>) = b # bs" using Suc.hyps(2) by (cases "pending (sg_io \<sigma>)") auto
    obtain io where io: "l_Read M (sg_io \<sigma>) = Some (io, Ok b)"
      using read_live [OF Suc.prems(1) _ p] Suc.prems(2) by (auto simp: running_def)
    define \<sigma>1 where "\<sigma>1 = (case Option.bind (unmarshal_msg b) (msg_signal L) of
        None \<Rightarrow> \<sigma>\<lparr>sg_io := io\<rparr> | Some y \<Rightarrow> \<sigma>\<lparr>sg_io := io, sg_loop := Sending y\<rparr>)"
    have r: "readLoop_read L M \<sigma> = Some \<sigma>1"
      using Suc.prems(2) io by (auto simp: running_def readLoop_read_def \<sigma>1_def split: option.splits)
    have s: "sig_step L M \<sigma> Internal \<sigma>1" by (rule sig_step.read [OF True r])
    have "sg_io \<sigma>1 = io" by (simp add: \<sigma>1_def split: option.splits)
    with read_law [OF Suc.prems(1) io] p Suc.hyps(2) have n: "n = length (pending (sg_io \<sigma>1))" by simp
    have ok: "ok (sg_io \<sigma>1)" and q: "abs_fifo L pending \<sigma>1 = abs_fifo L pending \<sigma>"
      using read_abs [OF Suc.prems(1) True r] by simp_all
    have "running \<sigma>1" by (rule step_running [OF s Suc.prems(1) _ Suc.prems(2)]) simp
    from Suc.hyps(1) [OF n ok this] Suc.prems(3) q obtain \<sigma>' where
      "(loop_turn L M)\<^sup>*\<^sup>* \<sigma>1 \<sigma>'" "ok (sg_io \<sigma>')" "running \<sigma>'" "sg_loop \<sigma>' = Sending x"
      "abs_fifo L pending \<sigma>' = abs_fifo L pending \<sigma>" by metis
    moreover have "loop_turn L M \<sigma> \<sigma>1" using True r by (simp add: loop_turn_def)
    ultimately show ?thesis by (blast intro: converse_rtranclp_into_rtranclp)
  qed
qed

lemma head_arrives:
  assumes "ok (sg_io \<sigma>)" and "running \<sigma>" and "queue (abs_fifo L pending \<sigma>) = x # xs"
  shows "\<exists>ls \<sigma>'. sig_run L M \<sigma> ls \<sigma>' \<and> set ls \<subseteq> {Internal} \<and> running \<sigma>' \<and> sg_loop \<sigma>' = Sending x"
  using head_turns [OF assms] turns_run by blast

end

end
