(* ===== verification/Noised.thy ===== *)
theory Noised
  imports Identity
begin

text \<open>
  \<open>messenger-noised.go\<close>: the handshake of two nodes over a messenger, with pattern IX and a
  pre-shared key mixed in first, and the messenger that encrypts what it passes on.

  The Noise library is outside: \<open>noise_lib\<close> has its handshake states \<open>'h\<close> and cipher states \<open>'c\<close>
  with the five calls the code makes; each call returns the updated state. The messenger below is
  a state \<open>'m\<close> with its two operations, and the identity is what implements \<open>NoiseIdentity\<close>.
\<close>

record ('h, 'c) noise_lib =
  NewHandshakeState :: "bool \<Rightarrow> bytes \<Rightarrow> bytes \<times> bytes \<Rightarrow> bytes \<Rightarrow> 'h option"
  WriteMessage :: "'h \<Rightarrow> bytes \<Rightarrow> ('h \<times> bytes \<times> ('c \<times> 'c) option) option"
  ReadMessage :: "'h \<Rightarrow> bytes \<Rightarrow> ('h \<times> bytes \<times> ('c \<times> 'c) option) option"
  Encrypt :: "'c \<Rightarrow> bytes \<Rightarrow> 'c \<times> bytes option"
  Decrypt :: "'c \<Rightarrow> bytes \<Rightarrow> 'c \<times> bytes option"

text \<open>The interfaces \<open>Messenger\<close>, without \<open>Close\<close>, and \<open>NoiseIdentity\<close>.\<close>

record ('m, 'e) messenger =
  m_Read :: "'m \<Rightarrow> 'm \<times> ('e, bytes) res"
  m_Write :: "bytes \<Rightarrow> 'm \<Rightarrow> 'm \<times> ('e, unit) res"

record ('i, 'e) noise_identity =
  id_DHKey :: "'i \<Rightarrow> bytes \<times> bytes"
  id_PresharedKeys :: "'i \<Rightarrow> bytes list"
  id_Payload :: "'i \<Rightarrow> bytes"
  id_ValidatePeer :: "'i \<Rightarrow> bytes \<Rightarrow> 'i \<times> ('e, unit) res"

definition aether_identity :: "extern \<Rightarrow> time \<Rightarrow> (identity, id_error) noise_identity" where
  "aether_identity E now =
     \<lparr>id_DHKey = DHKey, id_PresharedKeys = PresharedKeys, id_Payload = Payload,
      id_ValidatePeer = ValidatePeer E now\<rparr>"

datatype ('e, 'v) noised_error =
    EphemeralFailed | HandshakeFailed | WriteFailed | ReadFailed | NoKeypair | NoMatchingPSK
  | IOFailed 'e | PeerRefused 'v | EncryptFailed | DecryptFailed

text \<open>The finished messenger: the handshake state is kept but not used again.\<close>

record ('h, 'c) noised =
  nm_dec :: 'c
  nm_enc :: 'c
  nm_hsk :: 'h

section \<open>The initiator\<close>

text \<open>\<open>ek\<close> is the generated ephemeral key, \<open>None\<close> when that failed.\<close>

definition initiator_psk :: "bytes list \<Rightarrow> bytes" where
  "initiator_psk psks = (if 0 < length psks then psks ! 0 else [])"

definition initiator_finish ::
    "('h, 'c) noise_lib \<Rightarrow> ('i, 'v) noise_identity \<Rightarrow> 'i \<Rightarrow> 'h \<Rightarrow> bytes
     \<Rightarrow> 'i \<times> (('e, 'v) noised_error, ('h, 'c) noised) res" where
  "initiator_finish N I i nhsk msg =
     (case ReadMessage N nhsk msg of
        None \<Rightarrow> (i, Err ReadFailed)
      | Some (nhsk', payload, ks) \<Rightarrow>
          (case ks of
             None \<Rightarrow> (i, Err NoKeypair)
           | Some (ki, kr) \<Rightarrow>
               (case id_ValidatePeer I i payload of
                  (i', Err v) \<Rightarrow> (i', Err (PeerRefused v))
                | (i', Panic) \<Rightarrow> (i', Panic)
                | (i', Ok _) \<Rightarrow> (i', Ok \<lparr>nm_dec = kr, nm_enc = ki, nm_hsk = nhsk'\<rparr>))))"

definition NewNoisedMessengerI ::
    "('h, 'c) noise_lib \<Rightarrow> bytes option \<Rightarrow> ('m, 'e) messenger \<Rightarrow> ('i, 'v) noise_identity \<Rightarrow> 'm \<Rightarrow> 'i
     \<Rightarrow> 'm \<times> 'i \<times> (('e, 'v) noised_error, ('h, 'c) noised) res" where
  "NewNoisedMessengerI N ek M I ioc i =
     (case ek of
        None \<Rightarrow> (ioc, i, Err EphemeralFailed)
      | Some e \<Rightarrow>
     (case NewHandshakeState N True (initiator_psk (id_PresharedKeys I i)) (id_DHKey I i) e of
        None \<Rightarrow> (ioc, i, Err HandshakeFailed)
      | Some hsk \<Rightarrow>
     (case WriteMessage N hsk (id_Payload I i) of
        None \<Rightarrow> (ioc, i, Err WriteFailed)
      | Some (nhsk, msg, _) \<Rightarrow>
     (case m_Write M msg ioc of
        (ioc1, Err x) \<Rightarrow> (ioc1, i, Err (IOFailed x))
      | (ioc1, Panic) \<Rightarrow> (ioc1, i, Panic)
      | (ioc1, Ok _) \<Rightarrow>
     (case m_Read M ioc1 of
        (ioc2, Err x) \<Rightarrow> (ioc2, i, Err (IOFailed x))
      | (ioc2, Panic) \<Rightarrow> (ioc2, i, Panic)
      | (ioc2, Ok reply) \<Rightarrow> (ioc2, initiator_finish N I i nhsk reply))))))"

section \<open>The responder\<close>

text \<open>
  The loop over the pre-shared keys. A handshake state that could read the message replaces an
  earlier one; the payload is assigned in every round, and is empty after a failed one.
\<close>

fun try_psks ::
    "('h, 'c) noise_lib \<Rightarrow> bytes \<times> bytes \<Rightarrow> bytes \<Rightarrow> bytes \<Rightarrow> 'h option \<Rightarrow> bytes \<Rightarrow> bytes list
     \<Rightarrow> (('e, 'v) noised_error, 'h option \<times> bytes) res" where
  "try_psks N dh e msg nhsk payload [] = Ok (nhsk, payload)"
| "try_psks N dh e msg nhsk payload (psk # psks) =
     (case NewHandshakeState N False psk dh e of
        None \<Rightarrow> Err HandshakeFailed
      | Some hsk \<Rightarrow>
          (case ReadMessage N hsk msg of
             None \<Rightarrow> try_psks N dh e msg nhsk [] psks
           | Some (hsk', p, _) \<Rightarrow> try_psks N dh e msg (Some hsk') p psks))"

definition responder_reply ::
    "('h, 'c) noise_lib \<Rightarrow> ('m, 'e) messenger \<Rightarrow> ('i, 'v) noise_identity \<Rightarrow> 'm \<Rightarrow> 'i \<Rightarrow> 'h
     \<Rightarrow> 'm \<times> 'i \<times> (('e, 'v) noised_error, ('h, 'c) noised) res" where
  "responder_reply N M I ioc i nhsk =
     (case WriteMessage N nhsk (id_Payload I i) of
        None \<Rightarrow> (ioc, i, Err WriteFailed)
      | Some (nhsk', msg, ks) \<Rightarrow>
          (case ks of
             None \<Rightarrow> (ioc, i, Err NoKeypair)
           | Some (ki, kr) \<Rightarrow>
               (case m_Write M msg ioc of
                  (ioc', Err x) \<Rightarrow> (ioc', i, Err (IOFailed x))
                | (ioc', Panic) \<Rightarrow> (ioc', i, Panic)
                | (ioc', Ok _) \<Rightarrow> (ioc', i, Ok \<lparr>nm_dec = ki, nm_enc = kr, nm_hsk = nhsk'\<rparr>))))"

text \<open>The length of the key list is never negative, so the list is used as it is.\<close>

definition NewNoisedMessengerR ::
    "('h, 'c) noise_lib \<Rightarrow> bytes option \<Rightarrow> ('m, 'e) messenger \<Rightarrow> ('i, 'v) noise_identity \<Rightarrow> 'm \<Rightarrow> 'i
     \<Rightarrow> 'm \<times> 'i \<times> (('e, 'v) noised_error, ('h, 'c) noised) res" where
  "NewNoisedMessengerR N ek M I ioc i =
     (case ek of
        None \<Rightarrow> (ioc, i, Err EphemeralFailed)
      | Some e \<Rightarrow>
     (case m_Read M ioc of
        (ioc1, Err x) \<Rightarrow> (ioc1, i, Err (IOFailed x))
      | (ioc1, Panic) \<Rightarrow> (ioc1, i, Panic)
      | (ioc1, Ok msg) \<Rightarrow>
     (case try_psks N (id_DHKey I i) e msg None [] (id_PresharedKeys I i) of
        Err x \<Rightarrow> (ioc1, i, Err x)
      | Panic \<Rightarrow> (ioc1, i, Panic)
      | Ok (None, payload) \<Rightarrow> (ioc1, i, Err NoMatchingPSK)
      | Ok (Some nhsk, payload) \<Rightarrow>
     (case id_ValidatePeer I i payload of
        (i', Err v) \<Rightarrow> (ioc1, i', Err (PeerRefused v))
      | (i', Panic) \<Rightarrow> (ioc1, i', Panic)
      | (i', Ok _) \<Rightarrow> responder_reply N M I ioc1 i' nhsk))))"

section \<open>Reading and writing\<close>

definition noised_Read ::
    "('h, 'c) noise_lib \<Rightarrow> ('m, 'e) messenger \<Rightarrow> 'm \<Rightarrow> ('h, 'c) noised
     \<Rightarrow> 'm \<times> ('h, 'c) noised \<times> (('e, 'v) noised_error, bytes) res" where
  "noised_Read N M ioc c =
     (case m_Read M ioc of
        (ioc', Err x) \<Rightarrow> (ioc', c, Err (IOFailed x))
      | (ioc', Panic) \<Rightarrow> (ioc', c, Panic)
      | (ioc', Ok b) \<Rightarrow>
          (case Decrypt N (nm_dec c) b of
             (d, None) \<Rightarrow> (ioc', c\<lparr>nm_dec := d\<rparr>, Err DecryptFailed)
           | (d, Some p) \<Rightarrow> (ioc', c\<lparr>nm_dec := d\<rparr>, Ok p)))"

definition noised_Write ::
    "('h, 'c) noise_lib \<Rightarrow> ('m, 'e) messenger \<Rightarrow> bytes \<Rightarrow> 'm \<Rightarrow> ('h, 'c) noised
     \<Rightarrow> 'm \<times> ('h, 'c) noised \<times> (('e, 'v) noised_error, unit) res" where
  "noised_Write N M b ioc c =
     (case Encrypt N (nm_enc c) b of
        (d, None) \<Rightarrow> (ioc, c\<lparr>nm_enc := d\<rparr>, Err EncryptFailed)
      | (d, Some ct) \<Rightarrow>
          (case m_Write M ct ioc of
             (ioc', Err x) \<Rightarrow> (ioc', c\<lparr>nm_enc := d\<rparr>, Err (IOFailed x))
           | (ioc', Panic) \<Rightarrow> (ioc', c\<lparr>nm_enc := d\<rparr>, Panic)
           | (ioc', Ok _) \<Rightarrow> (ioc', c\<lparr>nm_enc := d\<rparr>, Ok ())))"

section \<open>What the library promises\<close>

text \<open>
  Noise, pattern IX with psk0. Two states that were made with the same pre-shared key, whatever
  their static and ephemeral keys, exchange two messages: the responder gets the payload of the
  first, the initiator that of the second, and both end with the same pair of cipher states. A
  first message under another pre-shared key is not readable. A cipher state decrypts what an
  equal state encrypted, and both move to the same next state.
\<close>

definition noise_laws :: "('h, 'c) noise_lib \<Rightarrow> bool" where
  "noise_laws N \<longleftrightarrow>
     (\<forall>psk psk' sI sR eI eR hI hR h1 m1 k1 p1.
        NewHandshakeState N True psk sI eI = Some hI \<longrightarrow>
        NewHandshakeState N False psk' sR eR = Some hR \<longrightarrow>
        WriteMessage N hI p1 = Some (h1, m1, k1) \<longrightarrow>
        (if psk' = psk
         then \<exists>h2. ReadMessage N hR m1 = Some (h2, p1, None)
                \<and> (\<forall>p2 h3 m2 ks. WriteMessage N h2 p2 = Some (h3, m2, ks) \<longrightarrow>
                     (\<exists>h4. ks \<noteq> None \<and> ReadMessage N h1 m2 = Some (h4, p2, ks)))
         else ReadMessage N hR m1 = None))
   \<and> (\<forall>c m c' ct. Encrypt N c m = (c', Some ct) \<longrightarrow> Decrypt N c ct = (c', Some m))"

text \<open>
  The interface \<open>NoiseIdentity\<close> as the two constructors rely on it: validating a peer changes
  neither the keys nor the payload of the node, and a refusal changes nothing.
\<close>

locale noise_peer =
  fixes dh :: "'i \<Rightarrow> bytes \<times> bytes"
    and psks :: "'i \<Rightarrow> bytes list"
    and payload :: "'i \<Rightarrow> bytes"
    and validate :: "'i \<Rightarrow> bytes \<Rightarrow> 'i \<times> ('v, unit) res"
  assumes validate_keeps: "validate i p = (i', r) \<Longrightarrow> dh i' = dh i \<and> psks i' = psks i \<and> payload i' = payload i"
    and refusal_keeps: "validate i p = (i', Err v) \<Longrightarrow> i' = i"
begin

definition ops :: "('i, 'v) noise_identity" where
  "ops = \<lparr>id_DHKey = dh, id_PresharedKeys = psks, id_Payload = payload, id_ValidatePeer = validate\<rparr>"

lemma ops_simps [simp]:
  "id_DHKey ops = dh" "id_PresharedKeys ops = psks" "id_Payload ops = payload"
  "id_ValidatePeer ops = validate"
  by (simp_all add: ops_def)

lemma initiator_keeps_keys:
  "initiator_finish N ops i h m = (i', r) \<Longrightarrow> dh i' = dh i \<and> psks i' = psks i \<and> payload i' = payload i"
  by (auto simp: initiator_finish_def split: option.splits prod.splits res.splits
      dest: validate_keeps)

end

interpretation aether: noise_peer DHKey PresharedKeys Payload "ValidatePeer E now" for E now
  by unfold_locales
    (auto simp: ValidatePeer_def DHKey_def PresharedKeys_def Payload_def split: res.splits if_splits)

lemma aether_ops: "aether.ops E now = aether_identity E now"
  by (simp add: aether.ops_def aether_identity_def)

end
