(* ===== verification/Handshake.thy ===== *)
theory Handshake
  imports Noised NodeIdentity
begin

text \<open>
  The theorems on the handshake of \<open>messenger-noised.go\<close> between two nodes of \<open>identity.go\<close>: when it
  connects them, what the connection carries, and what it does not check.
\<close>

section \<open>A messenger of two queues\<close>

text \<open>The messages to be read and those written, for one end of a connection.\<close>

definition queue_messenger :: "(bytes list \<times> bytes list, unit) messenger" where
  "queue_messenger =
     \<lparr>m_Read = (\<lambda>(ins, outs). case ins of [] \<Rightarrow> (([], outs), Err ()) | b # bs \<Rightarrow> ((bs, outs), Ok b)),
      m_Write = (\<lambda>b (ins, outs). ((ins, outs @ [b]), Ok ()))\<rparr>"

lemma queue_simps [simp]:
  "m_Read queue_messenger (b # bs, outs) = ((bs, outs), Ok b)"
  "m_Write queue_messenger b (ins, outs) = ((ins, outs @ [b]), Ok ())"
  by (simp_all add: queue_messenger_def)

text \<open>
  The calls of the library that cannot fail here: a pre-shared key of a length it accepts, and
  payloads that fit in a message.
\<close>

definition noise_ready :: "('h, 'c) noise_lib \<Rightarrow> bytes \<Rightarrow> bytes set \<Rightarrow> bool" where
  "noise_ready N psk payloads \<longleftrightarrow>
     (\<forall>b dh e. NewHandshakeState N b psk dh e \<noteq> None)
     \<and> (\<forall>h. \<forall>p\<in>payloads. WriteMessage N h p \<noteq> None)"

section \<open>Lemmas\<close>

lemma noise_first_message:
  assumes "noise_laws N" and "NewHandshakeState N True psk sI eI = Some hI"
    and "WriteMessage N hI p1 = Some (h1, m1, k1)" and "NewHandshakeState N False psk sR eR = Some hR"
  obtains h2 where "ReadMessage N hR m1 = Some (h2, p1, None)"
    and "\<And>p2 h3 m2 ks. WriteMessage N h2 p2 = Some (h3, m2, ks) \<Longrightarrow>
      \<exists>h4 a b. ks = Some (a, b) \<and> ReadMessage N h1 m2 = Some (h4, p2, Some (a, b))"
proof -
  have "\<exists>h2. ReadMessage N hR m1 = Some (h2, p1, None)
      \<and> (\<forall>p2 h3 m2 ks. WriteMessage N h2 p2 = Some (h3, m2, ks) \<longrightarrow>
           (\<exists>h4. ks \<noteq> None \<and> ReadMessage N h1 m2 = Some (h4, p2, ks)))"
    using assms(1) [unfolded noise_laws_def, THEN conjunct1, rule_format, OF assms(2,4,3)] by simp
  then obtain h2 where h2: "ReadMessage N hR m1 = Some (h2, p1, None)"
    "\<And>p2 h3 m2 ks. WriteMessage N h2 p2 = Some (h3, m2, ks) \<Longrightarrow>
      \<exists>h4. ks \<noteq> None \<and> ReadMessage N h1 m2 = Some (h4, p2, ks)"
    by blast
  show ?thesis by (rule that [OF h2(1)]) (use h2(2) in fastforce)
qed

lemma try_psks_replicate:
  assumes "NewHandshakeState N False psk dh e = Some h" and "ReadMessage N h msg = Some (h', p, x)"
  shows "0 < n \<Longrightarrow> try_psks N dh e msg nhsk pl (replicate n psk) = Ok (Some h', p)"
proof (induction n arbitrary: nhsk pl)
  case 0
  then show ?case by simp
next
  case (Suc n)
  then show ?case using assms by (cases n) simp_all
qed

lemma aether_simps [simp]:
  "id_DHKey (aether_identity E now) = DHKey" "id_PresharedKeys (aether_identity E now) = PresharedKeys"
  "id_Payload (aether_identity E now) = Payload" "id_ValidatePeer (aether_identity E now) = ValidatePeer E now"
  by (simp_all add: aether_identity_def)

text \<open>After the whole list, the payload is that of the last key, whatever the others did.\<close>

lemma try_psks_last:
  assumes "\<forall>k. NewHandshakeState N False k dh e \<noteq> None"
    and "NewHandshakeState N False k dh e = Some h" and "ReadMessage N h msg = None"
  shows "\<exists>nh. try_psks N dh e msg nhsk pl (ps @ [k]) = Ok (nh, [])"
proof (induction ps arbitrary: nhsk pl)
  case Nil
  then show ?case using assms(2,3) by simp
next
  case (Cons q ps)
  obtain hq where "NewHandshakeState N False q dh e = Some hq" using assms(1) by blast
  with Cons show ?case by (cases "ReadMessage N hq msg") auto
qed

text \<open>The responder's side, for any first message that was made with its pre-shared key.\<close>

lemma responder_accepts:
  assumes "noise_laws N" and "noise_ready N psk {p, Payload j}"
    and "NewHandshakeState N True psk s e = Some hI" and "WriteMessage N hI p = Some (h1, m1, k1)"
    and "PresharedKeys j = replicate n psk" and "0 < n"
    and "ValidatePeer E now j p = (j', Ok ())"
  shows "\<exists>m2 h4 nR. NewNoisedMessengerR N (Some eR) queue_messenger (aether_identity E now) ([m1], []) j
             = (([], [m2]), j', Ok nR)
           \<and> ReadMessage N h1 m2 = Some (h4, Payload j, Some (nm_dec nR, nm_enc nR))"
proof -
  obtain hR where hR: "NewHandshakeState N False psk (DHKey j) eR = Some hR"
    using assms(2) unfolding noise_ready_def by blast
  obtain h2 where h2: "ReadMessage N hR m1 = Some (h2, p, None)"
    "\<And>p2 h3 m2 ks. WriteMessage N h2 p2 = Some (h3, m2, ks) \<Longrightarrow>
      \<exists>h4 a b. ks = Some (a, b) \<and> ReadMessage N h1 m2 = Some (h4, p2, Some (a, b))"
    by (rule noise_first_message [OF assms(1,3,4) hR]) blast
  have "Payload j' = Payload j" using aether.validate_keeps [OF assms(7)] by simp
  moreover obtain h3 m2 ks where w: "WriteMessage N h2 (Payload j) = Some (h3, m2, ks)"
    using assms(2) unfolding noise_ready_def by (metis insertI1 insert_commute option.exhaust prod_cases3)
  moreover obtain h4 a b where r: "ks = Some (a, b)" "ReadMessage N h1 m2 = Some (h4, Payload j, Some (a, b))"
    using h2(2) [OF w] by blast
  ultimately have "NewNoisedMessengerR N (Some eR) queue_messenger (aether_identity E now) ([m1], []) j
      = (([], [m2]), j', Ok \<lparr>nm_dec = a, nm_enc = b, nm_hsk = h3\<rparr>)"
    using assms(5,7)
    by (simp add: NewNoisedMessengerR_def responder_reply_def try_psks_replicate [OF hR h2(1) assms(6)])
  with r(2) show ?thesis by auto
qed

text \<open>
  The channel after the handshake: a list of messages through one end, up to the first failure, and
  out of the other.
\<close>

fun write_all ::
    "('h, 'c) noise_lib \<Rightarrow> ('m, 'e) messenger \<Rightarrow> bytes list \<Rightarrow> 'm \<Rightarrow> ('h, 'c) noised
     \<Rightarrow> 'm \<times> ('h, 'c) noised \<times> (('e, unit) noised_error, unit) res" where
  "write_all N M [] q c = (q, c, Ok ())"
| "write_all N M (b # bs) q c =
     (case noised_Write N M b q c of
        (q', c', Ok _) \<Rightarrow> write_all N M bs q' c'
      | r \<Rightarrow> r)"

fun read_all ::
    "('h, 'c) noise_lib \<Rightarrow> ('m, 'e) messenger \<Rightarrow> nat \<Rightarrow> 'm \<Rightarrow> ('h, 'c) noised
     \<Rightarrow> 'm \<times> bytes list \<times> ('h, 'c) noised" where
  "read_all N M 0 q c = (q, [], c)"
| "read_all N M (Suc n) q c =
     (case (noised_Read N M q c :: _ \<times> _ \<times> (('e, unit) noised_error, bytes) res) of
        (q', c', Ok b) \<Rightarrow> apsnd (apfst ((#) b)) (read_all N M n q' c')
      | (q', c', _) \<Rightarrow> (q', [], c'))"

lemma write_then_read:
  assumes "noise_laws N"
  shows "write_all N queue_messenger ms (ins, outs) a = ((ins', outs'), a', Ok ()) \<Longrightarrow> nm_dec b = nm_enc a \<Longrightarrow>
     \<exists>cts b'. outs' = outs @ cts \<and> ins' = ins \<and> length cts = length ms
       \<and> read_all N queue_messenger (length ms) (cts @ rest, x) b = ((rest, x), ms, b') \<and> nm_dec b' = nm_enc a'"
proof (induction ms arbitrary: outs a b)
  case Nil
  then show ?case by simp
next
  case (Cons m ms)
  obtain d ct where enc: "Encrypt N (nm_enc a) m = (d, Some ct)"
    and w: "write_all N queue_messenger ms (ins, outs @ [ct]) (a\<lparr>nm_enc := d\<rparr>) = ((ins', outs'), a', Ok ())"
    using Cons.prems(1) by (auto simp: noised_Write_def split: prod.splits option.splits)
  have dec: "Decrypt N (nm_enc a) ct = (d, Some m)"
    using assms enc unfolding noise_laws_def by blast
  have "nm_dec (b\<lparr>nm_dec := d\<rparr>) = nm_enc (a\<lparr>nm_enc := d\<rparr>)" by simp
  from Cons.IH [OF w this] obtain cts b' where r: "outs' = (outs @ [ct]) @ cts" "ins' = ins" "length cts = length ms"
    "read_all N queue_messenger (length ms) (cts @ rest, x) (b\<lparr>nm_dec := d\<rparr>) = ((rest, x), ms, b')"
    "nm_dec b' = nm_enc a'"
    by blast
  have "read_all N queue_messenger (Suc (length ms)) ((ct # cts) @ rest, x) b = ((rest, x), m # ms, b')"
    using r(4) dec Cons.prems(2) by (simp add: noised_Read_def)
  with r show ?case by (intro exI [of _ "ct # cts"] exI [of _ b']) simp
qed

lemma nodes_connect:
  assumes "noise_laws N"
    and "NewIdentity E ordI keyI certI poolI = Ok i" and "map_order poolI ordI"
    and "NewIdentity E ordJ keyJ certJ poolJ = Ok j" and "map_order poolJ ordJ"
    and "set (PresharedKeys i) \<inter> set (PresharedKeys j) \<noteq> {}"
    and "noise_ready N (PresharedKeys i ! 0) {Payload i, Payload j}"
    and "ValidatePeer E now j (Payload i) = (j', Ok ())"
    and "ValidatePeer E now i (Payload j) = (i', Ok ())"
  shows "\<exists>m1 m2 nI nR.
     NewNoisedMessengerR N (Some eR) queue_messenger (aether_identity E now) ([m1], []) j = (([], [m2]), j', Ok nR)
   \<and> NewNoisedMessengerI N (Some eI) queue_messenger (aether_identity E now) ([m2], []) i = (([], [m1]), i', Ok nI)
   \<and> nm_enc nI = nm_dec nR \<and> nm_dec nI = nm_enc nR"
proof -
  obtain m pskI where i: "PresharedKeys i = replicate m pskI" "0 < m"
    using NewIdentity_Ok [OF assms(2,3)] unfolding PresharedKeys_def by blast
  obtain n pskJ where j: "PresharedKeys j = replicate n pskJ" "0 < n"
    using NewIdentity_Ok [OF assms(4,5)] unfolding PresharedKeys_def by blast
  have psk: "pskJ = pskI" using assms(6) i j by auto
  have p0: "PresharedKeys i ! 0 = pskI" "initiator_psk (PresharedKeys i) = pskI"
    using i by (simp_all add: initiator_psk_def)
  obtain hI where hI: "NewHandshakeState N True pskI (DHKey i) eI = Some hI"
    using assms(7) p0 unfolding noise_ready_def by fastforce
  obtain h1 m1 k1 where w: "WriteMessage N hI (Payload i) = Some (h1, m1, k1)"
    using assms(7) unfolding noise_ready_def by (metis insertI1 option.exhaust prod_cases3)
  obtain m2 h4 nR where r: "NewNoisedMessengerR N (Some eR) queue_messenger (aether_identity E now) ([m1], []) j
      = (([], [m2]), j', Ok nR)" "ReadMessage N h1 m2 = Some (h4, Payload j, Some (nm_dec nR, nm_enc nR))"
    using responder_accepts [OF assms(1) assms(7) [unfolded p0] hI w j(1) [unfolded psk] j(2) assms(8)]
    by blast
  have "NewNoisedMessengerI N (Some eI) queue_messenger (aether_identity E now) ([m2], []) i
      = (([], [m1]), i', Ok \<lparr>nm_dec = nm_enc nR, nm_enc = nm_dec nR, nm_hsk = h4\<rparr>)"
    using hI w r(2) assms(9) p0(2) by (simp add: NewNoisedMessengerI_def initiator_finish_def)
  with r(1) show ?thesis by (intro exI [of _ m1] exI [of _ m2] exI
      [of _ "\<lparr>nm_dec = nm_enc nR, nm_enc = nm_dec nR, nm_hsk = h4\<rparr>"] exI [of _ nR]) simp
qed

text \<open>What was written is a message of the library with the node's payload.\<close>

lemma initiator_message:
  assumes "NewNoisedMessengerI N ek queue_messenger I (ins, []) i = ((ins', [m]), i', Ok n)"
  shows "\<exists>h h' ks. WriteMessage N h (id_Payload I i) = Some (h', m, ks)"
  using assms by (cases ins) (auto simp: NewNoisedMessengerI_def queue_messenger_def split: option.splits prod.splits res.splits)

lemma responder_message:
  assumes "NewNoisedMessengerR N ek queue_messenger I (ins, []) i = ((ins', [m]), i', Ok n)"
  shows "\<exists>h h' ks. WriteMessage N h (id_Payload I i') = Some (h', m, ks)"
  using assms by (cases ins) (auto simp: NewNoisedMessengerR_def responder_reply_def queue_messenger_def
      split: option.splits prod.splits res.splits)

section \<open>A concrete library\<close>

text \<open>
  For the witnesses: a message is the pre-shared key and the payload, a cipher state is a key with
  a counter, a cipher text is the key in front of the plain text.
\<close>

definition demo_noise :: "(bytes \<times> bool, bytes \<times> nat) noise_lib" where
  "demo_noise =
     \<lparr>NewHandshakeState = (\<lambda>init psk dh e. Some (psk, init)),
      WriteMessage = (\<lambda>(psk, init) p. Some ((psk, init), put_bytes psk @ p,
         if init then None else Some ((psk @ ''1'', 0), (psk @ ''2'', 0)))),
      ReadMessage = (\<lambda>(psk, init) m. case get_bytes m of
         None \<Rightarrow> None
       | Some (k, p) \<Rightarrow> if k = psk then Some ((psk, init), p,
           if init then Some ((psk @ ''1'', 0), (psk @ ''2'', 0)) else None) else None),
      Encrypt = (\<lambda>(k, n) m. ((k, Suc n), Some (k @ m))),
      Decrypt = (\<lambda>(k, n) c. if take (length k) c = k then ((k, Suc n), Some (drop (length k) c))
         else ((k, n), None))\<rparr>"

lemma demo_noise_laws: "noise_laws demo_noise"
  by (auto simp: noise_laws_def demo_noise_def)

lemma demo_noise_ready: "noise_ready demo_noise psk ps"
  by (auto simp: noise_ready_def demo_noise_def)

section \<open>Properties\<close>


lemma demo_node_validates:
  obtains p i where "NewIdentity demo_env [cert_fp demo_env demo_root] [] demo_node p = Ok i"
    and "map_order p [cert_fp demo_env demo_root]"
    and "ValidatePeer demo_env 500 i (Payload i) = (i\<lparr>i_peerCert := Some demo_node\<rparr>, Ok ())"
proof -
  obtain f p where p: "root_pem demo_env demo_root f"
    "NewCAPoolFromPEM demo_env (\<lambda>_. 500) f = PoolRet (Some p) None"
    "caMap p (cert_fp demo_env demo_root) = Some demo_root"
    using demo_pool by blast
  have dom: "map_order p [cert_fp demo_env demo_root]"
    by (simp add: map_order_def demo_pool_dom [OF p(1,2)])
  obtain i where i: "NewIdentity demo_env [cert_fp demo_env demo_root] [] demo_node p = Ok i"
    using demo_identity [OF p(3)] by blast
  have d: "Marshal demo_env demo_node = Ok (i_payload i)" "i_caPool i = p"
    using NewIdentity_Ok [OF i dom] by auto
  have u: "UnmarshalAetherportCertificate demo_env (i_payload i) = Ok demo_node"
    by (rule demo_node_wire [OF d(1)])
  have b: "certBlocklist p = {}"
    using load_pool_inv [of demo_env "\<lambda>_. 500" 0 NewCAPool False f p None] p(2) pool_inv_NewCAPool
    by (auto simp: NewCAPoolFromPEM_def NewCAPool_def)
  have "\<exists>fp. Sha256Sum demo_env demo_node = Ok fp"
    using d(1) by (auto simp: Sha256Sum_def rbind_eq_Ok)
  then have "Verify demo_env demo_node 500 p = Ok True"
    using b p(3) demo_node demo_fp(2) by (auto simp: Verify_accepts)
  then have "ValidatePeer demo_env 500 i (Payload i) = (i\<lparr>i_peerCert := Some demo_node\<rparr>, Ok ())"
    using u d(2) by (auto simp: ValidatePeer_Ok Payload_def)
  from that [OF i dom this] show ?thesis .
qed


text \<open>Over a connected pair every list of messages that was written at one end is read at the
  other, each message as it was and in order, and the ends stay in step for the next list.\<close>

lemma channel_is_faithful:
  assumes "noise_laws N" and "nm_dec b = nm_enc a"
    and "write_all N queue_messenger ms ([], []) a = (([], outs), a', Ok ())"
  shows "\<exists>b'. read_all N queue_messenger (length ms) (outs, []) b = (([], []), ms, b') \<and> nm_dec b' = nm_enc a'
           \<and> length outs = length ms"
  using write_then_read [OF assms(1,3,2), of "[]" "[]"] by auto



text \<open>The responder tries all its pre-shared keys, but the payload it validates is the one of the
  last try: when the last key of the list is not the initiator's, the handshake fails and nothing
  is sent, even if an earlier key was the right one.\<close>

lemma last_psk_decides:
  assumes "noise_laws N" and "\<forall>k. NewHandshakeState N False k (DHKey j) eR \<noteq> None"
    and "PresharedKeys j = ps @ [k]" and "k \<noteq> psk"
    and "NewHandshakeState N True psk s e = Some h0" and "WriteMessage N h0 p = Some (h1, m1, k1)"
  shows "\<exists>err. NewNoisedMessengerR N (Some eR) queue_messenger (aether_identity E now) ([m1], []) j
       = (([], []), j, Err err) \<and> err \<in> {NoMatchingPSK, PeerRefused (PeerInvalid NilByte)}"
proof -
  obtain hR where hR: "NewHandshakeState N False k (DHKey j) eR = Some hR" using assms(2) by blast
  have "ReadMessage N hR m1 = None"
    using assms(1) [unfolded noise_laws_def, THEN conjunct1, rule_format, OF assms(5) hR assms(6)] assms(4)
    by simp
  note l = try_psks_last [OF assms(2) hR this]
  have v: "ValidatePeer E now j [] = (j, Err (PeerInvalid NilByte))"
    by (simp add: ValidatePeer_def UnmarshalAetherportCertificate_def)
  obtain nh where "try_psks N (DHKey j) eR m1 None [] (ps @ [k])
      = (Ok (nh, []) :: ((unit, id_error) noised_error, _) res)"
    using l by blast
  then show ?thesis
    using assms(3) v by (cases nh) (simp_all add: NewNoisedMessengerR_def)
qed

end
