(* ===== verification/SignalLink.thy ===== *)
theory SignalLink
  imports SignalOrder Handshake
begin

text \<open>
  The signalling over the encrypting messenger of \<open>messenger-noised.go\<close>, as the aetherlight client sets
  it up, and the properties of \<open>signal-messenger.go\<close>.
\<close>

section \<open>The encrypted link\<close>

text \<open>
  The writing end, the messages on the way, and the reading end. A read waits while nothing is on
  the way and fails once the reading end is closed.
\<close>

record ('h, 'c) wire =
  w_from :: "('h, 'c) noised"
  w_queue :: "bytes list"
  w_to :: "('h, 'c) noised"
  w_open :: bool

type_synonym link_error = "(unit, unit) noised_error"

definition wire_Read ::
    "('h, 'c) noise_lib \<Rightarrow> ('h, 'c) wire \<Rightarrow> (('h, 'c) wire \<times> (link_error, bytes) res) option" where
  "wire_Read N s =
     (if \<not> w_open s then Some (s, Err (IOFailed ()))
      else if w_queue s = [] then None
      else case noised_Read N queue_messenger (w_queue s, []) (w_to s) of
        ((q, _), c, r) \<Rightarrow> Some (s\<lparr>w_queue := q, w_to := c\<rparr>, r))"

definition wire_Write ::
    "('h, 'c) noise_lib \<Rightarrow> bytes \<Rightarrow> ('h, 'c) wire \<Rightarrow> ('h, 'c) wire \<times> (link_error, unit) res" where
  "wire_Write N b s =
     (case noised_Write N queue_messenger b ([], w_queue s) (w_from s) of
        ((_, q), c, r) \<Rightarrow> (s\<lparr>w_queue := q, w_from := c\<rparr>, r))"

definition noised_link :: "('h, 'c) noise_lib \<Rightarrow> (('h, 'c) wire, link_error) link" where
  "noised_link N = \<lparr>l_Read = wire_Read N, l_Write = wire_Write N, l_Close = (\<lambda>s. (s\<lparr>w_open := False\<rparr>, Ok ()))\<rparr>"

text \<open>What the reading end will decrypt, and the cipher state after it.\<close>

fun decrypt_all :: "('h, 'c) noise_lib \<Rightarrow> 'c \<Rightarrow> bytes list \<Rightarrow> (bytes list \<times> 'c) option" where
  "decrypt_all N c [] = Some ([], c)"
| "decrypt_all N c (ct # cts) =
     (case Decrypt N c ct of
        (d, Some p) \<Rightarrow> map_option (apfst ((#) p)) (decrypt_all N d cts)
      | (d, None) \<Rightarrow> None)"

definition wire_pending :: "('h, 'c) noise_lib \<Rightarrow> ('h, 'c) wire \<Rightarrow> bytes list" where
  "wire_pending N s = (case decrypt_all N (nm_dec (w_to s)) (w_queue s) of Some (ps, _) \<Rightarrow> ps | None \<Rightarrow> [])"

text \<open>
  A cipher state that refuses to encrypt stays as it is; the ends agree on the cipher state once
  everything on the way is read.
\<close>

definition wire_ok :: "('h, 'c) noise_lib \<Rightarrow> ('h, 'c) wire \<Rightarrow> bool" where
  "wire_ok N s \<longleftrightarrow> noise_laws N \<and> (\<forall>c m d. Encrypt N c m = (d, None) \<longrightarrow> d = c)
     \<and> (\<exists>ps. decrypt_all N (nm_dec (w_to s)) (w_queue s) = Some (ps, nm_enc (w_from s)))"

lemma decrypt_all_snoc:
  "decrypt_all N c cts = Some (ps, d) \<Longrightarrow> Decrypt N d ct = (e, Some p) \<Longrightarrow>
     decrypt_all N c (cts @ [ct]) = Some (ps @ [p], e)"
  by (induction cts arbitrary: c ps) (auto split: prod.splits option.splits)

interpretation noised: message_link "noised_link N" "wire_ok N" "wire_pending N" w_open for N
proof
  fix s s' :: "('a, 'b) wire" and b bs r e
  assume ok: "wire_ok N s"
  obtain ps where ps: "decrypt_all N (nm_dec (w_to s)) (w_queue s) = Some (ps, nm_enc (w_from s))"
    using ok by (auto simp: wire_ok_def)
  show "wire_ok N s' \<and> r \<noteq> Panic \<and> wire_pending N s' = wire_pending N s @ (if r = Ok () then [b] else [])
      \<and> w_open s' = w_open s" if w: "l_Write (noised_link N) b s = (s', r)"
  proof (cases "Encrypt N (nm_enc (w_from s)) b")
    case (Pair d ct)
    show ?thesis
    proof (cases ct)
      case None
      then have "d = nm_enc (w_from s)" using Pair ok by (auto simp: wire_ok_def)
      with Pair None w ok ps show ?thesis
        by (auto simp: noised_link_def wire_Write_def noised_Write_def wire_ok_def wire_pending_def)
    next
      case (Some x)
      have "Decrypt N (nm_enc (w_from s)) x = (d, Some b)"
        using ok Pair Some unfolding wire_ok_def noise_laws_def by blast
      with Pair Some w ok ps decrypt_all_snoc [OF ps this] show ?thesis
        by (auto simp: noised_link_def wire_Write_def noised_Write_def wire_ok_def wire_pending_def)
    qed
  qed
  show "wire_ok N s' \<and> wire_pending N s = b # wire_pending N s' \<and> w_open s' = w_open s"
    if r: "l_Read (noised_link N) s = Some (s', Ok b)"
    using r ps ok
    by (cases "w_queue s")
      (auto simp: noised_link_def wire_Read_def noised_Read_def wire_ok_def wire_pending_def
        split: if_splits prod.splits option.splits)
  have total: "l_Read (noised_link N) s = (if \<not> w_open s then Some (s, Err (IOFailed ()))
      else case w_queue s of [] \<Rightarrow> None | ct # q \<Rightarrow> (case ps of [] \<Rightarrow> None
        | p # _ \<Rightarrow> Some (s\<lparr>w_queue := q, w_to := w_to s\<lparr>nm_dec := fst (Decrypt N (nm_dec (w_to s)) ct)\<rparr>\<rparr>, Ok p)))"
    using ps
    by (cases "w_queue s")
      (auto simp: noised_link_def wire_Read_def noised_Read_def split: prod.splits option.splits)
  show "wire_ok N s' \<and> wire_pending N s' = wire_pending N s \<and> \<not> w_open s"
    if r: "l_Read (noised_link N) s = Some (s', Err e)"
    using r ok unfolding total by (auto split: if_splits list.splits)
  show "l_Read (noised_link N) s \<noteq> Some (s', Panic)"
    unfolding total by (auto split: list.splits)
  show "wire_ok N (fst (l_Close (noised_link N) s)) \<and> wire_pending N (fst (l_Close (noised_link N) s)) = wire_pending N s"
    using ok by (auto simp: noised_link_def wire_ok_def wire_pending_def)
  show "\<exists>s'. l_Read (noised_link N) s = Some (s', Ok b)" if "w_open s" "wire_pending N s = b # bs"
    using that ps unfolding total by (cases "w_queue s") (auto simp: wire_pending_def)
qed

section \<open>A connected pair\<close>

text \<open>Both ends as the handshake leaves them, with nothing on the way.\<close>

definition connected :: "('h, 'c) noise_lib \<Rightarrow> ('h, 'c) noised \<Rightarrow> ('h, 'c) noised \<Rightarrow> bool" where
  "connected N a b \<longleftrightarrow> noise_laws N \<and> (\<forall>c m d. Encrypt N c m = (d, None) \<longrightarrow> d = c) \<and> nm_dec b = nm_enc a"

definition new_wire :: "('h, 'c) noised \<Rightarrow> ('h, 'c) noised \<Rightarrow> ('h, 'c) wire" where
  "new_wire a b = \<lparr>w_from = a, w_queue = [], w_to = b, w_open = True\<rparr>"

lemma new_wire_ok: "connected N a b \<Longrightarrow> wire_ok N (new_wire a b)"
  by (simp add: connected_def wire_ok_def new_wire_def)

lemma new_signaller:
  "sg_io (NewSignalMessenger None w) = w"
  "noised.running (NewSignalMessenger None (new_wire a b))"
  "abs_fifo L (wire_pending N) (NewSignalMessenger None (new_wire a b)) = \<lparr>queue = [], live = True\<rparr>"
  by (simp_all add: noised.running_def NewSignalMessenger_def new_wire_def abs_fifo_def wire_pending_def)

lemma signals_run:
  assumes "connected N a b"
    and "sig_run L (noised_link N) (NewSignalMessenger None (new_wire a b)) ls \<sigma>"
  shows "wire_ok N (sg_io \<sigma>)" "fifo_run \<lparr>queue = [], live = True\<rparr> ls (abs_fifo L (wire_pending N) \<sigma>)"
    "Shut \<notin> set ls \<Longrightarrow> noised.running \<sigma>"
proof -
  note ok = new_wire_ok [OF assms(1)]
  show "wire_ok N (sg_io \<sigma>)" "fifo_run \<lparr>queue = [], live = True\<rparr> ls (abs_fifo L (wire_pending N) \<sigma>)"
    using noised.run_refines [OF assms(2)] ok by (simp_all add: new_signaller)
  show "Shut \<notin> set ls \<Longrightarrow> noised.running \<sigma>"
    using noised.run_running [OF assms(2)] ok by (simp add: new_signaller)
qed

lemma signals_in_order:
  assumes "connected N a b"
    and "sig_run L (noised_link N) (NewSignalMessenger None (new_wire a b)) ls \<sigma>"
    and "Shut \<notin> set ls"
  shows "sent ls = got ls @ queue (abs_fifo L (wire_pending N) \<sigma>)"
  using fifo_order [OF signals_run(2) [OF assms(1,2)] _ assms(3)] by simp

lemma sig_run_append:
  "sig_run L M \<sigma> ms \<sigma>' \<Longrightarrow> sig_run L M \<sigma>0 ls \<sigma> \<Longrightarrow> sig_run L M \<sigma>0 (ls @ ms) \<sigma>'"
  by (induction rule: sig_run.induct) (auto intro: sig_run.extend simp flip: append_assoc)

text \<open>What is received next, from the queue.\<close>

lemma RecvOffer_blocks:
  assumes "noised.running \<sigma>" and "queue (abs_fifo L (wire_pending N) \<sigma>) = x # xs" and "\<And>v. x \<noteq> Offer v"
  shows "RecvOffer None \<sigma> = []"
  using assms
  by (auto simp: noised.running_def RecvOffer_def chanRecv_blocks offer_chan_def loop_chan_def abs_fifo_def
      split: loop_pc.splits signal.splits)

section \<open>A concrete pair\<close>

definition demo_ice :: "(bytes, bytes) ice_lib" where
  "demo_ice = \<lparr>cand_JSON = Some, cand_Init = id\<rparr>"

definition demo_end :: "nat \<Rightarrow> (bytes \<times> bool, bytes \<times> nat) noised" where
  "demo_end n = \<lparr>nm_dec = (''k'', n), nm_enc = (''k'', n), nm_hsk = ([], True)\<rparr>"

lemma demo_connected: "connected demo_noise (demo_end 0) (demo_end 0)"
  using demo_noise_laws by (simp add: connected_def demo_end_def demo_noise_def)

abbreviation demo_start :: "(((bytes \<times> bool, bytes \<times> nat) wire), bytes) signaller" where
  "demo_start \<equiv> NewSignalMessenger None (new_wire (demo_end 0) (demo_end 0))"

text \<open>A candidate and then an offer are sent.\<close>

lemma demo_sent:
  obtains \<sigma> where
    "sig_run demo_ice (noised_link demo_noise) demo_start [Sent (Candidate ''c''), Sent (Offer ''v=0'')] \<sigma>"
proof -
  have wr: "\<exists>s'. l_Write (noised_link demo_noise) m s = (s', Ok ())" for m s
    by (auto simp: noised_link_def wire_Write_def noised_Write_def demo_noise_def split: prod.splits)
  have v: "to_valid ''c'' = ''c''" "to_valid ''v=0'' = ''v=0''"
    by (rule to_valid_ascii, simp add: byte_val_def)+
  let ?M = "noised_link demo_noise"
  let ?m = "\<lambda>t d. marshal_msg \<lparr>msg_Type = t, msg_Data = d\<rparr>"
  obtain io where "l_Write ?M (?m signalMessengerIceCandidate ''c'') (sg_io demo_start) = (io, Ok ())"
    using wr by blast
  then have "SendICECandidate demo_ice ?M (Some ''c'') (sg_io demo_start) = (io, Ok ())"
    by (simp add: SendICECandidate_def demo_ice_def)
  with sig_step.send_candidate [of demo_ice "''c''" "''c''" ?M demo_start io] v(1)
  have 1: "sig_step demo_ice ?M demo_start (Sent (Candidate ''c'')) (demo_start\<lparr>sg_io := io\<rparr>)"
    by (simp add: demo_ice_def)
  obtain io' where "l_Write ?M (?m signalMessengerOffer ''v=0'') io = (io', Ok ())"
    using wr by blast
  then have "SendOffer ?M ''v=0'' (sg_io (demo_start\<lparr>sg_io := io\<rparr>)) = (io', Ok ())"
    by (simp add: SendOffer_def)
  from sig_step.send_offer [OF this, of demo_ice] v(2)
  have 2: "sig_step demo_ice ?M (demo_start\<lparr>sg_io := io\<rparr>) (Sent (Offer ''v=0'')) (demo_start\<lparr>sg_io := io, sg_io := io'\<rparr>)"
    by simp
  from sig_run_Cons [OF 1 sig_run_Cons [OF 2 sig_run.start]] that show ?thesis by blast
qed

text \<open>The candidate is received.\<close>

lemma demo_received:
  obtains ls \<sigma> where "sig_run demo_ice (noised_link demo_noise) demo_start ls \<sigma>" and "Shut \<notin> set ls"
    and "got ls = [Candidate ''c'']" and "sent ls = [Candidate ''c'', Offer ''v=0'']"
proof -
  let ?s = "[Sent (Candidate ''c''), Sent (Offer ''v=0'')]"
  obtain \<sigma> where r: "sig_run demo_ice (noised_link demo_noise) demo_start ?s \<sigma>" by (rule demo_sent)
  have s: "Shut \<notin> set ?s" by simp
  have q: "queue (abs_fifo demo_ice (wire_pending demo_noise) \<sigma>) = Candidate ''c'' # [Offer ''v=0'']"
    using signals_in_order [OF demo_connected r s] by simp
  obtain ms \<sigma>' where m: "sig_run demo_ice (noised_link demo_noise) \<sigma> ms \<sigma>'" "set ms \<subseteq> {Internal}"
      "noised.running \<sigma>'" "sg_loop \<sigma>' = Sending (Candidate ''c'')"
    using noised.head_arrives [OF signals_run(1) [OF demo_connected r] signals_run(3) [OF demo_connected r s] q]
    by blast
  have "(\<sigma>'\<lparr>sg_loop := AtTop\<rparr>, Ok ''c'') \<in> set (RecvICECandidate None \<sigma>')"
    using m(3,4) by (simp add: in_RecvICECandidate noised.running_def)
  from sig_run.extend [OF sig_run_append [OF m(1) r] sig_step.got_candidate [OF this]]
  have run: "sig_run demo_ice (noised_link demo_noise) demo_start ((?s @ ms) @ [Got (Candidate ''c'')])
      (\<sigma>'\<lparr>sg_loop := AtTop\<rparr>)" .
  have "sent ms = [] \<and> got ms = []" using m(2) by (induction ms) auto
  then have "got ((?s @ ms) @ [Got (Candidate ''c'')]) = [Candidate ''c'']"
    "sent ((?s @ ms) @ [Got (Candidate ''c'')]) = [Candidate ''c'', Offer ''v=0'']" by simp_all
  moreover have "Shut \<notin> set ((?s @ ms) @ [Got (Candidate ''c'')])" using m(2) by auto
  ultimately show ?thesis using that [OF run] by blast
qed

section \<open>Properties\<close>

text \<open>C36. A message comes through: what the marshalling of any type and data reads back as is the same
  message, with each byte that is not UTF-8 replaced by U+FFFD, and so the message itself when both
  strings are UTF-8.\<close>

theorem signal_message_roundtrip:
  "unmarshal_msg (marshal_msg m) = Some \<lparr>msg_Type = to_valid (msg_Type m), msg_Data = to_valid (msg_Data m)\<rparr>
   \<and> to_valid (to_valid (msg_Data m)) = to_valid (msg_Data m)"
  by (simp add: unmarshal_marshal to_valid_idem)



text \<open>Signals arrive in order: what was received is always a subsequence of what was sent, in the
  form the wire gives it, and without a cancellation or a close it is a prefix: nothing is lost,
  repeated or reordered across the three kinds.\<close>

lemma signals_arrive_in_order:
  assumes "connected N a b"
    and "sig_run L (noised_link N) (NewSignalMessenger None (new_wire a b)) ls \<sigma>"
  shows "subseq (got ls) (sent ls) \<and> (Shut \<notin> set ls \<longrightarrow> prefix (got ls) (sent ls))"
proof -
  have "subseq (got ls @ queue (abs_fifo L (wire_pending N) \<sigma>)) (sent ls)"
    using fifo_subseq [OF signals_run(2) [OF assms]] by simp
  then have "subseq (got ls) (sent ls)" by (meson prefix_imp_subseq prefixI subseq_order.order_trans)
  with signals_in_order [OF assms] show ?thesis by (auto simp: prefix_def)
qed

text \<open>The first signal holds up the rest. While the next signal to be received is a candidate, the
  loop can always get to hand it over; but as long as nobody takes it, every \<open>RecvOffer\<close> with a live
  context blocks, whatever else is sent and however far the loop reads.\<close>

lemma candidate_blocks_offer:
  assumes "connected N a b"
    and "sig_run L (noised_link N) (NewSignalMessenger None (new_wire a b)) ls \<sigma>"
    and "Shut \<notin> set ls" and "prefix (got ls @ [Candidate c]) (sent ls)"
  shows "(\<exists>ms \<sigma>'. sig_run L (noised_link N) \<sigma> ms \<sigma>' \<and> set ms \<subseteq> {Internal} \<and> (\<sigma>'\<lparr>sg_loop := AtTop\<rparr>, Ok c) \<in> set (RecvICECandidate None \<sigma>'))
    \<and> (\<forall>ms \<sigma>'. sig_run L (noised_link N) \<sigma> ms \<sigma>' \<longrightarrow> Shut \<notin> set ms \<longrightarrow> Got (Candidate c) \<notin> set ms
        \<longrightarrow> RecvOffer None \<sigma>' = [])"
proof -
  obtain xs where q: "queue (abs_fifo L (wire_pending N) \<sigma>) = Candidate c # xs"
    using signals_in_order [OF assms(1-3)] assms(4) by (auto simp: prefix_def)
  note run = signals_run [OF assms(1,2)]
  obtain ms \<sigma>' where "sig_run L (noised_link N) \<sigma> ms \<sigma>'" "set ms \<subseteq> {Internal}" "noised.running \<sigma>'"
      "sg_loop \<sigma>' = Sending (Candidate c)"
    using noised.head_arrives [OF run(1) run(3) [OF assms(3)] q] by blast
  then have "\<exists>ms \<sigma>'. sig_run L (noised_link N) \<sigma> ms \<sigma>' \<and> set ms \<subseteq> {Internal}
      \<and> (\<sigma>'\<lparr>sg_loop := AtTop\<rparr>, Ok c) \<in> set (RecvICECandidate None \<sigma>')"
    by (intro exI [of _ ms] exI [of _ \<sigma>']) (simp add: in_RecvICECandidate noised.running_def)
  moreover have "RecvOffer None \<sigma>' = []"
    if r: "sig_run L (noised_link N) \<sigma> ms \<sigma>'" and s: "Shut \<notin> set ms" and g: "Got (Candidate c) \<notin> set ms" for ms \<sigma>'
  proof (rule RecvOffer_blocks)
    have all: "sig_run L (noised_link N) (NewSignalMessenger None (new_wire a b)) (ls @ ms) \<sigma>'"
      by (rule sig_run_append [OF r assms(2)])
    have "Shut \<notin> set (ls @ ms)" using assms(3) s by simp
    from signals_run(3) [OF assms(1) all this] show "noised.running \<sigma>'" .
    have "Candidate c # xs @ sent ms = got ms @ queue (abs_fifo L (wire_pending N) \<sigma>')"
      using signals_in_order [OF assms(1) all \<open>Shut \<notin> set (ls @ ms)\<close>] signals_in_order [OF assms(1-3)] q by simp
    moreover have "x \<in> set (got ms) \<Longrightarrow> Got x \<in> set ms" for x
      by (induction ms rule: got.induct) auto
    ultimately show "queue (abs_fifo L (wire_pending N) \<sigma>') = Candidate c # xs @ sent ms"
      using g by (cases "got ms") auto
  qed simp
  ultimately show ?thesis by blast
qed


end
