(* ===== verification/GoBase62.thy ===== *)
theory GoBase62
  imports Prelude
begin

text \<open>
  The part of \<open>math/big\<close> the terminal signalling uses: a natural number from its big-endian bytes and
  back, and its text in base 62, written with \<open>Text(62)\<close> and read with \<open>SetString(s, 62)\<close>.
\<close>

section \<open>Bytes\<close>

definition SetBytes :: "bytes \<Rightarrow> nat" where
  "SetBytes bs = foldl (\<lambda>n b. n * 256 + byte_val b) 0 bs"

function Bytes_loop :: "nat \<Rightarrow> bytes \<Rightarrow> bytes" where
  "Bytes_loop n acc = (if n = 0 then acc else Bytes_loop (n div 256) (byte_of (n mod 256) # acc))"
  by pat_completeness auto
termination by (relation "measure fst") auto

declare Bytes_loop.simps [simp del]

definition Bytes :: "nat \<Rightarrow> bytes" where
  "Bytes n = Bytes_loop n []"

section \<open>Text\<close>

text \<open>The digits: \<open>0\<close> to \<open>9\<close>, then the small and then the capital letters.\<close>

definition digit62 :: "nat \<Rightarrow> byte" where
  "digit62 d = byte_of (if d < 10 then 48 + d else if d < 36 then 87 + d else 29 + d)"

definition value62 :: "byte \<Rightarrow> nat option" where
  "value62 c =
     (let x = byte_val c in
      if 48 \<le> x \<and> x < 58 then Some (x - 48)
      else if 97 \<le> x \<and> x < 123 then Some (x - 87)
      else if 65 \<le> x \<and> x < 91 then Some (x - 29)
      else None)"

function Text_loop :: "nat \<Rightarrow> bytes \<Rightarrow> bytes" where
  "Text_loop n acc = (if n = 0 then acc else Text_loop (n div 62) (digit62 (n mod 62) # acc))"
  by pat_completeness auto
termination by (relation "measure fst") auto

declare Text_loop.simps [simp del]

definition Text62 :: "nat \<Rightarrow> bytes" where
  "Text62 n = (if n = 0 then ''0'' else Text_loop n [])"

text \<open>
  \<open>SetString\<close> takes an optional sign and at least one digit, up to the end of the string. The sign
  does not reach the caller, who asks only for the bytes of the absolute value.
\<close>

fun scan62 :: "nat \<Rightarrow> bytes \<Rightarrow> nat option" where
  "scan62 n [] = Some n"
| "scan62 n (c # s) = (case value62 c of None \<Rightarrow> None | Some d \<Rightarrow> scan62 (n * 62 + d) s)"

definition SetString62 :: "bytes \<Rightarrow> nat option" where
  "SetString62 s =
     (let t = (if s \<noteq> [] \<and> hd s \<in> {CHR ''+'', CHR ''-''} then tl s else s) in
      if t = [] then None else scan62 0 t)"

section \<open>Lemmas\<close>

lemma SetBytes_snoc [simp]: "SetBytes (bs @ [b]) = SetBytes bs * 256 + byte_val b"
  by (simp add: SetBytes_def)

lemma SetBytes_Nil [simp]: "SetBytes [] = 0"
  by (simp add: SetBytes_def)

text \<open>The bytes of a number are those it was read from, without zeros in front.\<close>

lemma Bytes_loop_SetBytes: "(bs = [] \<or> byte_val (hd bs) \<noteq> 0) \<Longrightarrow> Bytes_loop (SetBytes bs) acc = bs @ acc"
proof (induction bs arbitrary: acc rule: rev_induct)
  case Nil
  show ?case by (simp add: Bytes_loop.simps [of 0])
next
  case (snoc b bs)
  have hd: "bs = [] \<or> byte_val (hd bs) \<noteq> 0" using snoc.prems by (cases bs) auto
  have pos: "SetBytes (bs @ [b]) \<noteq> 0"
  proof (cases bs)
    case Nil
    with snoc.prems SetBytes_snoc [of "[]" b] show ?thesis by simp
  next
    case (Cons c cs)
    have "SetBytes bs \<noteq> 0"
    proof
      assume "SetBytes bs = 0"
      with snoc.IH [OF hd, of "[]"] have "bs = []" by (simp add: Bytes_loop.simps [of 0])
      with Cons show False by simp
    qed
    then show ?thesis by simp
  qed
  have "(SetBytes bs * 256 + byte_val b) div 256 = SetBytes bs"
    "(SetBytes bs * 256 + byte_val b) mod 256 = byte_val b" by simp_all
  with pos snoc.IH [OF hd] show ?case by (simp add: Bytes_loop.simps [of "SetBytes bs * 256 + byte_val b"])
qed

lemma Bytes_SetBytes: "bs \<noteq> [] \<Longrightarrow> byte_val (hd bs) \<noteq> 0 \<Longrightarrow> Bytes (SetBytes bs) = bs"
  by (simp add: Bytes_def Bytes_loop_SetBytes)

lemma SetBytes_pos: "bs \<noteq> [] \<Longrightarrow> byte_val (hd bs) \<noteq> 0 \<Longrightarrow> 0 < SetBytes bs"
  using Bytes_SetBytes [of bs] by (cases "SetBytes bs = 0") (auto simp: Bytes_def Bytes_loop.simps [of 0])

lemma SetBytes_less: "SetBytes bs < 256 ^ length bs"
proof (induction bs rule: rev_induct)
  case (snoc b bs)
  then have "SetBytes bs + 1 \<le> 256 ^ length bs" by simp
  then have "(SetBytes bs + 1) * 256 \<le> 256 ^ length bs * 256" by (rule mult_le_mono1)
  moreover have "SetBytes (bs @ [b]) < (SetBytes bs + 1) * 256"
    unfolding SetBytes_snoc distrib_right by (rule add_strict_left_mono) simp
  ultimately show ?case by (simp only: length_append_singleton power_Suc2)
qed simp

lemma SetBytes_ge: "bs \<noteq> [] \<Longrightarrow> byte_val (hd bs) \<noteq> 0 \<Longrightarrow> 256 ^ (length bs - 1) \<le> SetBytes bs"
proof (induction bs rule: rev_induct)
  case (snoc b bs)
  show ?case
  proof (cases "bs = []")
    case True
    with snoc.prems SetBytes_snoc [of "[]" b] show ?thesis by simp
  next
    case False
    with snoc have "256 ^ (length bs - 1) \<le> SetBytes bs" by simp
    then have "256 ^ (length bs - 1) * 256 \<le> SetBytes bs * 256" by simp
    with False show ?thesis by (cases "length bs") simp_all
  qed
qed simp

text \<open>Digits, and the text of a number read back.\<close>

lemma value62_digit: "d < 62 \<Longrightarrow> value62 (digit62 d) = Some d"
  by (auto simp: value62_def digit62_def Let_def)

lemma digit62_val: "d < 62 \<Longrightarrow> byte_val (digit62 d) \<in> {48..<58} \<union> {97..<123} \<union> {65..<91}"
  by (auto simp: digit62_def)

lemma scan62_append: "scan62 n (s @ t) = Option.bind (scan62 n s) (\<lambda>m. scan62 m t)"
  by (induction s arbitrary: n) (auto split: option.splits)

lemma Text_loop_acc: "Text_loop n acc = Text_loop n [] @ acc"
proof (induction n arbitrary: acc rule: less_induct)
  case (less n)
  show ?case
  proof (cases "n = 0")
    case False
    then have "n div 62 < n" by simp
    from less.IH [OF this, of "digit62 (n mod 62) # acc"] less.IH [OF this, of "[digit62 (n mod 62)]"] False
    show ?thesis by (simp add: Text_loop.simps [of n])
  qed (simp add: Text_loop.simps)
qed

lemma Text_loop_snoc: "0 < n \<Longrightarrow> Text_loop n [] = Text_loop (n div 62) [] @ [digit62 (n mod 62)]"
  using Text_loop_acc [of "n div 62" "[digit62 (n mod 62)]"] by (simp add: Text_loop.simps [of n])

lemma scan62_Text_loop: "scan62 0 (Text_loop n []) = Some n"
proof (induction n rule: less_induct)
  case (less n)
  show ?case
  proof (cases "n = 0")
    case False
    with less.IH [of "n div 62"] show ?thesis
      by (simp add: Text_loop_snoc scan62_append value62_digit)
  qed (simp add: Text_loop.simps)
qed

lemma Text_loop_digits: "c \<in> set (Text_loop n []) \<Longrightarrow> \<exists>d<62. c = digit62 d"
proof (induction n rule: less_induct)
  case (less n)
  show ?case
  proof (cases "n = 0")
    case False
    then have "n div 62 < n" by simp
    from less.prems False consider "c \<in> set (Text_loop (n div 62) [])" | "c = digit62 (n mod 62)"
      by (auto simp: Text_loop_snoc [of n])
    then show ?thesis
    proof cases
      case 1
      with less.IH [OF \<open>n div 62 < n\<close>] show ?thesis .
    next
      case 2
      then show ?thesis by (intro exI [of _ "n mod 62"]) simp
    qed
  qed (use less.prems in \<open>simp add: Text_loop.simps\<close>)
qed

lemma Text62_digits: "c \<in> set (Text62 n) \<Longrightarrow> \<exists>d<62. c = digit62 d"
proof (cases "n = 0")
  case True
  have "CHR ''0'' = digit62 0" by (simp add: digit62_def byte_eq_iff) (simp add: byte_val_def)
  moreover assume "c \<in> set (Text62 n)"
  ultimately have "c = digit62 0" using True by (simp add: Text62_def)
  then show ?thesis by (intro exI [of _ 0]) simp
qed (auto simp: Text62_def dest: Text_loop_digits)

lemma Text62_not_Nil: "Text62 n \<noteq> []"
  using Text_loop_snoc [of n] by (simp add: Text62_def)

lemma digit62_plain: "d < 62 \<Longrightarrow> digit62 d \<notin> {CHR ''+'', CHR ''-'', CHR 0x0A}"
proof
  assume d: "d < 62" and "digit62 d \<in> {CHR ''+'', CHR ''-'', CHR 0x0A}"
  moreover have "byte_val CHR ''+'' = 43" "byte_val CHR ''-'' = 45" "byte_val CHR 0x0A = 10"
    by (simp_all add: byte_val_def)
  ultimately have "byte_val (digit62 d) \<in> {43, 45, 10}" by (metis empty_iff insert_iff)
  with digit62_val [OF d] show False by auto
qed

lemma Text62_plain: "c \<in> set (Text62 n) \<Longrightarrow> c \<notin> {CHR ''+'', CHR ''-'', CHR 0x0A}"
  using Text62_digits [of c n] digit62_plain by auto

lemma scan62_Text62: "scan62 0 (Text62 n) = Some n"
proof (cases "n = 0")
  case True
  have "value62 CHR ''0'' = Some 0" by (simp add: value62_def byte_val_def)
  with True show ?thesis by (simp add: Text62_def)
qed (simp add: Text62_def scan62_Text_loop)

lemma SetString62_Text62: "SetString62 (Text62 n) = Some n"
proof -
  have "hd (Text62 n) \<notin> {CHR ''+'', CHR ''-''}"
    using Text62_plain [of "hd (Text62 n)" n] Text62_not_Nil by auto
  then show ?thesis by (simp add: SetString62_def Text62_not_Nil scan62_Text62)
qed

text \<open>The length of the text.\<close>

lemma Text_loop_length:
  "0 < n \<Longrightarrow> 62 ^ (length (Text_loop n []) - 1) \<le> n \<and> n < 62 ^ length (Text_loop n [])"
proof (induction n rule: less_induct)
  case (less n)
  show ?case
  proof (cases "n div 62 = 0")
    case True
    then have "Text_loop n [] = [digit62 (n mod 62)]" using less.prems by (simp add: Text_loop_snoc Text_loop.simps [of 0])
    moreover have "n < 62" using True by (simp add: div_eq_0_iff)
    ultimately show ?thesis using less.prems by simp
  next
    case False
    let ?m = "length (Text_loop (n div 62) [])"
    have IH: "62 ^ (?m - 1) \<le> n div 62" "n div 62 < 62 ^ ?m" using less.IH [of "n div 62"] less.prems False by auto
    have m: "length (Text_loop n []) = Suc ?m" "0 < ?m"
      using less.prems False by (simp_all add: Text_loop_snoc [of n] Text_loop_snoc [of "n div 62"])
    have "62 ^ ?m \<le> n" using IH(1) m(2) by (cases ?m) (simp_all add: less_eq_div_iff_mult_less_eq mult.commute)
    moreover have "n < 62 ^ Suc ?m" using IH(2) by (simp add: div_less_iff_less_mult mult.commute)
    ultimately show ?thesis using m(1) by simp
  qed
qed

end
