(* ===== verification/SignalTTY.thy ===== *)
theory SignalTTY
  imports GoBase62 Utils
begin

text \<open>
  \<open>signal-tty.go\<close>: offers and answers copied by hand between two terminals, each as one line of
  base 62 text of its compressed form.

  Outside: the zlib format is the record \<open>zlib\<close>, with what the writer makes of a string, whether a
  reader accepts the header of some bytes, and what it inflates them to, \<open>None\<close> on an error. The
  terminal is the connection its input comes from and a writer, which answers with the number of
  bytes written and whether it failed.
\<close>

record zlib =
  z_write :: "bytes \<Rightarrow> bytes"
  z_open :: "bytes \<Rightarrow> bool"
  z_read :: "bytes \<Rightarrow> bytes option"

type_synonym 'o writer = "bytes \<Rightarrow> 'o \<Rightarrow> 'o \<times> nat \<times> bool"

datatype tty_error = TTYCtx chan_error | TTYWrite | IncompleteWrite nat nat | InvalidBase62 | InvalidZlib

definition newline :: byte where "newline = CHR 0x0A"

section \<open>Waiting for the goroutine\<close>

text \<open>
  Each method starts a goroutine and receives from its channel \<open>done\<close> under the context: the
  result of a finished goroutine counts only if the receive gets it.
\<close>

definition done_chan :: "bool \<Rightarrow> unit chan" where
  "done_chan finished = new_chan\<lparr>ch_senders := (if finished then [()] else [])\<rparr>"

definition await_done :: "go_ctx \<Rightarrow> (tty_error, 'a) res option \<Rightarrow> (tty_error, 'a) res list" where
  "await_done ctx r =
     map (\<lambda>(_, d). case d of Ok _ \<Rightarrow> the r | Err e \<Rightarrow> Err (TTYCtx e) | Panic \<Rightarrow> Panic)
       (chanRecv ctx (done_chan (r \<noteq> None)))"

section \<open>Writing\<close>

definition tty_text :: "zlib \<Rightarrow> bytes \<Rightarrow> bytes" where
  "tty_text Z str = Text62 (SetBytes (z_write Z str))"

definition tty_write ::
    "zlib \<Rightarrow> 'o writer \<Rightarrow> go_ctx \<Rightarrow> bytes \<Rightarrow> 'o \<Rightarrow> 'o \<times> (tty_error, unit) res list" where
  "tty_write Z put ctx str out =
     (let b = tty_text Z str in
      case put (b @ [newline]) out of
        (out', n, failed) \<Rightarrow>
          (out', await_done ctx (Some
            (if failed then Err TTYWrite
             else if n < length b then Err (IncompleteWrite n (length b)) else Ok ()))))"

definition tty_SendOffer ::
    "zlib \<Rightarrow> 'o writer \<Rightarrow> go_ctx \<Rightarrow> bytes \<Rightarrow> 'o \<Rightarrow> 'o \<times> (tty_error, unit) res list" where
  "tty_SendOffer Z put ctx offer out =
     (case put (''Offer:'' @ [newline]) out of (out', _) \<Rightarrow> tty_write Z put ctx offer out')"

definition tty_SendAnswer ::
    "zlib \<Rightarrow> 'o writer \<Rightarrow> go_ctx \<Rightarrow> bytes \<Rightarrow> 'o \<Rightarrow> 'o \<times> (tty_error, unit) res list" where
  "tty_SendAnswer Z put ctx answer out =
     (case put (''Answer:'' @ [newline]) out of (out', _) \<Rightarrow> tty_write Z put ctx answer out')"

section \<open>Reading\<close>

definition ttyBuf :: nat where "ttyBuf = 10 * 1024"

text \<open>\<open>ReadBytes('\n')\<close>: the bytes up to the newline, or all bytes and an error; then the unread part
  of the buffer.\<close>

function read_bytes :: "bytes \<Rightarrow> bytes \<Rightarrow> conn \<Rightarrow> (bytes \<times> read_err option \<times> bytes \<times> conn) option" where
  "read_bytes acc buf s =
     (if newline \<in> set buf then
        Some (acc @ takeWhile (\<lambda>c. c \<noteq> newline) buf @ [newline], None, tl (dropWhile (\<lambda>c. c \<noteq> newline) buf), s)
      else if ttyBuf \<le> length buf then read_bytes (acc @ buf) [] s
      else case conn_read (ttyBuf - length buf) s of
        None \<Rightarrow> None
      | Some (c, Some e, s') \<Rightarrow> Some (acc @ buf, Some e, [], s')
      | Some (c, None, s') \<Rightarrow> read_bytes acc (buf @ c) s')"
  by pat_completeness auto
termination
proof (relation "measures [\<lambda>(acc, buf, s). conn_size s, \<lambda>(acc, buf, s). length buf]", goal_cases)
  case (2 acc buf s)
  then show ?case by (auto simp: ttyBuf_def)
next
  case (3 acc buf s z c y r s')
  then have "conn_read (ttyBuf - length buf) s = Some (c, None, s')" "0 < ttyBuf - length buf"
    by auto
  from conn_read_size [OF this] show ?case by auto
qed simp

declare read_bytes.simps [simp del]

lemma split_at_newline:
  "newline \<in> set buf \<Longrightarrow>
     length (takeWhile (\<lambda>c. c \<noteq> newline) buf) + length (tl (dropWhile (\<lambda>c. c \<noteq> newline) buf)) + 1 = length buf"
  by (induction buf) auto

lemma read_bytes_size:
  "read_bytes acc buf s = Some (b, e, buf', s') \<Longrightarrow>
     length b + length buf' + conn_size s' \<le> length acc + length buf + conn_size s"
proof (induction acc buf s rule: read_bytes.induct)
  case (1 acc buf s)
  consider "newline \<in> set buf" | "newline \<notin> set buf" "ttyBuf \<le> length buf"
    | "newline \<notin> set buf" "\<not> ttyBuf \<le> length buf" by blast
  then show ?case
  proof cases
    case 1
    with "1.prems" split_at_newline [OF 1] show ?thesis by (auto simp: read_bytes.simps [of acc buf])
  next
    case 2
    with "1.IH"(1) "1.prems" show ?thesis by (simp add: read_bytes.simps [of acc buf])
  next
    case 3
    with "1.prems" obtain c x s1 where r: "conn_read (ttyBuf - length buf) s = Some (c, x, s1)"
      by (auto simp: read_bytes.simps [of acc buf] split: option.splits)
    show ?thesis
    proof (cases x)
      case None
      have "length c + conn_size s1 \<le> conn_size s" using conn_read_size r None 3 by simp
      with "1.IH"(2) [OF 3 r refl refl None] "1.prems" 3 r None show ?thesis
        by (simp add: read_bytes.simps [of acc buf])
    next
      case (Some y)
      with "1.prems" 3 r conn_read_err show ?thesis by (fastforce simp: read_bytes.simps [of acc buf])
    qed
  qed
qed

lemma read_bytes_less:
  "read_bytes [] buf s = Some (b, e, buf', s') \<Longrightarrow> b \<noteq> [] \<Longrightarrow>
     length buf' + conn_size s' < length buf + conn_size s"
  using read_bytes_size [of "[]" buf s b e buf' s'] by (cases b) auto

text \<open>
  The loop of the goroutine. After a read the code tests \<open>err\<close>, which is nil there, instead of the
  error of the read, so that a failed read goes on with what it returned; \<open>b[:len(b)-1]\<close> of no
  bytes panics.
\<close>

function readLine_loop ::
    "zlib \<Rightarrow> go_ctx \<Rightarrow> bytes \<Rightarrow> conn \<Rightarrow> ((tty_error, bytes) res \<times> conn) option" where
  "readLine_loop Z ctx buf s =
     (if ctx \<noteq> None then Some (Ok [], s)
      else case read_bytes [] buf s of
        None \<Rightarrow> None
      | Some (b, _, buf', s') \<Rightarrow>
          if b = [] then Some (Panic, s')
          else case SetString62 (butlast b) of
            None \<Rightarrow> Some (Err InvalidBase62, s')
          | Some i \<Rightarrow>
              if \<not> z_open Z (Bytes i) then Some (Err InvalidZlib, s')
              else case z_read Z (Bytes i) of
                None \<Rightarrow> Some (Err InvalidZlib, s')
              | Some line \<Rightarrow> if 0 < length line then Some (Ok line, s') else readLine_loop Z ctx buf' s')"
  by pat_completeness auto
termination
  by (relation "measure (\<lambda>(Z, ctx, buf, s). length buf + conn_size s)") (auto dest: read_bytes_less)

declare readLine_loop.simps [simp del]

text \<open>
  The receiver \<open>s\<close> is a copy, and so is its buffered reader: every call starts with the empty
  buffer that \<open>NewSignalTTY\<close> made. A panic of the goroutine ends the program.
\<close>

definition readLine :: "zlib \<Rightarrow> go_ctx \<Rightarrow> conn \<Rightarrow> conn option \<times> (tty_error, bytes) res list" where
  "readLine Z ctx s =
     (case readLine_loop Z ctx [] s of
        None \<Rightarrow> (None, await_done ctx None)
      | Some (Panic, s') \<Rightarrow> (Some s', [Panic])
      | Some (r, s') \<Rightarrow> (Some s', await_done ctx (Some r)))"

definition tty_RecvOffer ::
    "zlib \<Rightarrow> 'o writer \<Rightarrow> go_ctx \<Rightarrow> conn \<Rightarrow> 'o \<Rightarrow> 'o \<times> conn option \<times> (tty_error, bytes) res list" where
  "tty_RecvOffer Z put ctx s out =
     (case put (''Peer'' @ [CHR 0x27] @ ''s Offer?'' @ [newline]) out of (out', _) \<Rightarrow> (out', readLine Z ctx s))"

definition tty_RecvAnswer ::
    "zlib \<Rightarrow> 'o writer \<Rightarrow> go_ctx \<Rightarrow> conn \<Rightarrow> 'o \<Rightarrow> 'o \<times> conn option \<times> (tty_error, bytes) res list" where
  "tty_RecvAnswer Z put ctx s out =
     (case put (''Peer'' @ [CHR 0x27] @ ''s Answer?'' @ [newline]) out of (out', _) \<Rightarrow> (out', readLine Z ctx s))"

end
