(* ===== verification/TTYLines.thy ===== *)
theory TTYLines
  imports SignalTTY
begin

text \<open>
  Properties of \<open>signal-tty.go\<close>: a line comes through however the terminal delivers it, how long it
  gets, when reading ends, and what the end of the input does.
\<close>

section \<open>Lines\<close>

lemma last_newline:
  assumes "acc @ buf @ r = l @ [newline]" and "newline \<notin> set l" and "newline \<in> set buf"
  shows "r = [] \<and> (\<exists>x. buf = x @ [newline] \<and> l = acc @ x)"
proof (cases r rule: rev_cases)
  case Nil
  with assms show ?thesis by (cases buf rule: rev_cases) auto
next
  case (snoc r0 z)
  with assms(1) have "acc @ buf @ r0 = l" by simp
  with assms(2,3) show ?thesis by auto
qed

lemma conn_read_nonempty:
  "conn_read k (cs, e) = Some (c, None, cs', e') \<Longrightarrow> 0 < k \<Longrightarrow> [] \<notin> set cs \<Longrightarrow> [] \<notin> set cs' \<and> e' = e"
  by (cases cs; cases e) (auto split: if_splits)

lemma conn_read_total: "cs \<noteq> [] \<Longrightarrow> \<exists>c cs'. conn_read k (cs, e) = Some (c, None, cs', e)"
  by (cases cs) auto

lemma read_whole_line:
  assumes "acc @ buf @ concat cs = l @ [newline]" and "newline \<notin> set l" and "[] \<notin> set cs"
    and "newline \<notin> set acc"
  shows "read_bytes acc buf (cs, e) = Some (l @ [newline], None, [], [], e)"
  using assms
proof (induction acc buf "(cs, e)" arbitrary: cs rule: read_bytes.induct)
  case (1 acc buf)
  consider "newline \<in> set buf" | "newline \<notin> set buf" "ttyBuf \<le> length buf"
    | "newline \<notin> set buf" "\<not> ttyBuf \<le> length buf" by blast
  then show ?case
  proof cases
    case 1
    from last_newline [OF "1.prems"(1,2) 1] obtain x where x: "concat cs = []" "buf = x @ [newline]" "l = acc @ x"
      by blast
    then have "cs = []" using "1.prems"(3) by (cases cs) auto
    moreover have "newline \<notin> set x" using "1.prems"(2) x by simp
    moreover have "takeWhile (\<lambda>c. c \<noteq> newline) (x @ [newline]) = x" "dropWhile (\<lambda>c. c \<noteq> newline) (x @ [newline]) = [newline]"
      using \<open>newline \<notin> set x\<close> takeWhile_append_stop [of x _ newline "[]"] dropWhile_append_stop [of x _ newline "[]"]
      by (metis (mono_tags, lifting))+
    ultimately show ?thesis using x by (simp add: read_bytes.simps [of acc "x @ [newline]"])
  next
    case 2
    with "1.hyps"(1) [OF 2] "1.prems" show ?thesis by (simp add: read_bytes.simps [of acc buf])
  next
    case 3
    have "cs \<noteq> []"
    proof
      assume "cs = []"
      with "1.prems"(1) have "newline \<in> set (acc @ buf)" by simp
      with 3(1) "1.prems"(4) show False by simp
    qed
    then obtain c cs' where r: "conn_read (ttyBuf - length buf) (cs, e) = Some (c, None, cs', e)"
      using conn_read_total by blast
    have d: "concat cs = c @ concat cs'" "[] \<notin> set cs'"
      using conn_read_data [OF r] conn_read_nonempty [OF r] 3(2) "1.prems"(3) by simp_all
    from "1.hyps"(2) [OF 3 r refl refl] d "1.prems" 3 r show ?thesis
      by (simp add: read_bytes.simps [of acc buf])
  qed
qed

lemma read_unfinished:
  assumes "newline \<notin> set (buf @ concat cs)" and "e \<noteq> Waits"
  shows "\<exists>x. read_bytes acc buf (cs, e) = Some (acc @ buf @ concat cs, Some x, [], [], e)"
  using assms
proof (induction acc buf "(cs, e)" arbitrary: cs rule: read_bytes.induct)
  case (1 acc buf)
  have n: "newline \<notin> set buf" using "1.prems" by simp
  show ?case
  proof (cases "ttyBuf \<le> length buf")
    case True
    with "1.hyps"(1) [OF n True] "1.prems" n show ?thesis by (simp add: read_bytes.simps [of acc buf])
  next
    case False
    obtain c x cs' e' where r: "conn_read (ttyBuf - length buf) (cs, e) = Some (c, x, cs', e')"
      using conn_read_waits [of "ttyBuf - length buf" "(cs, e)"] "1.prems"(2)
      by (cases "conn_read (ttyBuf - length buf) (cs, e)") auto
    show ?thesis
    proof (cases x)
      case None
      with r conn_read_data [of "ttyBuf - length buf" "(cs, e)"] have d: "e' = e" "concat cs = c @ concat cs'" by auto
      note r' = r [unfolded d(1) None]
      from "1.hyps"(2) [OF n False r' refl refl refl] "1.prems" n False r' d(2) show ?thesis
        by (simp add: read_bytes.simps [of acc buf])
    next
      case (Some y)
      with r conn_read_err conn_read_stop [of "ttyBuf - length buf" "(cs, e)"] n False show ?thesis
        by (fastforce simp: read_bytes.simps [of acc buf])
    qed
  qed
qed

lemma read_bytes_end:
  "(read_bytes acc buf s = None \<longrightarrow> snd s = Waits)
   \<and> (read_bytes acc buf s = Some (b, e, buf', s') \<longrightarrow> snd s' = snd s)"
proof (induction acc buf s rule: read_bytes.induct)
  case (1 acc buf s)
  consider "newline \<in> set buf" | "newline \<notin> set buf" "ttyBuf \<le> length buf"
    | "newline \<notin> set buf" "\<not> ttyBuf \<le> length buf" by blast
  then show ?case
  proof cases
    case 1
    then show ?thesis by (simp add: read_bytes.simps [of acc buf])
  next
    case 2
    with "1.IH"(1) [OF 2] show ?thesis by (simp add: read_bytes.simps [of acc buf])
  next
    case 3
    show ?thesis
    proof (cases "conn_read (ttyBuf - length buf) s")
      case None
      with 3 show ?thesis by (simp add: read_bytes.simps [of acc buf] conn_read_waits)
    next
      case (Some p)
      obtain c x s1 where r: "conn_read (ttyBuf - length buf) s = Some (c, x, s1)" using Some by (cases p) auto
      show ?thesis
      proof (cases x)
        case None
        with r have "snd s1 = snd s" using conn_read_data by blast
        with "1.IH"(2) [OF 3 r refl refl None] 3 r None show ?thesis
          by (simp add: read_bytes.simps [of acc buf])
      next
        case y: (Some y)
        with r conn_read_err have "s1 = s" by blast
        with 3 r y show ?thesis by (simp add: read_bytes.simps [of acc buf])
      qed
    qed
  qed
qed

lemma readLine_loop_waits: "readLine_loop Z ctx buf s = None \<Longrightarrow> ctx = None \<and> snd s = Waits"
proof (induction Z ctx buf s rule: readLine_loop.induct)
  case (1 Z ctx buf s)
  have c: "ctx = None" using "1.prems" by (cases ctx) (simp_all add: readLine_loop.simps [of Z "Some _"])
  show ?case
  proof (cases "read_bytes [] buf s")
    case None
    with c read_bytes_end show ?thesis by blast
  next
    case (Some p)
    obtain b e buf' s' where r: "read_bytes [] buf s = Some (b, e, buf', s')" using Some by (cases p) auto
    then obtain i line where l: "b \<noteq> []" "SetString62 (butlast b) = Some i" "z_open Z (Bytes i)"
      "z_read Z (Bytes i) = Some line" "line = []" "readLine_loop Z ctx buf' s' = None"
      using "1.prems" c by (auto simp: readLine_loop.simps [of Z None buf] split: option.splits if_splits)
    have "snd s' = Waits" using "1.IH" [of "(b, e, buf', s')" b "(e, buf', s')" e "(buf', s')" buf' s' i line] c r l by simp
    with c r read_bytes_end show ?thesis by metis
  qed
qed

lemma await_done_finished: "await_done None (Some r) = [r]"
  by (simp add: await_done_def chanRecv_def case_done_def case_recv_def done_chan_def new_chan_def)

lemma await_done_blocks: "await_done ctx r = [] \<longleftrightarrow> ctx = None \<and> r = None"
  by (simp add: await_done_def chanRecv_blocks done_chan_def new_chan_def)

section \<open>A concrete terminal\<close>

text \<open>What the program prints is appended; nothing fails.\<close>

definition term_put :: "bytes writer" where
  "term_put b out = (out @ b, length b, False)"

text \<open>
  The format as its documentation has it: a stream begins with the byte 0x78 (deflate, a window of
  32K), and reading it back gives what was written.
\<close>

definition zlib_laws :: "zlib \<Rightarrow> bool" where
  "zlib_laws Z \<longleftrightarrow>
     (\<forall>s. (\<exists>r. z_write Z s = CHR 0x78 # r) \<and> z_open Z (z_write Z s) \<and> z_read Z (z_write Z s) = Some s)"

definition demo_zlib :: zlib where
  "demo_zlib = \<lparr>z_write = (#) CHR 0x78, z_open = (\<lambda>b. b \<noteq> [] \<and> hd b = CHR 0x78), z_read = (\<lambda>b. Some (tl b))\<rparr>"

lemma demo_zlib_laws: "zlib_laws demo_zlib"
  by (simp add: zlib_laws_def demo_zlib_def)

lemma tty_text_read:
  assumes "zlib_laws Z"
  shows "SetString62 (tty_text Z str) = Some (SetBytes (z_write Z str))"
    "Bytes (SetBytes (z_write Z str)) = z_write Z str" "newline \<notin> set (tty_text Z str)"
proof -
  obtain r where "z_write Z str = CHR 0x78 # r" using assms unfolding zlib_laws_def by blast
  then show "Bytes (SetBytes (z_write Z str)) = z_write Z str" by (simp add: Bytes_SetBytes byte_val_def)
qed (simp_all add: tty_text_def SetString62_Text62, use Text62_plain in \<open>force simp: newline_def\<close>)

section \<open>Properties\<close>





text \<open>Reading ends: a call with no result at all is one with a live context on a terminal that stays
  silent; otherwise it returns a line or an error, or panics.\<close>

lemma readLine_ends:
  "snd (readLine Z ctx s) = [] \<Longrightarrow> ctx = None \<and> snd s = Waits"
  using readLine_loop_waits [of Z ctx "[]" s]
  by (auto simp: readLine_def await_done_blocks split: option.splits prod.splits res.splits)

text \<open>The end of the input is not noticed. A last line without its newline is read as if its last
  character were the newline, whether the input ended or failed; and at the end itself the program
  panics.\<close>

lemma tty_end_of_input:
  assumes "concat cs = l @ [c]" and "newline \<notin> set (l @ [c])" and "e \<noteq> Waits"
  shows "readLine Z None (cs, e) = readLine Z None ([l @ [newline]], e)
    \<and> readLine Z None ([], e) = (Some ([], e), [Panic])"
proof -
  obtain x where "read_bytes [] [] (cs, e) = Some (l @ [c], Some x, [], [], e)"
    using read_unfinished [of "[]" cs e "[]"] assms by auto
  moreover have "read_bytes [] [] ([l @ [newline]], e) = Some (l @ [newline], None, [], [], e)"
    by (rule read_whole_line) (use assms(2) in simp_all)
  ultimately have "readLine_loop Z None [] (cs, e) = readLine_loop Z None [] ([l @ [newline]], e)"
    by (simp add: readLine_loop.simps [of Z None "[]"])
  moreover have "readLine_loop Z None [] ([], e) = Some (Panic, [], e)"
    using read_unfinished [of "[]" "[]" e "[]"] assms(3) by (auto simp: readLine_loop.simps [of Z None "[]"])
  ultimately show ?thesis by (simp add: readLine_def)
qed

end
