(* ===== verification/Trickle.thy ===== *)
theory Trickle
  imports SignalMessenger "HOL-Library.Multiset"
begin

text \<open>
  \<open>ice.go\<close>: the exchange of ICE candidates while the connection is set up. Local candidates are sent
  as the WebRTC library finds them, remote ones are given to it as they arrive, or held back while
  it has no remote description.

  The library and the signalling are the environment of the steps: they decide when the remote
  description is set, which candidates arrive, whether \<open>AddICECandidate\<close> fails, and when the local
  gathering ends.
\<close>

section \<open>Sending\<close>

text \<open>
  The callback for a local candidate: the outcomes of reporting a failed send, each with the channel
  of errors it leaves, and the link after it. An empty list is a report that waits.
\<close>

definition on_ice_candidate ::
    "('k, 'c) ice_lib \<Rightarrow> ('s, 'e) link \<Rightarrow> go_ctx \<Rightarrow> 'e send_error chan \<Rightarrow> 'k option \<Rightarrow> 's
     \<Rightarrow> 's \<times> 'e send_error chan list" where
  "on_ice_candidate L M ctx errc ic io =
     (if ctx \<noteq> None then (io, [errc])
      else case SendICECandidate L M ic io of
        (io', Err x) \<Rightarrow> (io', map fst (chanSend ctx errc x))
      | (io', _) \<Rightarrow> (io', [errc]))"

section \<open>Receiving\<close>

text \<open>
  Where the goroutine of \<open>trickleICE\<close> stands: at the test of the context, in the loop over the
  candidates held back (those left), in the report of a failure there, in \<open>RecvICECandidate\<close>,
  before the second test of the remote description, in the report of a failure, or done.
\<close>

datatype 'c trickle_pc =
    Top | Flushing "'c list" | FlushReport "'c list" | Receiving | Checking 'c | Report | Stopped

record 'c trickle =
  tk_ctx :: go_ctx
  tk_remote :: bool
  tk_deferred :: "'c list"
  tk_added :: "'c list"
  tk_errc :: "unit chan"
  tk_pc :: "'c trickle_pc"

text \<open>\<open>trickleICEWLog\<close> receives from the channel of errors once.\<close>

definition new_trickle :: "go_ctx \<Rightarrow> bool \<Rightarrow> 'c trickle" where
  "new_trickle ctx remote =
     \<lparr>tk_ctx = ctx, tk_remote = remote, tk_deferred = [], tk_added = [],
      tk_errc = new_chan\<lparr>ch_receivers := 1\<rparr>, tk_pc = Top\<rparr>"

text \<open>\<open>AddICECandidate\<close>, and the position after it.\<close>

definition add_candidate :: "'c \<Rightarrow> 'c trickle_pc \<Rightarrow> 'c trickle \<Rightarrow> 'c trickle" where
  "add_candidate c pc \<tau> = \<tau>\<lparr>tk_added := tk_added \<tau> @ [c], tk_pc := pc\<rparr>"

text \<open>The handler of the gathering state: a final state cancels the context and closes the channel once.\<close>

definition on_gathered :: "'c trickle \<Rightarrow> 'c trickle" where
  "on_gathered \<tau> =
     \<tau>\<lparr>tk_ctx := (case tk_ctx \<tau> of None \<Rightarrow> Some Canceled | Some e \<Rightarrow> Some e),
       tk_errc := (if ch_closed (tk_errc \<tau>) then tk_errc \<tau> else fst (go_close (tk_errc \<tau>)))\<rparr>"

inductive trickle_step :: "'c trickle \<Rightarrow> 'c option \<Rightarrow> 'c trickle \<Rightarrow> bool" where
  stop: "tk_pc \<tau> = Top \<Longrightarrow> tk_ctx \<tau> \<noteq> None \<Longrightarrow> trickle_step \<tau> None (\<tau>\<lparr>tk_pc := Stopped\<rparr>)"
| flush: "tk_pc \<tau> = Top \<Longrightarrow> tk_ctx \<tau> = None \<Longrightarrow> tk_remote \<tau> \<Longrightarrow> 0 < length (tk_deferred \<tau>) \<Longrightarrow>
    trickle_step \<tau> None (\<tau>\<lparr>tk_pc := Flushing (tk_deferred \<tau>)\<rparr>)"
| no_flush: "tk_pc \<tau> = Top \<Longrightarrow> tk_ctx \<tau> = None \<Longrightarrow> \<not> (tk_remote \<tau> \<and> 0 < length (tk_deferred \<tau>)) \<Longrightarrow>
    trickle_step \<tau> None (\<tau>\<lparr>tk_pc := Receiving\<rparr>)"
| flush_add: "tk_pc \<tau> = Flushing (c # cs) \<Longrightarrow> trickle_step \<tau> None (add_candidate c (Flushing cs) \<tau>)"
| flush_fail: "tk_pc \<tau> = Flushing (c # cs) \<Longrightarrow> trickle_step \<tau> None (add_candidate c (FlushReport cs) \<tau>)"
| flush_report: "tk_pc \<tau> = FlushReport cs \<Longrightarrow> (errc, r) \<in> set (chanSend (tk_ctx \<tau>) (tk_errc \<tau>) ()) \<Longrightarrow>
    trickle_step \<tau> None (\<tau>\<lparr>tk_errc := errc, tk_pc := Flushing cs\<rparr>)"
| flushed: "tk_pc \<tau> = Flushing [] \<Longrightarrow> trickle_step \<tau> None (\<tau>\<lparr>tk_deferred := [], tk_pc := Receiving\<rparr>)"
| receive: "tk_pc \<tau> = Receiving \<Longrightarrow> trickle_step \<tau> (Some c) (\<tau>\<lparr>tk_pc := Checking c\<rparr>)"
| receive_failed: "tk_pc \<tau> = Receiving \<Longrightarrow> trickle_step \<tau> None (\<tau>\<lparr>tk_pc := Stopped\<rparr>)"
| hold_back: "tk_pc \<tau> = Checking c \<Longrightarrow> \<not> tk_remote \<tau> \<Longrightarrow>
    trickle_step \<tau> None (\<tau>\<lparr>tk_deferred := tk_deferred \<tau> @ [c], tk_pc := Top\<rparr>)"
| add: "tk_pc \<tau> = Checking c \<Longrightarrow> tk_remote \<tau> \<Longrightarrow> trickle_step \<tau> None (add_candidate c Top \<tau>)"
| add_fail: "tk_pc \<tau> = Checking c \<Longrightarrow> tk_remote \<tau> \<Longrightarrow> trickle_step \<tau> None (add_candidate c Report \<tau>)"
| report: "tk_pc \<tau> = Report \<Longrightarrow> (errc, r) \<in> set (chanSend (tk_ctx \<tau>) (tk_errc \<tau>) ()) \<Longrightarrow>
    trickle_step \<tau> None (\<tau>\<lparr>tk_errc := errc, tk_pc := Top\<rparr>)"
| set_remote: "trickle_step \<tau> None (\<tau>\<lparr>tk_remote := True\<rparr>)"
| gathered: "trickle_step \<tau> None (on_gathered \<tau>)"
| expire: "tk_ctx \<tau> = None \<Longrightarrow> trickle_step \<tau> None (\<tau>\<lparr>tk_ctx := Some e\<rparr>)"

inductive_cases trickle_stepE: "trickle_step \<tau> l \<tau>'"

text \<open>A run with the candidates it receives.\<close>

inductive trickle_run :: "'c trickle \<Rightarrow> 'c list \<Rightarrow> 'c trickle \<Rightarrow> bool" for \<tau>0 where
  start: "trickle_run \<tau>0 [] \<tau>0"
| quiet: "trickle_run \<tau>0 rs \<tau> \<Longrightarrow> trickle_step \<tau> None \<tau>' \<Longrightarrow> trickle_run \<tau>0 rs \<tau>'"
| arrive: "trickle_run \<tau>0 rs \<tau> \<Longrightarrow> trickle_step \<tau> (Some c) \<tau>' \<Longrightarrow> trickle_run \<tau>0 (rs @ [c]) \<tau>'"

section \<open>The loop around it\<close>

text \<open>
  \<open>trickleICEWLog\<close>: each turn starts another trickle and receives once from its channel; the closed
  channel or a finished context ends the loop. The input is what each turn finds, the result the
  number of trickles it starts, \<open>None\<close> when it still waits.
\<close>

datatype errc_recv = ErrcClosed | ErrcError

fun trickleICEWLog :: "(go_ctx \<times> errc_recv) list \<Rightarrow> nat option" where
  "trickleICEWLog [] = None"
| "trickleICEWLog ((ctx, r) # ts) =
     (if ctx \<noteq> None then Some 0
      else case r of ErrcClosed \<Rightarrow> Some 1 | ErrcError \<Rightarrow> map_option Suc (trickleICEWLog ts))"

text \<open>
  \<open>gatherICE\<close>: with a signalling that carries candidates the channel it returns closes when the loop
  above ends, otherwise when \<open>chanRecv\<close> of the library's promise returns, before it returns itself.
\<close>

definition gatherICE :: "bool \<Rightarrow> go_ctx \<Rightarrow> bool \<Rightarrow> (go_ctx \<times> errc_recv) list \<Rightarrow> bool" where
  "gatherICE has_ice ctx promise turns =
     (if has_ice then trickleICEWLog turns \<noteq> None
      else chanRecv ctx (new_chan\<lparr>ch_closed := promise\<rparr> :: unit chan) \<noteq> [])"

section \<open>Invariants\<close>

text \<open>The candidates received and not yet given to the library.\<close>

fun outstanding :: "'c trickle \<Rightarrow> 'c list" where
  "outstanding \<tau> =
     (case tk_pc \<tau> of
        Flushing cs \<Rightarrow> cs
      | FlushReport cs \<Rightarrow> cs
      | Checking c \<Rightarrow> tk_deferred \<tau> @ [c]
      | _ \<Rightarrow> tk_deferred \<tau>)"

lemma trickle_step_mset:
  "trickle_step \<tau> l \<tau>' \<Longrightarrow>
     mset (tk_added \<tau>') + mset (outstanding \<tau>')
       = mset (tk_added \<tau>) + mset (outstanding \<tau>) + mset (case l of None \<Rightarrow> [] | Some c \<Rightarrow> [c])"
  by (induction rule: trickle_step.induct)
    (auto simp: add_candidate_def on_gathered_def split: trickle_pc.splits)

lemma trickle_run_mset:
  "trickle_run \<tau>0 rs \<tau> \<Longrightarrow> mset (tk_added \<tau>) + mset (outstanding \<tau>) = mset (tk_added \<tau>0) + mset (outstanding \<tau>0) + mset rs"
proof (induction rule: trickle_run.induct)
  case (quiet rs \<tau> \<tau>')
  with trickle_step_mset [OF quiet(2)] show ?case by (simp del: outstanding.simps)
next
  case (arrive rs \<tau> c \<tau>')
  with trickle_step_mset [OF arrive(2)] show ?case by (simp del: outstanding.simps)
qed simp

text \<open>Nothing is given to the library before it has the remote description.\<close>

definition trickle_ok :: "'c trickle \<Rightarrow> bool" where
  "trickle_ok \<tau> \<longleftrightarrow>
     (tk_added \<tau> \<noteq> [] \<longrightarrow> tk_remote \<tau>)
   \<and> (case tk_pc \<tau> of Flushing cs \<Rightarrow> tk_remote \<tau> | FlushReport cs \<Rightarrow> tk_remote \<tau> | _ \<Rightarrow> True)"

lemma trickle_step_ok: "trickle_step \<tau> l \<tau>' \<Longrightarrow> trickle_ok \<tau> \<Longrightarrow> trickle_ok \<tau>'"
  by (induction rule: trickle_step.induct) (auto simp: trickle_ok_def add_candidate_def on_gathered_def split: trickle_pc.splits)

lemma trickle_run_ok: "trickle_run \<tau>0 rs \<tau> \<Longrightarrow> trickle_ok \<tau>0 \<Longrightarrow> trickle_ok \<tau>"
  by (induction rule: trickle_run.induct) (auto intro: trickle_step_ok)

text \<open>With the remote description set from the start nothing is held back, and the order is kept.\<close>

definition in_order :: "'c list \<Rightarrow> 'c trickle \<Rightarrow> bool" where
  "in_order rs \<tau> \<longleftrightarrow> tk_remote \<tau> \<and> tk_deferred \<tau> = [] \<and> tk_added \<tau> @ outstanding \<tau> = rs"

lemma in_order_step:
  "trickle_step \<tau> l \<tau>' \<Longrightarrow> in_order rs \<tau> \<Longrightarrow> (\<forall>cs. tk_pc \<tau> \<noteq> Flushing cs \<and> tk_pc \<tau> \<noteq> FlushReport cs) \<Longrightarrow>
     in_order (rs @ (case l of None \<Rightarrow> [] | Some c \<Rightarrow> [c])) \<tau>'
     \<and> (\<forall>cs. tk_pc \<tau>' \<noteq> Flushing cs \<and> tk_pc \<tau>' \<noteq> FlushReport cs)"
  by (induction rule: trickle_step.induct)
    (auto simp: in_order_def add_candidate_def on_gathered_def split: trickle_pc.splits)

lemma in_order_run:
  "trickle_run \<tau>0 rs \<tau> \<Longrightarrow> \<tau>0 = new_trickle ctx True \<Longrightarrow>
     in_order rs \<tau> \<and> (\<forall>cs. tk_pc \<tau> \<noteq> Flushing cs \<and> tk_pc \<tau> \<noteq> FlushReport cs)"
proof (induction rule: trickle_run.induct)
  case start
  then show ?case by (simp add: in_order_def new_trickle_def)
next
  case (quiet rs \<tau> \<tau>')
  with in_order_step [OF quiet(2), of rs] show ?case by simp
next
  case (arrive rs \<tau> c \<tau>')
  with in_order_step [OF arrive(2), of rs] show ?case by simp
qed

text \<open>Candidates that arrive before the remote description are held back, one after the other.\<close>

lemma held_back:
  "trickle_run (new_trickle None False) rs
     ((new_trickle None False)\<lparr>tk_deferred := rs, tk_pc := Receiving\<rparr>)"
proof (induction rs rule: rev_induct)
  case Nil
  let ?n = "new_trickle None False :: 'a trickle"
  have "trickle_step ?n None (?n\<lparr>tk_pc := Receiving\<rparr>)"
    by (rule trickle_step.no_flush) (simp_all add: new_trickle_def)
  from trickle_run.quiet [OF trickle_run.start this] show ?case by (simp add: new_trickle_def)
next
  case (snoc c rs)
  let ?n = "\<lambda>ds pc. (new_trickle None False)\<lparr>tk_deferred := ds, tk_pc := pc\<rparr> :: 'a trickle"
  have 1: "trickle_step (?n rs Receiving) (Some c) (?n rs (Checking c))"
    using trickle_step.receive [of "?n rs Receiving" c] by simp
  have 2: "trickle_step (?n rs (Checking c)) None (?n (rs @ [c]) Top)"
    using trickle_step.hold_back [of "?n rs (Checking c)" c] by (simp add: new_trickle_def)
  have 3: "trickle_step (?n (rs @ [c]) Top) None (?n (rs @ [c]) Receiving)"
    using trickle_step.no_flush [of "?n (rs @ [c]) Top"] by (simp add: new_trickle_def)
  show ?case
    by (rule trickle_run.quiet [OF trickle_run.quiet [OF trickle_run.arrive [OF snoc.IH 1] 2] 3])
qed

lemma quiet_receiving:
  "trickle_run \<tau> rs \<tau>' \<Longrightarrow> rs = [] \<Longrightarrow> tk_pc \<tau> = Receiving \<Longrightarrow>
     tk_pc \<tau>' \<in> {Receiving, Stopped} \<and> tk_added \<tau>' = tk_added \<tau>"
proof (induction rule: trickle_run.induct)
  case (quiet rs \<tau>1 \<tau>2)
  from quiet(2) show ?case
    by (cases rule: trickle_step.cases) (use quiet in \<open>auto simp: on_gathered_def\<close>)
qed auto

text \<open>Once the context is done, at most one more candidate is received, and nothing that is held back
  is given to the library unless that had begun.\<close>

fun receives_left :: "'c trickle_pc \<Rightarrow> nat" where
  "receives_left Receiving = 1"
| "receives_left (Flushing cs) = 1"
| "receives_left (FlushReport cs) = 1"
| "receives_left pc = 0"

lemma done_step:
  "trickle_step \<tau> l \<tau>' \<Longrightarrow> tk_ctx \<tau> \<noteq> None \<Longrightarrow>
     tk_ctx \<tau>' \<noteq> None \<and> receives_left (tk_pc \<tau>') + (if l = None then 0 else 1) \<le> receives_left (tk_pc \<tau>)"
  by (induction rule: trickle_step.induct) (auto simp: add_candidate_def on_gathered_def)

lemma done_run:
  "trickle_run \<tau> rs \<tau>' \<Longrightarrow> tk_ctx \<tau> \<noteq> None \<Longrightarrow>
     tk_ctx \<tau>' \<noteq> None \<and> length rs + receives_left (tk_pc \<tau>') \<le> receives_left (tk_pc \<tau>)"
  by (induction rule: trickle_run.induct) (fastforce dest: done_step)+

definition dropping :: "'c set \<Rightarrow> 'c list \<Rightarrow> 'c trickle \<Rightarrow> bool" where
  "dropping A rs \<tau> \<longleftrightarrow> tk_ctx \<tau> \<noteq> None \<and> set (tk_added \<tau>) \<subseteq> A \<union> set rs
     \<and> (case tk_pc \<tau> of Checking c \<Rightarrow> c \<in> set rs | Flushing cs \<Rightarrow> False | FlushReport cs \<Rightarrow> False | _ \<Rightarrow> True)"

lemma dropping_step:
  "trickle_step \<tau> l \<tau>' \<Longrightarrow> dropping A rs \<tau> \<Longrightarrow> dropping A (rs @ (case l of None \<Rightarrow> [] | Some c \<Rightarrow> [c])) \<tau>'"
  by (induction rule: trickle_step.induct)
    (auto simp: dropping_def add_candidate_def on_gathered_def split: trickle_pc.splits)

lemma dropping_run: "trickle_run \<tau> rs \<tau>' \<Longrightarrow> dropping A [] \<tau> \<Longrightarrow> dropping A rs \<tau>'"
proof (induction rule: trickle_run.induct)
  case (quiet rs \<tau>1 \<tau>2)
  with dropping_step [OF quiet(2)] show ?case by fastforce
next
  case (arrive rs \<tau>1 c \<tau>2)
  with dropping_step [OF arrive(2)] show ?case by fastforce
qed auto

section \<open>Properties\<close>



text \<open>Candidates that arrive before the remote description wait for one that arrives after it: when
  all of them came early, none is ever given to the library, however long the loop runs with the
  description set.\<close>

lemma early_candidates_wait:
  "\<exists>\<tau>. trickle_run (new_trickle None False) rs \<tau> \<and> tk_remote \<tau> \<and> tk_ctx \<tau> = None \<and> tk_deferred \<tau> = rs
     \<and> \<not> (\<exists>\<tau>'. trickle_run \<tau> [] \<tau>' \<and> tk_added \<tau>' \<noteq> [])"
proof -
  let ?\<tau> = "(new_trickle None False)\<lparr>tk_deferred := rs, tk_pc := Receiving, tk_remote := True\<rparr>"
  have "trickle_run (new_trickle None False) rs ?\<tau>"
    using trickle_run.quiet [OF held_back trickle_step.set_remote] .
  moreover have "tk_added \<tau>' = []" if "trickle_run ?\<tau> [] \<tau>'" for \<tau>'
    using quiet_receiving [OF that] by (simp add: new_trickle_def)
  ultimately show ?thesis by (intro exI [of _ ?\<tau>]) (auto simp: new_trickle_def)
qed

text \<open>The end of the local gathering ends the receiving. Its handler cancels the context that the loop
  over the remote candidates uses too: after it at most one more candidate is received, and when
  it finds the loop waiting, what was held back is never given to the library.\<close>

lemma gathering_ends_receiving:
  assumes "trickle_run (on_gathered \<tau>) rs \<tau>'"
  shows "length rs \<le> 1 \<and> (tk_pc \<tau> = Receiving \<longrightarrow> set (tk_added \<tau>') \<subseteq> set (tk_added \<tau>) \<union> set rs)"
proof -
  have ctx: "tk_ctx (on_gathered \<tau>) \<noteq> None" by (simp add: on_gathered_def split: option.splits)
  have "receives_left pc \<le> 1" for pc :: "'a trickle_pc" by (cases pc) simp_all
  with done_run [OF assms ctx] have "length rs \<le> 1" using add_leD1 order_trans by blast
  moreover have "dropping (set (tk_added \<tau>)) [] (on_gathered \<tau>)" if "tk_pc \<tau> = Receiving"
    using ctx that by (simp add: dropping_def on_gathered_def)
  ultimately show ?thesis using dropping_run [OF assms] unfolding dropping_def by blast
qed

end
