(* ===== verification/Endpoint.thy ===== *)
theory Endpoint
  imports GoStrings
begin

text \<open>
  \<open>proxy-endpoint.go\<close>: the pair of addresses of a forward, its text form, and the authorizer
  built from the list of allowed remotes. Also the parsing of the \<open>--forward\<close> flags in
  \<open>cli-proxy-tty.go\<close>.
\<close>

record endpoint =
  ep_local :: bytes
  ep_remote :: bytes

datatype endpoint_error = InvalidEndpoint bytes

definition EndpointFromString :: "bytes \<Rightarrow> (endpoint_error, endpoint) res" where
  "EndpointFromString s =
     (let a = strings_split CHR '':'' s in
      if length a \<noteq> 4 then Err (InvalidEndpoint s)
      else Ok \<lparr>ep_local = a ! 0 @ '':'' @ a ! 1, ep_remote = a ! 2 @ '':'' @ a ! 3\<rparr>)"

definition endpoint_String :: "endpoint \<Rightarrow> bytes" where
  "endpoint_String ep = ep_local ep @ '':'' @ ep_remote ep"

text \<open>
  An authorizer answers with a boolean and an error; the closures of the code never fail. The
  list is walked once: the first \<open>*\<close> ends the walk with the closure that allows everything.
\<close>

type_synonym authorizer = "endpoint \<Rightarrow> (endpoint_error, bool) res"

definition noop_auth :: authorizer where
  "noop_auth ep = Ok True"

definition whitelist_auth :: "bytes set \<Rightarrow> authorizer" where
  "whitelist_auth eps ep = Ok (ep_remote ep \<in> eps)"

fun authorizer_loop :: "bytes set \<Rightarrow> bytes list \<Rightarrow> authorizer" where
  "authorizer_loop eps [] = whitelist_auth eps"
| "authorizer_loop eps (r # rs) =
     (if r = ''*'' then noop_auth else authorizer_loop (insert r eps) rs)"

definition NewBasicEndpointAuthorizer :: "bytes list \<Rightarrow> authorizer" where
  "NewBasicEndpointAuthorizer epr = authorizer_loop {} epr"

text \<open>The loop over the forwards of the command line: the first bad one ends it.\<close>

fun parse_forwards :: "endpoint list \<Rightarrow> bytes list \<Rightarrow> (endpoint_error, endpoint list) res" where
  "parse_forwards eps [] = Ok eps"
| "parse_forwards eps (pair # pairs) =
     rbind (EndpointFromString pair) (\<lambda>ep. parse_forwards (eps @ [ep]) pairs)"

section \<open>Lemmas\<close>

text \<open>An endpoint the text form determines: each half is a host and a port.\<close>

definition endpoint_ok :: "endpoint \<Rightarrow> bool" where
  "endpoint_ok ep \<longleftrightarrow>
     count_list (ep_local ep) CHR '':'' = 1 \<and> count_list (ep_remote ep) CHR '':'' = 1"

lemma count_list_1E:
  assumes "count_list s b = 1"
  obtains x y where "s = x @ b # y" and "b \<notin> set x" and "b \<notin> set y"
proof -
  have "b \<in> set s" using assms by (metis count_list_0_iff zero_neq_one)
  then obtain x y where s: "s = x @ b # y" "b \<notin> set x"
    by (metis split_list_first)
  then have "count_list y b = 0" using assms by (simp add: count_list_0_iff)
  with s show ?thesis using that by (simp add: count_list_0_iff)
qed

lemma split_4:
  assumes "b \<notin> set w" and "b \<notin> set x" and "b \<notin> set y" and "b \<notin> set z"
  shows "strings_split b (w @ b # x @ b # y @ b # z) = [w, x, y, z]"
  using assms by (simp add: split_append_sep split_no_sep)

lemma EndpointFromString_String:
  assumes "endpoint_ok ep"
  shows "EndpointFromString (endpoint_String ep) = Ok ep"
proof -
  obtain w x where l: "ep_local ep = w @ CHR '':'' # x" "CHR '':'' \<notin> set w" "CHR '':'' \<notin> set x"
    using assms count_list_1E [of "ep_local ep" "CHR '':''"] unfolding endpoint_ok_def by blast
  obtain y z where r: "ep_remote ep = y @ CHR '':'' # z" "CHR '':'' \<notin> set y" "CHR '':'' \<notin> set z"
    using assms count_list_1E [of "ep_remote ep" "CHR '':''"] unfolding endpoint_ok_def by blast
  show ?thesis
    using l(1) r(1) split_4 [OF l(2,3) r(2,3)]
    by (cases ep) (simp add: EndpointFromString_def endpoint_String_def)
qed

lemma EndpointFromString_Ok:
  "EndpointFromString s = Ok ep \<longleftrightarrow> endpoint_String ep = s \<and> endpoint_ok ep"
proof
  assume p: "EndpointFromString s = Ok ep"
  then have "length (strings_split CHR '':'' s) = 4"
    by (auto simp: EndpointFromString_def Let_def split: if_splits)
  then obtain w x y z where a: "strings_split CHR '':'' s = [w, x, y, z]"
    by (auto simp: numeral_eq_Suc length_Suc_conv)
  have "s = w @ '':'' @ x @ '':'' @ y @ '':'' @ z"
    using join_split [of "CHR '':''" s] a by simp
  moreover have "CHR '':'' \<notin> set w \<union> set x \<union> set y \<union> set z"
    using split_pieces [of "CHR '':''" s] a by simp
  moreover have "ep = \<lparr>ep_local = w @ '':'' @ x, ep_remote = y @ '':'' @ z\<rparr>"
    using p a by (simp add: EndpointFromString_def)
  ultimately show "endpoint_String ep = s \<and> endpoint_ok ep"
    by (simp add: endpoint_String_def endpoint_ok_def count_list_0_iff)
next
  assume "endpoint_String ep = s \<and> endpoint_ok ep"
  then show "EndpointFromString s = Ok ep" using EndpointFromString_String by blast
qed

lemma EndpointFromString_Err:
  "EndpointFromString s = Err e \<longleftrightarrow> count_list s CHR '':'' \<noteq> 3 \<and> e = InvalidEndpoint s"
  by (auto simp: EndpointFromString_def Let_def length_split)

lemma EndpointFromString_no_panic [simp]: "EndpointFromString s \<noteq> Panic"
  by (simp add: EndpointFromString_def Let_def)

interpretation endpoint: codec endpoint_String
    "\<lambda>s. case EndpointFromString s of Ok ep \<Rightarrow> Some ep | _ \<Rightarrow> None" endpoint_ok
  by unfold_locales (simp add: EndpointFromString_String)

lemma authorizer_loop_eq:
  "authorizer_loop eps rs ep = Ok (''*'' \<in> set rs \<or> ep_remote ep \<in> eps \<or> ep_remote ep \<in> set rs)"
  by (induction rs arbitrary: eps) (auto simp: whitelist_auth_def noop_auth_def)

lemma parse_forwards_Ok:
  "parse_forwards acc fs = Ok eps \<longleftrightarrow>
     (\<exists>new. eps = acc @ new \<and> fs = map endpoint_String new \<and> (\<forall>ep\<in>set new. endpoint_ok ep))"
proof (induction fs arbitrary: acc)
  case Nil
  then show ?case by auto
next
  case (Cons f fs)
  show ?case
  proof
    assume "parse_forwards acc (f # fs) = Ok eps"
    then obtain ep new where "EndpointFromString f = Ok ep" "eps = (acc @ [ep]) @ new"
      "fs = map endpoint_String new" "\<forall>ep\<in>set new. endpoint_ok ep"
      using Cons.IH by (auto simp: rbind_eq_Ok)
    then show "\<exists>new. eps = acc @ new \<and> f # fs = map endpoint_String new \<and> (\<forall>ep\<in>set new. endpoint_ok ep)"
      by (intro exI [of _ "ep # new"]) (simp add: EndpointFromString_Ok)
  next
    assume "\<exists>new. eps = acc @ new \<and> f # fs = map endpoint_String new \<and> (\<forall>ep\<in>set new. endpoint_ok ep)"
    then obtain ep new where "eps = acc @ ep # new" "f = endpoint_String ep" "endpoint_ok ep"
      "fs = map endpoint_String new" "\<forall>ep\<in>set new. endpoint_ok ep"
      by (auto simp: Cons_eq_map_conv)
    then show "parse_forwards acc (f # fs) = Ok eps"
      using Cons.IH [of "acc @ [ep]"] by (simp add: EndpointFromString_String)
  qed
qed

section \<open>Properties\<close>

text \<open>A forward is read back from its text form and nothing else is accepted: \<open>EndpointFromString\<close>
  succeeds exactly on the printed forms of endpoints whose halves have one colon each, so IPv6
  addresses cannot be written.\<close>

lemma endpoint_parse_iff:
  "EndpointFromString s = Ok ep \<longleftrightarrow>
     endpoint_String ep = s
     \<and> count_list (ep_local ep) CHR '':'' = 1 \<and> count_list (ep_remote ep) CHR '':'' = 1"
  by (simp add: EndpointFromString_Ok endpoint_ok_def)

text \<open>The authorizer never fails, and allows a remote exactly when the list has it or a star.\<close>

lemma authorizer_allows_iff:
  "NewBasicEndpointAuthorizer epr ep = Ok b \<longleftrightarrow>
     b = (''*'' \<in> set epr \<or> ep_remote ep \<in> set epr)"
  by (auto simp: NewBasicEndpointAuthorizer_def authorizer_loop_eq)

end
