(* ===== verification/Sessions.thy ===== *)
theory Sessions
  imports Endpoint Utils
begin

text \<open>
  The sessions of \<open>proxy-egress.go\<close> and \<open>proxy-ingress.go\<close>: the exchange of descriptions at their
  start, and their life after it with the tunnels, the timeout of the signalling and the states of
  the peer connection.

  WebRTC, smux and the sockets are the environment: they decide which calls fail and when a state
  changes, a connection comes in or a session breaks.
\<close>

section \<open>Exchange of descriptions\<close>

datatype setup_error =
    DummyChannelFailed | CreateOfferFailed | CreateAnswerFailed | SetLocalFailed | SetRemoteFailed
  | SendFailed | ReceiveFailed

text \<open>What the calls answer; \<open>su_received\<close> is the peer's description, \<open>None\<close> when receiving it failed.\<close>

record calls_env =
  su_dummy :: bool
  su_create :: bool
  su_set_local :: bool
  su_local :: bytes
  su_send :: bool
  su_received :: "bytes option"
  su_set_remote :: bool

datatype call =
    CreateDummyChannel | CreateDescription | SetLocalDescription | GatherICE | SendDescription bytes
  | RecvDescription | SetRemoteDescription bytes | ListenForChannels

text \<open>The calls made, in order, and the error the function returns with.\<close>

definition createDummyDataChannel :: "calls_env \<Rightarrow> setup_error option" where
  "createDummyDataChannel u = (if su_dummy u then None else Some DummyChannelFailed)"

definition egress_setup :: "calls_env \<Rightarrow> call list \<times> setup_error option" where
  "egress_setup u =
     (let c1 = [CreateDummyChannel] in
      if createDummyDataChannel u \<noteq> None then (c1, createDummyDataChannel u)
      else let c2 = c1 @ [CreateDescription] in
      if \<not> su_create u then (c2, Some CreateOfferFailed)
      else let c3 = c2 @ [SetLocalDescription] in
      if \<not> su_set_local u then (c3, Some SetLocalFailed)
      else let c4 = c3 @ [GatherICE, SendDescription (su_local u)] in
      if \<not> su_send u then (c4, Some SendFailed)
      else let c5 = c4 @ [RecvDescription] in
      case su_received u of
        None \<Rightarrow> (c5, Some ReceiveFailed)
      | Some answer \<Rightarrow>
          (c5 @ [SetRemoteDescription answer], if su_set_remote u then None else Some SetRemoteFailed))"

definition ingress_setup :: "calls_env \<Rightarrow> call list \<times> setup_error option" where
  "ingress_setup u =
     (let c1 = [ListenForChannels, RecvDescription] in
      case su_received u of
        None \<Rightarrow> (c1, Some ReceiveFailed)
      | Some offer \<Rightarrow>
      (let c2 = c1 @ [SetRemoteDescription offer] in
      if \<not> su_set_remote u then (c2, Some SetRemoteFailed)
      else let c3 = c2 @ [CreateDescription] in
      if \<not> su_create u then (c3, Some CreateAnswerFailed)
      else let c4 = c3 @ [SetLocalDescription] in
      if \<not> su_set_local u then (c4, Some SetLocalFailed)
      else (c4 @ [GatherICE, SendDescription (su_local u)], if su_send u then None else Some SendFailed)))"

section \<open>The egress session\<close>

text \<open>
  A tunnel of \<open>startTunnel\<close>: opening its data channel, at \<open>Accept\<close>, after the watcher has cancelled
  its context and closed the listener, or returned.
\<close>

datatype tunnel = Opening | Accepting | Unlistened | TunnelEnded

text \<open>
  The goroutine of \<open>startTunnels\<close>: at the test of the context with the endpoints left, at
  \<open>CreateDataChannel\<close>, in the deferred \<open>Wait\<close> with its result, or over. And the main goroutine: at
  \<open>chanRecv(sctx, iceDone)\<close>, at \<open><-ctx.Done()\<close>, or returned.
\<close>

datatype session_error = PeerFailed | StartTunnelsFailed

datatype starter = Testing "endpoint list" | Creating endpoint "endpoint list"
  | Joining "session_error option" | StarterDone

datatype main_pc = AwaitICE | AwaitCtx | Returned

record egress =
  eg_ctx :: go_ctx
  eg_sctx :: go_ctx
  eg_tunnels_cancelled :: bool
  eg_starter :: starter
  eg_tunnels :: "tunnel list"
  eg_relays :: nat
  eg_ice_done :: bool
  eg_main :: main_pc
  eg_signal_closed :: bool
  eg_peer_closed :: bool
  eg_err :: "session_error option"

definition egress_started :: "endpoint list \<Rightarrow> egress" where
  "egress_started eps =
     \<lparr>eg_ctx = None, eg_sctx = None, eg_tunnels_cancelled = False, eg_starter = Testing eps,
      eg_tunnels = [], eg_relays = 0, eg_ice_done = False, eg_main = AwaitICE, eg_signal_closed = False,
      eg_peer_closed = False, eg_err = None\<rparr>"

text \<open>Cancelling a context cancels those derived from it; the first error stays.\<close>

definition cancel_ctx :: "go_ctx \<Rightarrow> ctx_error \<Rightarrow> go_ctx" where
  "cancel_ctx c e = (case c of None \<Rightarrow> Some e | Some e' \<Rightarrow> Some e')"

definition cancel_session :: "egress \<Rightarrow> egress" where
  "cancel_session \<sigma> =
     \<sigma>\<lparr>eg_ctx := cancel_ctx (eg_ctx \<sigma>) Canceled, eg_sctx := cancel_ctx (eg_sctx \<sigma>) Canceled\<rparr>"

text \<open>The context of the tunnels is derived from that of the signalling.\<close>

definition tunnels_done :: "egress \<Rightarrow> bool" where
  "tunnels_done \<sigma> \<longleftrightarrow> eg_sctx \<sigma> \<noteq> None \<or> eg_tunnels_cancelled \<sigma>"

definition set_tunnel :: "nat \<Rightarrow> tunnel \<Rightarrow> egress \<Rightarrow> egress" where
  "set_tunnel i t \<sigma> = \<sigma>\<lparr>eg_tunnels := (eg_tunnels \<sigma>)[i := t]\<rparr>"

text \<open>The steps of the program itself.\<close>

inductive egress_step :: "egress \<Rightarrow> egress \<Rightarrow> bool" where
  ice_received: "eg_main \<sigma> = AwaitICE \<Longrightarrow> eg_ice_done \<sigma> \<or> eg_sctx \<sigma> \<noteq> None \<Longrightarrow>
    egress_step \<sigma> (\<sigma>\<lparr>eg_signal_closed := True, eg_main := AwaitCtx\<rparr>)"
| return: "eg_main \<sigma> = AwaitCtx \<Longrightarrow> eg_ctx \<sigma> \<noteq> None \<Longrightarrow>
    egress_step \<sigma> (\<sigma>\<lparr>eg_peer_closed := True, eg_sctx := cancel_ctx (eg_sctx \<sigma>) Canceled, eg_main := Returned\<rparr>)"
| test_stop: "eg_starter \<sigma> = Testing (ep # eps) \<Longrightarrow> tunnels_done \<sigma> \<Longrightarrow>
    egress_step \<sigma> (\<sigma>\<lparr>eg_starter := Joining (Some StartTunnelsFailed)\<rparr>)"
| test_go: "eg_starter \<sigma> = Testing (ep # eps) \<Longrightarrow> \<not> tunnels_done \<sigma> \<Longrightarrow>
    egress_step \<sigma> (\<sigma>\<lparr>eg_starter := Creating ep eps\<rparr>)"
| create: "eg_starter \<sigma> = Creating ep eps \<Longrightarrow>
    egress_step \<sigma> (\<sigma>\<lparr>eg_starter := Testing eps, eg_tunnels := eg_tunnels \<sigma> @ [Opening]\<rparr>)"
| create_failed: "eg_starter \<sigma> = Creating ep eps \<Longrightarrow>
    egress_step \<sigma> (\<sigma>\<lparr>eg_starter := Joining (Some StartTunnelsFailed), eg_tunnels_cancelled := True\<rparr>)"
| all_started: "eg_starter \<sigma> = Testing [] \<Longrightarrow> egress_step \<sigma> (\<sigma>\<lparr>eg_starter := Joining None\<rparr>)"
| joined: "eg_starter \<sigma> = Joining e \<Longrightarrow> set (eg_tunnels \<sigma>) \<subseteq> {TunnelEnded} \<Longrightarrow>
    egress_step \<sigma> (cancel_session \<sigma>\<lparr>eg_starter := StarterDone, eg_tunnels_cancelled := True,
      eg_err := (case e of None \<Rightarrow> eg_err \<sigma> | Some x \<Rightarrow> Some x)\<rparr>)"
| opened: "i < length (eg_tunnels \<sigma>) \<Longrightarrow> eg_tunnels \<sigma> ! i = Opening \<Longrightarrow> egress_step \<sigma> (set_tunnel i Accepting \<sigma>)"
| open_failed: "i < length (eg_tunnels \<sigma>) \<Longrightarrow> eg_tunnels \<sigma> ! i = Opening \<Longrightarrow> egress_step \<sigma> (set_tunnel i TunnelEnded \<sigma>)"
| watched: "i < length (eg_tunnels \<sigma>) \<Longrightarrow> eg_tunnels \<sigma> ! i = Accepting \<Longrightarrow> tunnels_done \<sigma> \<Longrightarrow>
    egress_step \<sigma> (set_tunnel i Unlistened \<sigma>)"
| accept_ends: "i < length (eg_tunnels \<sigma>) \<Longrightarrow> eg_tunnels \<sigma> ! i = Unlistened \<Longrightarrow>
    egress_step \<sigma> (set_tunnel i TunnelEnded \<sigma>)"

text \<open>
  The steps of its surroundings: the signalling times out, the candidates are exchanged, a parent
  cancels, the peer connection fails, disconnects or is closed, a session of a tunnel breaks, and a
  connection comes in at a listener, which gets a stream and a \<open>relay\<close> of its own. An \<open>Accept\<close> or an
  \<open>OpenStream\<close> that fails only makes the tunnel accept again.
\<close>

inductive egress_event :: "egress \<Rightarrow> egress \<Rightarrow> bool" where
  timeout: "egress_event \<sigma> (\<sigma>\<lparr>eg_sctx := cancel_ctx (eg_sctx \<sigma>) DeadlineExceeded\<rparr>)"
| ice_done: "egress_event \<sigma> (\<sigma>\<lparr>eg_ice_done := True\<rparr>)"
| parent: "egress_event \<sigma> (cancel_session \<sigma>)"
| peer_failed: "egress_event \<sigma> (\<sigma>\<lparr>eg_err := Some PeerFailed, eg_peer_closed := True\<rparr>)"
| peer_disconnected: "egress_event \<sigma> (\<sigma>\<lparr>eg_peer_closed := True\<rparr>)"
| peer_closed: "eg_peer_closed \<sigma> \<Longrightarrow> egress_event \<sigma> (cancel_session \<sigma>)"
| session_broken: "i < length (eg_tunnels \<sigma>) \<Longrightarrow> eg_tunnels \<sigma> ! i = Accepting \<Longrightarrow>
    egress_event \<sigma> (set_tunnel i Unlistened \<sigma>)"
| connection: "i < length (eg_tunnels \<sigma>) \<Longrightarrow> eg_tunnels \<sigma> ! i \<in> {Accepting, Unlistened} \<Longrightarrow>
    egress_event \<sigma> (\<sigma>\<lparr>eg_relays := eg_relays \<sigma> + 1\<rparr>)"

inductive egress_reach :: "endpoint list \<Rightarrow> egress \<Rightarrow> bool" for eps where
  start: "egress_reach eps (egress_started eps)"
| step: "egress_reach eps \<sigma> \<Longrightarrow> egress_step \<sigma> \<sigma>' \<Longrightarrow> egress_reach eps \<sigma>'"
| event: "egress_reach eps \<sigma> \<Longrightarrow> egress_event \<sigma> \<sigma>' \<Longrightarrow> egress_reach eps \<sigma>'"

end
