(* ===== verification/SessionRuns.thy ===== *)
theory SessionRuns
  imports Sessions
begin

text \<open>
  Properties of the sessions: how an egress session ends, and what the timeout of the signalling does
  to it.
\<close>

section \<open>Every session is finite\<close>

fun tunnel_rank :: "tunnel \<Rightarrow> nat" where
  "tunnel_rank Opening = 3"
| "tunnel_rank Accepting = 2"
| "tunnel_rank Unlistened = 1"
| "tunnel_rank TunnelEnded = 0"

fun starter_rank :: "starter \<Rightarrow> nat" where
  "starter_rank (Testing eps) = 5 * length eps + 2"
| "starter_rank (Creating ep eps) = 5 * length eps + 6"
| "starter_rank (Joining e) = 1"
| "starter_rank StarterDone = 0"

fun main_rank :: "main_pc \<Rightarrow> nat" where
  "main_rank AwaitICE = 2"
| "main_rank AwaitCtx = 1"
| "main_rank Returned = 0"

definition egress_left :: "egress \<Rightarrow> nat" where
  "egress_left \<sigma> = sum_list (map tunnel_rank (eg_tunnels \<sigma>)) + starter_rank (eg_starter \<sigma>) + main_rank (eg_main \<sigma>)"

lemma set_tunnel_left:
  "i < length (eg_tunnels \<sigma>) \<Longrightarrow> tunnel_rank t < tunnel_rank (eg_tunnels \<sigma> ! i) \<Longrightarrow>
     egress_left (set_tunnel i t \<sigma>) < egress_left \<sigma>"
  using sum_list_update_less [of i "eg_tunnels \<sigma>" tunnel_rank t] by (simp add: egress_left_def set_tunnel_def)

lemma egress_step_left: "egress_step \<sigma> \<sigma>' \<Longrightarrow> egress_left \<sigma>' < egress_left \<sigma>"
  by (induction rule: egress_step.induct)
    (auto intro!: set_tunnel_left, auto simp: egress_left_def cancel_session_def)

lemma egress_steps_left: "(egress_step ^^ n) \<sigma> \<sigma>' \<Longrightarrow> n + egress_left \<sigma>' \<le> egress_left \<sigma>"
  by (induction n arbitrary: \<sigma>') (fastforce dest: egress_step_left)+

lemma egress_event_left: "egress_event \<sigma> \<sigma>' \<Longrightarrow> egress_left \<sigma>' \<le> egress_left \<sigma>"
proof (induction rule: egress_event.induct)
  case (session_broken i \<sigma>)
  then show ?case by (intro less_imp_le set_tunnel_left) simp_all
qed (simp_all add: egress_left_def cancel_session_def)

lemma egress_reach_left: "egress_reach eps \<sigma> \<Longrightarrow> egress_left \<sigma> \<le> 5 * length eps + 4"
proof (induction rule: egress_reach.induct)
  case start
  show ?case by (simp add: egress_left_def egress_started_def)
next
  case (step \<sigma> \<sigma>')
  with egress_step_left show ?case by fastforce
next
  case (event \<sigma> \<sigma>')
  with egress_event_left show ?case by fastforce
qed

section \<open>Invariants\<close>

text \<open>
  The tunnels' context ends with that of the signalling, which ends with that of the session; the
  starter ends by cancelling the session; what has returned has closed the peer connection.
\<close>

definition egress_ok :: "egress \<Rightarrow> bool" where
  "egress_ok \<sigma> \<longleftrightarrow>
     (eg_ctx \<sigma> \<noteq> None \<longrightarrow> eg_sctx \<sigma> \<noteq> None)
   \<and> (eg_starter \<sigma> = StarterDone \<longrightarrow> eg_ctx \<sigma> \<noteq> None \<and> set (eg_tunnels \<sigma>) \<subseteq> {TunnelEnded})
   \<and> (eg_main \<sigma> = Returned \<longrightarrow> eg_peer_closed \<sigma> \<and> eg_ctx \<sigma> \<noteq> None)
   \<and> (eg_main \<sigma> \<noteq> AwaitICE \<longrightarrow> eg_signal_closed \<sigma>)"

lemma cancel_ctx_simps [simp]: "cancel_ctx c e \<noteq> None" "cancel_ctx c e = None \<longleftrightarrow> False"
  "cancel_ctx (Some e') e = Some e'"
  by (simp_all add: cancel_ctx_def split: option.splits)

lemma set_tunnel_simps [simp]:
  "eg_ctx (set_tunnel i t \<sigma>) = eg_ctx \<sigma>" "eg_sctx (set_tunnel i t \<sigma>) = eg_sctx \<sigma>"
  "eg_starter (set_tunnel i t \<sigma>) = eg_starter \<sigma>" "eg_main (set_tunnel i t \<sigma>) = eg_main \<sigma>"
  "eg_peer_closed (set_tunnel i t \<sigma>) = eg_peer_closed \<sigma>" "eg_signal_closed (set_tunnel i t \<sigma>) = eg_signal_closed \<sigma>"
  "eg_err (set_tunnel i t \<sigma>) = eg_err \<sigma>" "eg_tunnels (set_tunnel i t \<sigma>) = (eg_tunnels \<sigma>)[i := t]"
  by (simp_all add: set_tunnel_def)

lemma not_all_ended: "i < length ts \<Longrightarrow> ts ! i \<noteq> TunnelEnded \<Longrightarrow> \<not> set ts \<subseteq> {TunnelEnded}"
  using nth_mem by fastforce

lemma egress_step_ok: "egress_step \<sigma> \<sigma>' \<Longrightarrow> egress_ok \<sigma> \<Longrightarrow> egress_ok \<sigma>'"
  by (induction rule: egress_step.induct)
    (auto simp: egress_ok_def cancel_session_def dest: not_all_ended)

lemma egress_event_ok: "egress_event \<sigma> \<sigma>' \<Longrightarrow> egress_ok \<sigma> \<Longrightarrow> egress_ok \<sigma>'"
  by (induction rule: egress_event.induct)
    (auto simp: egress_ok_def cancel_session_def dest: not_all_ended)

lemma egress_reach_ok: "egress_reach eps \<sigma> \<Longrightarrow> egress_ok \<sigma>"
proof (induction rule: egress_reach.induct)
  case start
  show ?case by (simp add: egress_ok_def egress_started_def)
qed (auto intro: egress_step_ok egress_event_ok)

section \<open>The end of a session\<close>

lemma tunnels_stuck:
  assumes "\<nexists>\<sigma>'. egress_step \<sigma> \<sigma>'" and "tunnels_done \<sigma>"
  shows "set (eg_tunnels \<sigma>) \<subseteq> {TunnelEnded}"
proof
  fix t assume "t \<in> set (eg_tunnels \<sigma>)"
  then obtain i where i: "i < length (eg_tunnels \<sigma>)" "eg_tunnels \<sigma> ! i = t" by (auto simp: in_set_conv_nth)
  with assms egress_step.opened egress_step.watched egress_step.accept_ends show "t \<in> {TunnelEnded}"
    by (cases t) blast+
qed

lemma stuck_returned:
  assumes ok: "egress_ok \<sigma>" and stuck: "\<nexists>\<sigma>'. egress_step \<sigma> \<sigma>'" and "eg_sctx \<sigma> \<noteq> None"
  shows "eg_main \<sigma> = Returned \<and> eg_peer_closed \<sigma> \<and> set (eg_tunnels \<sigma>) \<subseteq> {TunnelEnded}"
proof -
  have d: "tunnels_done \<sigma>" using assms(3) by (simp add: tunnels_done_def)
  note t = tunnels_stuck [OF stuck d]
  have "eg_starter \<sigma> = StarterDone"
  proof (cases "eg_starter \<sigma>")
    case (Testing eps)
    with stuck d egress_step.test_stop egress_step.all_started show ?thesis by (cases eps) blast+
  next
    case (Creating ep eps)
    with stuck egress_step.create show ?thesis by blast
  next
    case (Joining e)
    with stuck t egress_step.joined show ?thesis by blast
  qed
  with ok have c: "eg_ctx \<sigma> \<noteq> None" by (simp add: egress_ok_def)
  have "eg_main \<sigma> = Returned"
  proof (cases "eg_main \<sigma>")
    case AwaitICE
    with stuck assms(3) egress_step.ice_received show ?thesis by blast
  next
    case AwaitCtx
    with stuck c egress_step.return show ?thesis by blast
  qed
  with ok t show ?thesis by (simp add: egress_ok_def)
qed

lemma steps_to_end: "\<exists>\<sigma>'. egress_step\<^sup>*\<^sup>* \<sigma> \<sigma>' \<and> (\<nexists>\<sigma>''. egress_step \<sigma>' \<sigma>'')"
proof (induction "egress_left \<sigma>" arbitrary: \<sigma> rule: less_induct)
  case less
  show ?case
  proof (cases "\<exists>\<sigma>1. egress_step \<sigma> \<sigma>1")
    case True
    then obtain \<sigma>1 where s: "egress_step \<sigma> \<sigma>1" by blast
    from less [OF egress_step_left [OF s]] s show ?thesis by (meson converse_rtranclp_into_rtranclp)
  qed blast
qed

lemma steps_keep:
  "egress_step\<^sup>*\<^sup>* \<sigma> \<sigma>' \<Longrightarrow> egress_ok \<sigma> \<Longrightarrow> eg_sctx \<sigma> \<noteq> None \<Longrightarrow> egress_ok \<sigma>' \<and> eg_sctx \<sigma>' \<noteq> None"
proof (induction rule: rtranclp_induct)
  case (step y z)
  from step(2) have "eg_sctx y \<noteq> None \<Longrightarrow> eg_sctx z \<noteq> None"
    by (cases rule: egress_step.cases) (auto simp: cancel_session_def)
  with step egress_step_ok show ?case by blast
qed simp

section \<open>A healthy session\<close>

text \<open>All tunnels accept connections, the candidates are exchanged, nothing has failed.\<close>

definition healthy :: "nat \<Rightarrow> egress \<Rightarrow> bool" where
  "healthy n \<sigma> \<longleftrightarrow>
     eg_ctx \<sigma> = None \<and> eg_sctx \<sigma> = None \<and> \<not> eg_tunnels_cancelled \<sigma> \<and> eg_starter \<sigma> = Joining None
   \<and> eg_tunnels \<sigma> = replicate n Accepting \<and> eg_main \<sigma> = AwaitCtx \<and> eg_err \<sigma> = None \<and> \<not> eg_peer_closed \<sigma>"

definition running_session :: "nat \<Rightarrow> egress" where
  "running_session n =
     \<lparr>eg_ctx = None, eg_sctx = None, eg_tunnels_cancelled = False, eg_starter = Joining None,
      eg_tunnels = replicate n Accepting, eg_relays = 0, eg_ice_done = True, eg_main = AwaitCtx, eg_signal_closed = True,
      eg_peer_closed = False, eg_err = None\<rparr>"

lemma one_opened:
  assumes "egress_reach eps (egress_started eps'\<lparr>eg_tunnels := replicate n Accepting, eg_starter := Testing (ep # eps0)\<rparr>)"
  shows "egress_reach eps (egress_started eps'\<lparr>eg_tunnels := replicate (Suc n) Accepting, eg_starter := Testing eps0\<rparr>)"
proof -
  let ?s = "\<lambda>ts st. egress_started eps'\<lparr>eg_tunnels := ts, eg_starter := st\<rparr>"
  let ?A = "replicate n Accepting"
  have "egress_step (?s ?A (Testing (ep # eps0))) (?s ?A (Creating ep eps0))"
    using egress_step.test_go [of "?s ?A (Testing (ep # eps0))" ep eps0]
    by (simp add: tunnels_done_def egress_started_def)
  note 1 = egress_reach.step [OF assms this]
  have "egress_step (?s ?A (Creating ep eps0)) (?s (?A @ [Opening]) (Testing eps0))"
    using egress_step.create [of "?s ?A (Creating ep eps0)" ep eps0] by (simp add: egress_started_def)
  note 2 = egress_reach.step [OF 1 this]
  have "egress_step (?s (?A @ [Opening]) (Testing eps0)) (?s (?A @ [Accepting]) (Testing eps0))"
    using egress_step.opened [of n "?s (?A @ [Opening]) (Testing eps0)"]
    by (simp add: egress_started_def set_tunnel_def nth_append list_update_append)
  from egress_reach.step [OF 2 this] show ?thesis by (simp add: replicate_append_same)
qed

lemma running_reachable: "egress_reach eps (running_session (length eps))"
proof -
  have all: "egress_reach eps (egress_started eps\<lparr>eg_tunnels := replicate (length xs) Accepting, eg_starter := Testing ys\<rparr>)"
    if "eps = xs @ ys" for xs ys
    using that
  proof (induction xs arbitrary: ys rule: rev_induct)
    case Nil
    have "egress_started eps = egress_started eps\<lparr>eg_tunnels := [], eg_starter := Testing eps\<rparr>"
      by (simp add: egress_started_def)
    with Nil egress_reach.start [of eps] show ?case by simp
  next
    case (snoc x xs)
    then show ?case using one_opened by fastforce
  qed
  let ?s = "\<lambda>st d m c. egress_started eps\<lparr>eg_tunnels := replicate (length eps) Accepting, eg_starter := st,
      eg_ice_done := d, eg_main := m, eg_signal_closed := c\<rparr>"
  have 0: "egress_reach eps (?s (Testing []) False AwaitICE False)"
    using all [of eps "[]"] by (simp add: egress_started_def)
  have 1: "egress_reach eps (?s (Joining None) False AwaitICE False)"
    using egress_reach.step [OF 0 egress_step.all_started] by (simp add: egress_started_def)
  have 2: "egress_reach eps (?s (Joining None) True AwaitICE False)"
    using egress_reach.event [OF 1 egress_event.ice_done] by (simp add: egress_started_def)
  have "egress_reach eps (?s (Joining None) True AwaitCtx True)"
    using egress_reach.step [OF 2 egress_step.ice_received] by (simp add: egress_started_def)
  then show ?thesis by (simp add: egress_started_def running_session_def)
qed

lemma healthy_idle:
  assumes "healthy (Suc n) \<sigma>"
  shows "\<nexists>\<sigma>'. egress_step \<sigma> \<sigma>'"
proof
  assume "\<exists>\<sigma>'. egress_step \<sigma> \<sigma>'"
  then obtain \<sigma>' where "egress_step \<sigma> \<sigma>'" ..
  then show False
    by (cases rule: egress_step.cases) (use assms in \<open>auto simp: healthy_def tunnels_done_def simp del: replicate_Suc\<close>)
qed

text \<open>The result stays nil from there on, as long as only the program moves.\<close>

lemma no_error_step:
  "egress_step \<sigma> \<sigma>' \<Longrightarrow> eg_err \<sigma> = None \<and> eg_starter \<sigma> \<in> {Joining None, StarterDone} \<Longrightarrow>
     eg_err \<sigma>' = None \<and> eg_starter \<sigma>' \<in> {Joining None, StarterDone}"
  by (induction rule: egress_step.induct) (auto simp: cancel_session_def)

lemma no_error_steps:
  "egress_step\<^sup>*\<^sup>* \<sigma> \<sigma>' \<Longrightarrow> eg_err \<sigma> = None \<and> eg_starter \<sigma> \<in> {Joining None, StarterDone} \<Longrightarrow>
     eg_err \<sigma>' = None \<and> eg_starter \<sigma>' \<in> {Joining None, StarterDone}"
  by (induction rule: rtranclp_induct) (use no_error_step in blast)+

section \<open>Properties\<close>

text \<open>C15. A session shuts down completely. From the moment the context of the signalling is done, for
  whatever reason and in whatever state, the program's own steps are bounded in number by the
  endpoints, and where none is left \<open>Start\<close> has returned with the peer connection closed, the
  signalling closed and every tunnel ended.\<close>

theorem egress_shuts_down:
  assumes "egress_reach eps \<sigma>" and "eg_sctx \<sigma> \<noteq> None" and "(egress_step ^^ n) \<sigma> \<sigma>'"
  shows "n \<le> 5 * length eps + 4
    \<and> ((\<nexists>\<sigma>''. egress_step \<sigma>' \<sigma>'') \<longrightarrow>
        eg_main \<sigma>' = Returned \<and> eg_peer_closed \<sigma>' \<and> eg_signal_closed \<sigma>' \<and> set (eg_tunnels \<sigma>') \<subseteq> {TunnelEnded})"
proof -
  have "n \<le> egress_left \<sigma>" using egress_steps_left [OF assms(3)] by linarith
  then have bound: "n \<le> 5 * length eps + 4" using egress_reach_left [OF assms(1)] by linarith
  have k: "egress_ok \<sigma>'" "eg_sctx \<sigma>' \<noteq> None"
    using steps_keep [OF relpowp_imp_rtranclp [OF assms(3)] egress_reach_ok [OF assms(1)] assms(2)] by simp_all
  have "eg_signal_closed \<sigma>'" if "eg_main \<sigma>' = Returned"
    using k(1) that by (simp add: egress_ok_def)
  with bound stuck_returned [OF k(1) _ k(2)] show ?thesis by blast
qed

theorem egress_shuts_down_witness:
  "\<exists>n \<sigma>. (egress_step ^^ n) ((running_session 1)\<lparr>eg_sctx := Some DeadlineExceeded\<rparr>) \<sigma> \<and> n \<le> 9 \<and> eg_main \<sigma> = Returned"
proof -
  let ?ep = "\<lparr>ep_local = ''a:1'', ep_remote = ''b:2''\<rparr>"
  let ?\<sigma> = "(running_session 1)\<lparr>eg_sctx := Some DeadlineExceeded\<rparr>"
  have r: "egress_reach [?ep] ?\<sigma>"
    using egress_reach.event [OF running_reachable [of "[?ep]"] egress_event.timeout]
    by (simp add: running_session_def cancel_ctx_def)
  obtain \<sigma>' where s: "egress_step\<^sup>*\<^sup>* ?\<sigma> \<sigma>'" "\<nexists>\<sigma>''. egress_step \<sigma>' \<sigma>''" using steps_to_end by blast
  then obtain n where n: "(egress_step ^^ n) ?\<sigma> \<sigma>'" by (meson rtranclp_imp_relpowp)
  from egress_shuts_down [OF r _ n] s(2) n show ?thesis by (intro exI [of _ n] exI [of _ \<sigma>']) simp
qed

text \<open>C27. The timeout of the signalling ends a healthy session. With every tunnel accepting connections
  and nothing failed the program is at rest; when the timeout fires, although the signalling is
  long over, it can go to an end, and every end is that all tunnels are torn down, the peer
  connection is closed and \<open>Start\<close> returns, with no error. Such sessions are reached with any endpoints.\<close>

theorem signal_timeout_ends_session:
  assumes "egress_reach eps \<sigma>" and "healthy (Suc n) \<sigma>"
    and "\<tau> = \<sigma>\<lparr>eg_sctx := cancel_ctx (eg_sctx \<sigma>) DeadlineExceeded\<rparr>"
  shows "(\<nexists>\<sigma>'. egress_step \<sigma> \<sigma>') \<and> egress_event \<sigma> \<tau>
    \<and> (\<exists>\<sigma>'. egress_step\<^sup>*\<^sup>* \<tau> \<sigma>' \<and> (\<nexists>\<sigma>''. egress_step \<sigma>' \<sigma>''))
    \<and> (\<forall>\<sigma>'. egress_step\<^sup>*\<^sup>* \<tau> \<sigma>' \<longrightarrow> (\<nexists>\<sigma>''. egress_step \<sigma>' \<sigma>'') \<longrightarrow>
        eg_main \<sigma>' = Returned \<and> eg_peer_closed \<sigma>' \<and> set (eg_tunnels \<sigma>') \<subseteq> {TunnelEnded} \<and> eg_err \<sigma>' = None)"
proof -
  have e: "egress_event \<sigma> \<tau>" unfolding assms(3) by (rule egress_event.timeout)
  have ok: "egress_ok \<tau>" by (rule egress_event_ok [OF e egress_reach_ok [OF assms(1)]])
  have s: "eg_sctx \<tau> \<noteq> None" "eg_err \<tau> = None \<and> eg_starter \<tau> \<in> {Joining None, StarterDone}"
    using assms(2) by (simp_all add: assms(3) healthy_def)
  have "eg_main \<sigma>' = Returned \<and> eg_peer_closed \<sigma>' \<and> set (eg_tunnels \<sigma>') \<subseteq> {TunnelEnded} \<and> eg_err \<sigma>' = None"
    if "egress_step\<^sup>*\<^sup>* \<tau> \<sigma>'" "\<nexists>\<sigma>''. egress_step \<sigma>' \<sigma>''" for \<sigma>'
    using stuck_returned [OF _ that(2)] steps_keep [OF that(1) ok s(1)] no_error_steps [OF that(1) s(2)] by blast
  with e healthy_idle [OF assms(2)] steps_to_end [of \<tau>] show ?thesis by blast
qed

theorem signal_timeout_ends_session_witness:
  "\<exists>\<sigma> \<sigma>'. egress_reach [\<lparr>ep_local = ''a:1'', ep_remote = ''b:2''\<rparr>] \<sigma> \<and> healthy 1 \<sigma> \<and> (\<nexists>\<sigma>''. egress_step \<sigma> \<sigma>'')
     \<and> egress_step\<^sup>*\<^sup>* (\<sigma>\<lparr>eg_sctx := Some DeadlineExceeded\<rparr>) \<sigma>' \<and> eg_main \<sigma>' = Returned \<and> eg_err \<sigma>' = None"
proof -
  let ?ep = "\<lparr>ep_local = ''a:1'', ep_remote = ''b:2''\<rparr>"
  let ?\<sigma> = "running_session (length [?ep])"
  have h: "healthy (Suc 0) ?\<sigma>" by (simp add: healthy_def running_session_def)
  have t: "?\<sigma>\<lparr>eg_sctx := Some DeadlineExceeded\<rparr> = ?\<sigma>\<lparr>eg_sctx := cancel_ctx (eg_sctx ?\<sigma>) DeadlineExceeded\<rparr>"
    by (simp add: running_session_def cancel_ctx_def)
  note r = running_reachable [of "[?ep]"]
  note e = signal_timeout_ends_session [OF r h t]
  obtain \<sigma>' where s: "egress_step\<^sup>*\<^sup>* (?\<sigma>\<lparr>eg_sctx := Some DeadlineExceeded\<rparr>) \<sigma>'" "\<nexists>\<sigma>''. egress_step \<sigma>' \<sigma>''"
    using e by blast
  have "eg_main \<sigma>' = Returned" "eg_err \<sigma>' = None" using e s by blast+
  moreover have "healthy 1 ?\<sigma>" using h by simp
  moreover have "\<nexists>\<sigma>''. egress_step ?\<sigma> \<sigma>''" using e by blast
  ultimately show ?thesis using r s(1) by blast
qed

end
