(* ===== verification/Ingress.thy ===== *)
theory Ingress
  imports Endpoint
begin

text \<open>
  \<open>proxy-ingress.go\<close>, from a new data channel to the connection it asks for: the admission of the
  channel by its label in \<open>createTunnelsListener\<close>, and the address that \<open>createTunnel\<close> dials.
  WebRTC and smux are outside: a channel is its label, a context is whether it has ended.
\<close>

section \<open>Admission\<close>

text \<open>
  What the handler does with a channel: leave it alone, close it, or start a tunnel for it. The
  authorizer is \<open>None\<close> when the field is nil.
\<close>

datatype dc_action = Ignore | CloseChannel | StartTunnel bytes

definition on_data_channel :: "bool \<Rightarrow> authorizer option \<Rightarrow> bytes \<Rightarrow> dc_action" where
  "on_data_channel ctx_done epAuth dc_label =
     (if ctx_done then Ignore
      else if dc_label = [] then Ignore
      else
        case epAuth of
          None \<Rightarrow> StartTunnel dc_label
        | Some auth \<Rightarrow>
            (case EndpointFromString dc_label of
               Ok ep \<Rightarrow>
                 (case auth ep of
                    Ok ok \<Rightarrow> if \<not> ok then CloseChannel else StartTunnel dc_label
                  | _ \<Rightarrow> CloseChannel)
             | _ \<Rightarrow> CloseChannel))"

section \<open>Dialling\<close>

text \<open>
  \<open>net.SplitHostPort\<close>, which \<open>net.Dial("tcp", address)\<close> applies to its address before anything
  else; when it fails, so does the dial.
\<close>

datatype addr_error =
    MissingPort | TooManyColons | MissingBracket | UnexpectedOpen | UnexpectedClose

definition host_part :: "bytes \<Rightarrow> nat \<Rightarrow> (addr_error, bytes \<times> nat \<times> nat) res" where
  "host_part hostport i =
     (if hostport ! 0 = CHR ''['' then
        (case index_byte hostport CHR '']'' of
           None \<Rightarrow> Err MissingBracket
         | Some e \<Rightarrow>
             if e + 1 = length hostport then Err MissingPort
             else if e + 1 = i then Ok (drop 1 (take e hostport), 1, e + 1)
             else if hostport ! (e + 1) = CHR '':'' then Err TooManyColons
             else Err MissingPort)
      else if CHR '':'' \<in> set (take i hostport) then Err TooManyColons
      else Ok (take i hostport, 0, 0))"

definition SplitHostPort :: "bytes \<Rightarrow> (addr_error, bytes \<times> bytes) res" where
  "SplitHostPort hostport =
     (case last_index_byte hostport CHR '':'' of
        None \<Rightarrow> Err MissingPort
      | Some i \<Rightarrow>
          rbind (host_part hostport i)
            (\<lambda>(host, j, k).
               if CHR ''['' \<in> set (drop j hostport) then Err UnexpectedOpen
               else if CHR '']'' \<in> set (drop k hostport) then Err UnexpectedClose
               else Ok (host, drop (i + 1) hostport)))"

text \<open>
  One pass of the loop in \<open>createTunnel\<close>, for a stream that was accepted: the address is the
  label of the channel. \<open>connect\<close> is the network's answer for a host and a port.
\<close>

datatype stream_action = DialFailed | Relay "bytes \<times> bytes"

definition tunnel_stream :: "(bytes \<times> bytes \<Rightarrow> bool) \<Rightarrow> bytes \<Rightarrow> stream_action" where
  "tunnel_stream connect dc_label =
     (case SplitHostPort dc_label of
        Ok hp \<Rightarrow> if connect hp then Relay hp else DialFailed
      | _ \<Rightarrow> DialFailed)"

section \<open>Lemmas\<close>

lemma on_data_channel_StartTunnel:
  "on_data_channel d (Some auth) l = StartTunnel l' \<longleftrightarrow>
     \<not> d \<and> l \<noteq> [] \<and> l' = l \<and> (\<exists>ep. EndpointFromString l = Ok ep \<and> auth ep = Ok True)"
  by (auto simp: on_data_channel_def split: res.splits)

lemma last_colon_split:
  assumes "2 \<le> count_list s b" and "last_index_byte s b = Some i"
  shows "b \<in> set (take i s)"
proof -
  have "b \<in> set s" using assms(1) by (metis count_list_0_iff not_numeral_le_zero)
  then obtain x y where s: "s = x @ b # y" "b \<notin> set y"
    using split_list_last by fastforce
  have "count_list y b = 0" using s(2) by (simp add: count_list_0_iff)
  with assms(1) s(1) have "count_list x b \<noteq> 0" by simp
  then have "b \<in> set x" by (simp add: count_list_0_iff)
  moreover have "i = length x" using last_index_byte_append [OF s(2), of x] s(1) assms(2) by simp
  ultimately show ?thesis using s(1) by simp
qed

lemma SplitHostPort_colons:
  assumes "2 \<le> count_list s CHR '':''" and "s ! 0 \<noteq> CHR ''[''"
  shows "SplitHostPort s = Err TooManyColons"
proof -
  have "CHR '':'' \<in> set s" using assms(1) by (metis count_list_0_iff not_numeral_le_zero)
  then obtain i where i: "last_index_byte s CHR '':'' = Some i"
    using last_index_byte_None [of s] by auto
  with last_colon_split [OF assms(1) i] assms(2) show ?thesis
    by (simp add: SplitHostPort_def host_part_def)
qed

lemma endpoint_label_colons:
  "EndpointFromString s = Ok ep \<Longrightarrow> count_list s CHR '':'' = 3"
  using EndpointFromString_Err [of s "InvalidEndpoint s"] by auto

lemma SplitHostPort_plain:
  assumes "CHR '':'' \<notin> set h \<union> set p" and "CHR ''['' \<notin> set h \<union> set p" and "CHR '']'' \<notin> set h \<union> set p"
  shows "SplitHostPort (h @ CHR '':'' # p) = Ok (h, p)"
proof -
  have "last_index_byte (h @ CHR '':'' # p) CHR '':'' = Some (length h)"
    using assms(1) by (intro last_index_byte_append) simp
  moreover have "(h @ CHR '':'' # p) ! 0 \<noteq> CHR ''[''"
    using assms(2) by (cases h) auto
  ultimately show ?thesis
    using assms by (simp add: SplitHostPort_def host_part_def)
qed

lemma admitted_not_dialled:
  assumes "on_data_channel ctx_done (Some auth) l = StartTunnel l'" and "hd l \<noteq> CHR ''[''"
  shows "tunnel_stream connect l' = DialFailed \<and> SplitHostPort l' = Err TooManyColons"
proof -
  obtain ep where l: "l \<noteq> []" "l' = l" "EndpointFromString l = Ok ep"
    using assms(1) by (auto simp: on_data_channel_StartTunnel)
  have "SplitHostPort l = Err TooManyColons"
    using endpoint_label_colons [OF l(3)] assms(2) l(1)
    by (intro SplitHostPort_colons) (simp_all add: hd_conv_nth)
  with l(2) show ?thesis by (simp add: tunnel_stream_def)
qed

section \<open>Properties\<close>

text \<open>The ingress starts a tunnel for exactly the channels whose label is an endpoint with an
  allowed remote, while its context lives; every other labelled channel is closed.\<close>

lemma ingress_admits_iff:
  "on_data_channel ctx_done (Some (NewBasicEndpointAuthorizer allows)) l =
     (if ctx_done \<or> l = [] then Ignore
      else if \<exists>ep. EndpointFromString l = Ok ep \<and> (''*'' \<in> set allows \<or> ep_remote ep \<in> set allows)
      then StartTunnel l else CloseChannel)"
  by (auto simp: on_data_channel_def NewBasicEndpointAuthorizer_def authorizer_loop_eq
      split: res.split)

text \<open>Each forward of the egress, opened as a channel under its text form, is admitted by a live
  ingress exactly when its remote is allowed: the two ends agree on the label.\<close>

lemma forward_admitted_iff_allowed:
  assumes "parse_forwards [] forwards = Ok eps"
  shows "map (\<lambda>ep. on_data_channel False (Some (NewBasicEndpointAuthorizer allows)) (endpoint_String ep)) eps
       = map (\<lambda>ep. if ''*'' \<in> set allows \<or> ep_remote ep \<in> set allows
                   then StartTunnel (endpoint_String ep) else CloseChannel) eps
    \<and> map endpoint_String eps = forwards"
proof -
  have eps: "\<forall>ep\<in>set eps. endpoint_ok ep" "map endpoint_String eps = forwards"
    using assms by (auto simp: parse_forwards_Ok)
  have "endpoint_String ep \<noteq> []" for ep by (simp add: endpoint_String_def)
  with eps show ?thesis
    by (auto simp: on_data_channel_def EndpointFromString_String NewBasicEndpointAuthorizer_def
        authorizer_loop_eq)
qed

text \<open>Behind an authorizer no tunnel ever reaches a host, unless its label begins with a
  bracket: the ingress dials the whole label, which has three colons, and not the endpoint's
  remote. So whatever the network answers, the stream of an admitted channel is not relayed.\<close>

lemma admitted_tunnel_never_dials:
  assumes "on_data_channel ctx_done (Some auth) l = StartTunnel l'" and "hd l \<noteq> CHR ''[''"
  shows "tunnel_stream connect l' = DialFailed \<and> SplitHostPort l' = Err TooManyColons"
  by (rule admitted_not_dialled [OF assms])

end
