(* ===== verification/IngressSession.thy ===== *)
theory IngressSession
  imports Sessions Ingress
begin

text \<open>
  The session of \<open>proxy-ingress.go\<close> after the exchange of descriptions: the main goroutine of \<open>Start\<close>, the
  handler of new data channels and the tunnels of \<open>createTunnel\<close>.
\<close>

section \<open>State and steps\<close>

text \<open>
  A tunnel: opening its channel, at the test of the context, at \<open>AcceptStream\<close>, or returned; whether
  its smux session is broken, so that \<open>AcceptStream\<close> fails at once; and the number of relays it has
  started.
\<close>

datatype in_tunnel_pc = InOpening | InTesting | InAccepting | InEnded

record in_tunnel =
  it_label :: bytes
  it_pc :: in_tunnel_pc
  it_broken :: bool
  it_relays :: nat

record ingress =
  ig_ctx :: go_ctx
  ig_sctx :: go_ctx
  ig_tunnels :: "in_tunnel list"
  ig_ice_done :: bool
  ig_main :: main_pc
  ig_signal_closed :: bool
  ig_peer_closed :: bool
  ig_err :: "session_error option"

definition ingress_started :: ingress where
  "ingress_started =
     \<lparr>ig_ctx = None, ig_sctx = None, ig_tunnels = [], ig_ice_done = False, ig_main = AwaitICE,
      ig_signal_closed = False, ig_peer_closed = False, ig_err = None\<rparr>"

definition set_in_tunnel :: "nat \<Rightarrow> in_tunnel \<Rightarrow> ingress \<Rightarrow> ingress" where
  "set_in_tunnel i t \<sigma> = \<sigma>\<lparr>ig_tunnels := (ig_tunnels \<sigma>)[i := t]\<rparr>"

definition cancel_ingress :: "ingress \<Rightarrow> ingress" where
  "cancel_ingress \<sigma> =
     \<sigma>\<lparr>ig_ctx := cancel_ctx (ig_ctx \<sigma>) Canceled, ig_sctx := cancel_ctx (ig_sctx \<sigma>) Canceled\<rparr>"

text \<open>
  The handler of a new channel, which runs in the goroutine it starts for an admitted one; its
  context is that of the signalling.
\<close>

definition new_channel :: "authorizer option \<Rightarrow> bytes \<Rightarrow> ingress \<Rightarrow> ingress" where
  "new_channel epAuth l \<sigma> =
     (case on_data_channel (ig_sctx \<sigma> \<noteq> None) epAuth l of
        StartTunnel l' \<Rightarrow>
          \<sigma>\<lparr>ig_tunnels := ig_tunnels \<sigma> @ [\<lparr>it_label = l', it_pc = InOpening, it_broken = False, it_relays = 0\<rparr>]\<rparr>
      | _ \<Rightarrow> \<sigma>)"

text \<open>A stream that was accepted: dial, and relay when that succeeds.\<close>

definition accept_stream :: "(bytes \<times> bytes \<Rightarrow> bool) \<Rightarrow> in_tunnel \<Rightarrow> in_tunnel" where
  "accept_stream connect t =
     (case tunnel_stream connect (it_label t) of
        DialFailed \<Rightarrow> t\<lparr>it_pc := InTesting\<rparr>
      | Relay hp \<Rightarrow> t\<lparr>it_pc := InTesting, it_relays := it_relays t + 1\<rparr>)"

inductive ingress_step :: "ingress \<Rightarrow> ingress \<Rightarrow> bool" where
  ice_received: "ig_main \<sigma> = AwaitICE \<Longrightarrow> ig_ice_done \<sigma> \<or> ig_sctx \<sigma> \<noteq> None \<Longrightarrow>
    ingress_step \<sigma> (\<sigma>\<lparr>ig_signal_closed := True, ig_main := AwaitCtx\<rparr>)"
| return: "ig_main \<sigma> = AwaitCtx \<Longrightarrow> ig_ctx \<sigma> \<noteq> None \<Longrightarrow>
    ingress_step \<sigma> (\<sigma>\<lparr>ig_peer_closed := True, ig_sctx := cancel_ctx (ig_sctx \<sigma>) Canceled, ig_main := Returned\<rparr>)"
| opened: "i < length (ig_tunnels \<sigma>) \<Longrightarrow> t = ig_tunnels \<sigma> ! i \<Longrightarrow> it_pc t = InOpening \<Longrightarrow>
    ingress_step \<sigma> (set_in_tunnel i (t\<lparr>it_pc := InTesting\<rparr>) \<sigma>)"
| open_failed: "i < length (ig_tunnels \<sigma>) \<Longrightarrow> t = ig_tunnels \<sigma> ! i \<Longrightarrow> it_pc t = InOpening \<Longrightarrow>
    ingress_step \<sigma> (set_in_tunnel i (t\<lparr>it_pc := InEnded\<rparr>) \<sigma>)"
| test_stop: "i < length (ig_tunnels \<sigma>) \<Longrightarrow> t = ig_tunnels \<sigma> ! i \<Longrightarrow> it_pc t = InTesting \<Longrightarrow> ig_sctx \<sigma> \<noteq> None \<Longrightarrow>
    ingress_step \<sigma> (set_in_tunnel i (t\<lparr>it_pc := InEnded\<rparr>) \<sigma>)"
| test_go: "i < length (ig_tunnels \<sigma>) \<Longrightarrow> t = ig_tunnels \<sigma> ! i \<Longrightarrow> it_pc t = InTesting \<Longrightarrow> ig_sctx \<sigma> = None \<Longrightarrow>
    ingress_step \<sigma> (set_in_tunnel i (t\<lparr>it_pc := InAccepting\<rparr>) \<sigma>)"
| accept_failed: "i < length (ig_tunnels \<sigma>) \<Longrightarrow> t = ig_tunnels \<sigma> ! i \<Longrightarrow> it_pc t = InAccepting \<Longrightarrow> it_broken t \<Longrightarrow>
    ingress_step \<sigma> (set_in_tunnel i (t\<lparr>it_pc := InTesting\<rparr>) \<sigma>)"

inductive ingress_event :: "authorizer option \<Rightarrow> (bytes \<times> bytes \<Rightarrow> bool) \<Rightarrow> ingress \<Rightarrow> ingress \<Rightarrow> bool"
  for epAuth connect where
  channel: "ingress_event epAuth connect \<sigma> (new_channel epAuth l \<sigma>)"
| stream: "i < length (ig_tunnels \<sigma>) \<Longrightarrow> t = ig_tunnels \<sigma> ! i \<Longrightarrow> it_pc t = InAccepting \<Longrightarrow> \<not> it_broken t \<Longrightarrow>
    ingress_event epAuth connect \<sigma> (set_in_tunnel i (accept_stream connect t) \<sigma>)"
| broken: "i < length (ig_tunnels \<sigma>) \<Longrightarrow> t = ig_tunnels \<sigma> ! i \<Longrightarrow>
    ingress_event epAuth connect \<sigma> (set_in_tunnel i (t\<lparr>it_broken := True\<rparr>) \<sigma>)"
| timeout: "ingress_event epAuth connect \<sigma> (\<sigma>\<lparr>ig_sctx := cancel_ctx (ig_sctx \<sigma>) DeadlineExceeded\<rparr>)"
| ice_done: "ingress_event epAuth connect \<sigma> (\<sigma>\<lparr>ig_ice_done := True\<rparr>)"
| parent: "ingress_event epAuth connect \<sigma> (cancel_ingress \<sigma>)"
| peer_failed: "ingress_event epAuth connect \<sigma> (\<sigma>\<lparr>ig_err := Some PeerFailed, ig_peer_closed := True\<rparr>)"
| peer_disconnected: "ingress_event epAuth connect \<sigma> (\<sigma>\<lparr>ig_peer_closed := True\<rparr>)"
| peer_closed: "ig_peer_closed \<sigma> \<Longrightarrow> ingress_event epAuth connect \<sigma> (cancel_ingress \<sigma>)"

inductive ingress_reach :: "authorizer option \<Rightarrow> (bytes \<times> bytes \<Rightarrow> bool) \<Rightarrow> ingress \<Rightarrow> bool"
  for epAuth connect where
  start: "ingress_reach epAuth connect ingress_started"
| step: "ingress_reach epAuth connect \<sigma> \<Longrightarrow> ingress_step \<sigma> \<sigma>' \<Longrightarrow> ingress_reach epAuth connect \<sigma>'"
| event: "ingress_reach epAuth connect \<sigma> \<Longrightarrow> ingress_event epAuth connect \<sigma> \<sigma>' \<Longrightarrow> ingress_reach epAuth connect \<sigma>'"

section \<open>Invariants\<close>

text \<open>Every tunnel is for an admitted channel, and relays nothing unless its label begins with a bracket.\<close>

definition tunnel_admitted :: "authorizer \<Rightarrow> in_tunnel \<Rightarrow> bool" where
  "tunnel_admitted auth t \<longleftrightarrow>
     on_data_channel False (Some auth) (it_label t) = StartTunnel (it_label t)
     \<and> (hd (it_label t) \<noteq> CHR ''['' \<longrightarrow> it_relays t = 0)"

definition ingress_ok :: "authorizer \<Rightarrow> ingress \<Rightarrow> bool" where
  "ingress_ok auth \<sigma> \<longleftrightarrow> (\<forall>t\<in>set (ig_tunnels \<sigma>). tunnel_admitted auth t)"

lemma set_in_tunnel_ok:
  assumes "ingress_ok auth \<sigma>" and "i < length (ig_tunnels \<sigma>)"
    and "tunnel_admitted auth (ig_tunnels \<sigma> ! i) \<Longrightarrow> tunnel_admitted auth t"
  shows "ingress_ok auth (set_in_tunnel i t \<sigma>)"
  using assms set_update_subset_insert [of "ig_tunnels \<sigma>" i t]
  by (auto simp: ingress_ok_def set_in_tunnel_def)

lemma tunnel_admitted_update [simp]:
  "tunnel_admitted auth (t\<lparr>it_pc := p\<rparr>) = tunnel_admitted auth t"
  "tunnel_admitted auth (t\<lparr>it_broken := b\<rparr>) = tunnel_admitted auth t"
  by (simp_all add: tunnel_admitted_def)

lemma accept_stream_admitted: "tunnel_admitted auth t \<Longrightarrow> tunnel_admitted auth (accept_stream connect t)"
proof (cases "hd (it_label t) = CHR ''[''")
  case False
  assume t: "tunnel_admitted auth t"
  with admitted_not_dialled [of False auth "it_label t" "it_label t" connect] False
  have "tunnel_stream connect (it_label t) = DialFailed" by (simp add: tunnel_admitted_def)
  with t show ?thesis by (simp add: accept_stream_def)
qed (auto simp: tunnel_admitted_def accept_stream_def split: stream_action.splits)

lemma ingress_step_ok: "ingress_step \<sigma> \<sigma>' \<Longrightarrow> ingress_ok auth \<sigma> \<Longrightarrow> ingress_ok auth \<sigma>'"
  by (induction rule: ingress_step.induct)
    (auto intro!: set_in_tunnel_ok, auto simp: ingress_ok_def)

lemma new_channel_ok:
  assumes "ingress_ok auth \<sigma>"
  shows "ingress_ok auth (new_channel (Some auth) l \<sigma>)"
  using assms by (auto simp: ingress_ok_def new_channel_def tunnel_admitted_def on_data_channel_StartTunnel
      split: dc_action.split)

lemma ingress_event_ok: "ingress_event (Some auth) connect \<sigma> \<sigma>' \<Longrightarrow> ingress_ok auth \<sigma> \<Longrightarrow> ingress_ok auth \<sigma>'"
proof (induction rule: ingress_event.induct)
  case (channel \<sigma> l)
  then show ?case by (rule new_channel_ok)
next
  case (stream i \<sigma> t)
  then show ?case by (intro set_in_tunnel_ok accept_stream_admitted) simp_all
next
  case (broken i \<sigma> t)
  then show ?case by (intro set_in_tunnel_ok) simp_all
qed (simp_all add: ingress_ok_def cancel_ingress_def)

lemma ingress_reach_ok: "ingress_reach (Some auth) connect \<sigma> \<Longrightarrow> ingress_ok auth \<sigma>"
proof (induction rule: ingress_reach.induct)
  case start
  show ?case by (simp add: ingress_ok_def ingress_started_def)
qed (auto intro: ingress_step_ok ingress_event_ok)

text \<open>What the main goroutine has closed where it stands.\<close>

definition ingress_closed :: "ingress \<Rightarrow> bool" where
  "ingress_closed \<sigma> \<longleftrightarrow>
     (ig_main \<sigma> \<noteq> AwaitICE \<longrightarrow> ig_signal_closed \<sigma>) \<and> (ig_main \<sigma> = Returned \<longrightarrow> ig_peer_closed \<sigma>)"

lemma ingress_step_closed: "ingress_step \<sigma> \<sigma>' \<Longrightarrow> ingress_closed \<sigma> \<Longrightarrow> ingress_closed \<sigma>'"
  by (induction rule: ingress_step.induct) (auto simp: ingress_closed_def set_in_tunnel_def)

lemma ingress_event_closed: "ingress_event epAuth connect \<sigma> \<sigma>' \<Longrightarrow> ingress_closed \<sigma> \<Longrightarrow> ingress_closed \<sigma>'"
  by (induction rule: ingress_event.induct)
    (auto simp: ingress_closed_def set_in_tunnel_def cancel_ingress_def new_channel_def split: dc_action.split)

lemma ingress_reach_closed: "ingress_reach epAuth connect \<sigma> \<Longrightarrow> ingress_closed \<sigma>"
proof (induction rule: ingress_reach.induct)
  case start
  show ?case by (simp add: ingress_closed_def ingress_started_def)
qed (blast intro: ingress_step_closed ingress_event_closed)+

section \<open>Shutdown\<close>

text \<open>The steps left once both contexts are done: at most two for the main goroutine and for each tunnel.\<close>

fun tunnel_left :: "in_tunnel_pc \<Rightarrow> nat" where
  "tunnel_left InOpening = 2"
| "tunnel_left InTesting = 1"
| "tunnel_left InAccepting = 2"
| "tunnel_left InEnded = 0"

fun main_left :: "main_pc \<Rightarrow> nat" where
  "main_left AwaitICE = 2"
| "main_left AwaitCtx = 1"
| "main_left Returned = 0"

definition ingress_left :: "ingress \<Rightarrow> nat" where
  "ingress_left \<sigma> = main_left (ig_main \<sigma>) + sum_list (map (\<lambda>t. tunnel_left (it_pc t)) (ig_tunnels \<sigma>))"

lemma set_in_tunnel_left:
  "i < length (ig_tunnels \<sigma>) \<Longrightarrow> tunnel_left (it_pc t) < tunnel_left (it_pc (ig_tunnels \<sigma> ! i)) \<Longrightarrow>
     ingress_left (set_in_tunnel i t \<sigma>) < ingress_left \<sigma>"
  using sum_list_update_less [of i "ig_tunnels \<sigma>" "\<lambda>t. tunnel_left (it_pc t)" t]
  by (simp add: ingress_left_def set_in_tunnel_def)

lemma ingress_done_step:
  "ingress_step \<sigma> \<sigma>' \<Longrightarrow> ig_ctx \<sigma> \<noteq> None \<and> ig_sctx \<sigma> \<noteq> None \<Longrightarrow>
     ingress_left \<sigma>' < ingress_left \<sigma> \<and> ig_ctx \<sigma>' \<noteq> None \<and> ig_sctx \<sigma>' \<noteq> None"
proof (induction rule: ingress_step.induct)
  case (ice_received \<sigma>)
  then show ?case by (simp add: ingress_left_def)
next
  case (return \<sigma>)
  then show ?case by (auto simp: ingress_left_def cancel_ctx_def split: option.splits)
qed (auto simp: set_in_tunnel_left, auto simp: set_in_tunnel_def)

lemma ingress_done_steps:
  "(ingress_step ^^ n) \<sigma> \<sigma>' \<Longrightarrow> ig_ctx \<sigma> \<noteq> None \<and> ig_sctx \<sigma> \<noteq> None \<Longrightarrow>
     n + ingress_left \<sigma>' \<le> ingress_left \<sigma> \<and> ig_ctx \<sigma>' \<noteq> None \<and> ig_sctx \<sigma>' \<noteq> None"
proof (induction n arbitrary: \<sigma>')
  case (Suc n)
  then obtain \<rho> where "(ingress_step ^^ n) \<sigma> \<rho>" "ingress_step \<rho> \<sigma>'" by auto
  with Suc.IH [of \<rho>] Suc.prems(2) ingress_done_step [of \<rho> \<sigma>'] show ?case by simp
qed simp

lemma ingress_left_bound: "ingress_left \<sigma> \<le> 2 * length (ig_tunnels \<sigma>) + 2"
proof -
  have "sum_list (map (\<lambda>t. tunnel_left (it_pc t)) ts) \<le> 2 * length ts" for ts
  proof (induction ts)
    case (Cons t ts)
    then show ?case by (cases "it_pc t") simp_all
  qed simp
  moreover have "main_left (ig_main \<sigma>) \<le> 2" by (cases "ig_main \<sigma>") simp_all
  ultimately show ?thesis unfolding ingress_left_def by (metis add.commute add_le_mono)
qed

text \<open>Where nothing can step any more.\<close>

lemma ingress_done_stuck:
  assumes "ig_ctx \<sigma> \<noteq> None" and "ig_sctx \<sigma> \<noteq> None" and "\<nexists>\<sigma>'. ingress_step \<sigma> \<sigma>'"
  shows "ig_main \<sigma> = Returned
    \<and> (\<forall>t\<in>set (ig_tunnels \<sigma>). it_pc t = InEnded \<or> it_pc t = InAccepting \<and> \<not> it_broken t)"
proof -
  have "ig_main \<sigma> = Returned"
    using assms ingress_step.ice_received [of \<sigma>] ingress_step.return [of \<sigma>] by (cases "ig_main \<sigma>") auto
  moreover have "it_pc t = InEnded \<or> it_pc t = InAccepting \<and> \<not> it_broken t" if "t \<in> set (ig_tunnels \<sigma>)" for t
  proof -
    from that obtain i where i: "i < length (ig_tunnels \<sigma>)" "t = ig_tunnels \<sigma> ! i" by (auto simp: in_set_conv_nth)
    show ?thesis
      using assms(2,3) ingress_step.opened [OF i] ingress_step.test_stop [OF i] ingress_step.accept_failed [OF i]
      by (cases "it_pc t") auto
  qed
  ultimately show ?thesis by blast
qed

section \<open>Properties\<close>


text \<open>A tunnel of an admitted channel at the test of its context, its session broken.\<close>

definition broken_tunnel :: "bytes \<Rightarrow> ingress" where
  "broken_tunnel l =
     ingress_started\<lparr>ig_tunnels := [\<lparr>it_label = l, it_pc = InTesting, it_broken = True, it_relays = 0\<rparr>]\<rparr>"

lemma broken_reachable:
  assumes "on_data_channel False epAuth l = StartTunnel l"
  shows "ingress_reach epAuth connect (broken_tunnel l)"
proof -
  let ?s = "\<lambda>pc b. ingress_started\<lparr>ig_tunnels := [\<lparr>it_label = l, it_pc = pc, it_broken = b, it_relays = 0\<rparr>]\<rparr>"
  have 1: "ingress_reach epAuth connect (?s InOpening False)"
    using ingress_reach.event [OF ingress_reach.start ingress_event.channel, of epAuth connect l] assms
    by (simp add: new_channel_def ingress_started_def)
  have 2: "ingress_reach epAuth connect (?s InTesting False)"
    using ingress_reach.step [OF 1 ingress_step.opened [of 0]]
    by (simp add: set_in_tunnel_def ingress_started_def)
  show ?thesis
    using ingress_reach.event [OF 2 ingress_event.broken [of 0]]
    by (simp add: set_in_tunnel_def ingress_started_def broken_tunnel_def)
qed

text \<open>A tunnel whose session is broken spins: as long as the context lives, the loop of \<open>createTunnel\<close>
  goes through \<open>AcceptStream\<close>, its error and the test of the context back to where it was, for ever.\<close>

lemma broken_tunnel_spins:
  assumes "on_data_channel False epAuth l = StartTunnel l"
  shows "\<exists>\<sigma>. ingress_reach epAuth connect \<sigma> \<and> ig_ctx \<sigma> = None \<and> map it_label (ig_tunnels \<sigma>) = [l]
    \<and> (\<forall>n. (ingress_step ^^ (2 * n)) \<sigma> \<sigma>)"
proof -
  let ?t = "\<lambda>pc. \<lparr>it_label = l, it_pc = pc, it_broken = True, it_relays = 0\<rparr>"
  let ?s = "\<lambda>pc. ingress_started\<lparr>ig_tunnels := [?t pc]\<rparr>"
  have 1: "ingress_step (?s InTesting) (?s InAccepting)"
    using ingress_step.test_go [of 0 "?s InTesting"] by (simp add: set_in_tunnel_def ingress_started_def)
  have 2: "ingress_step (?s InAccepting) (?s InTesting)"
    using ingress_step.accept_failed [of 0 "?s InAccepting"] by (simp add: set_in_tunnel_def ingress_started_def)
  have "(ingress_step ^^ (2 * n)) (?s InTesting) (?s InTesting)" for n
  proof (induction n)
    case (Suc n)
    have "(ingress_step ^^ Suc (Suc (2 * n))) (?s InTesting) (?s InTesting)"
      using relpowp_Suc_I [OF relpowp_Suc_I [OF Suc 1] 2] .
    then show ?case by simp
  qed simp
  then show ?thesis
    using broken_reachable [OF assms]
    by (intro exI [of _ "broken_tunnel l"]) (simp add: broken_tunnel_def ingress_started_def)
qed

lemma demo_label:
  "on_data_channel False (Some (NewBasicEndpointAuthorizer [''*''])) ''127.0.0.1:80:10.0.0.1:81''
     = StartTunnel ''127.0.0.1:80:10.0.0.1:81''"
  by (simp add: on_data_channel_def EndpointFromString_def NewBasicEndpointAuthorizer_def noop_auth_def)


text \<open>C17. Once both its contexts are done an ingress session shuts down by itself: it makes at most two
  steps for its main goroutine and two for each tunnel, and when it can make no more \<open>Start\<close> has
  returned with the signalling and the peer connection closed. A tunnel has ended by then or, as
  \<open>Start\<close> does not wait for it, still sits in \<open>AcceptStream\<close> until its session breaks.\<close>

theorem ingress_shuts_down:
  assumes "ingress_reach epAuth connect \<sigma>" and "ig_ctx \<sigma> \<noteq> None" and "ig_sctx \<sigma> \<noteq> None"
    and "(ingress_step ^^ n) \<sigma> \<sigma>'"
  shows "n \<le> 2 * length (ig_tunnels \<sigma>) + 2
    \<and> ((\<nexists>\<sigma>''. ingress_step \<sigma>' \<sigma>'') \<longrightarrow>
         ig_main \<sigma>' = Returned \<and> ig_signal_closed \<sigma>' \<and> ig_peer_closed \<sigma>'
         \<and> (\<forall>t\<in>set (ig_tunnels \<sigma>'). it_pc t = InEnded \<or> it_pc t = InAccepting \<and> \<not> it_broken t))"
proof -
  have "ingress_reach epAuth connect \<sigma>'"
    using assms(4) by (induction n arbitrary: \<sigma>') (auto intro: assms(1) ingress_reach.step)
  then have "ingress_closed \<sigma>'" by (rule ingress_reach_closed)
  moreover have "n + ingress_left \<sigma>' \<le> ingress_left \<sigma>" "ig_ctx \<sigma>' \<noteq> None" "ig_sctx \<sigma>' \<noteq> None"
    using ingress_done_steps [OF assms(4)] assms(2,3) by simp_all
  ultimately show ?thesis
    using ingress_done_stuck [of \<sigma>'] ingress_left_bound [of \<sigma>] by (auto simp: ingress_closed_def)
qed

definition ended_session :: "bytes \<Rightarrow> ingress" where
  "ended_session l =
     ingress_started\<lparr>ig_ctx := Some Canceled, ig_sctx := Some Canceled,
       ig_tunnels := [\<lparr>it_label = l, it_pc = InEnded, it_broken = True, it_relays = 0\<rparr>],
       ig_main := Returned, ig_signal_closed := True, ig_peer_closed := True\<rparr>"

lemma ended_session_stuck: "\<not> ingress_step (ended_session l) \<sigma>'"
  by (auto simp: ended_session_def ingress_started_def elim: ingress_step.cases)

lemma broken_tunnel_ends: "(ingress_step ^^ 3) (cancel_ingress (broken_tunnel l)) (ended_session l)"
proof -
  let ?t = "\<lparr>it_label = l, it_pc = InTesting, it_broken = True, it_relays = 0\<rparr>"
  let ?s = "\<lambda>pc sg pr. \<lparr>ig_ctx = Some Canceled, ig_sctx = Some Canceled, ig_tunnels = [?t], ig_ice_done = False,
      ig_main = pc, ig_signal_closed = sg, ig_peer_closed = pr, ig_err = None\<rparr>"
  have 0: "cancel_ingress (broken_tunnel l) = ?s AwaitICE False False"
    by (simp add: cancel_ingress_def cancel_ctx_def broken_tunnel_def ingress_started_def)
  have 1: "ingress_step (?s AwaitICE False False) (?s AwaitCtx True False)"
    using ingress_step.ice_received [of "?s AwaitICE False False"] by simp
  have 2: "ingress_step (?s AwaitCtx True False) (?s Returned True True)"
    using ingress_step.return [of "?s AwaitCtx True False"] by (simp add: cancel_ctx_def)
  have 3: "ingress_step (?s Returned True True) (ended_session l)"
    using ingress_step.test_stop [of 0 "?s Returned True True"]
    by (simp add: set_in_tunnel_def ended_session_def ingress_started_def)
  from 1 2 3 show ?thesis unfolding 0 by (auto simp: numeral_3_eq_3)
qed

theorem ingress_shuts_down_witness:
  "ingress_reach (Some (NewBasicEndpointAuthorizer [''*''])) (\<lambda>_. True)
     (cancel_ingress (broken_tunnel ''127.0.0.1:80:10.0.0.1:81''))
   \<and> (ingress_step ^^ 3) (cancel_ingress (broken_tunnel ''127.0.0.1:80:10.0.0.1:81''))
       (ended_session ''127.0.0.1:80:10.0.0.1:81'')
   \<and> ig_signal_closed (ended_session ''127.0.0.1:80:10.0.0.1:81'')
   \<and> (3 :: nat) \<le> 2 * length (ig_tunnels (broken_tunnel ''127.0.0.1:80:10.0.0.1:81'')) + 2"
proof -
  let ?s = "broken_tunnel ''127.0.0.1:80:10.0.0.1:81''"
  have r: "ingress_reach (Some (NewBasicEndpointAuthorizer [''*''])) (\<lambda>_. True) (cancel_ingress ?s)"
    by (rule ingress_reach.event [OF broken_reachable [OF demo_label] ingress_event.parent])
  have c: "ig_ctx (cancel_ingress ?s) \<noteq> None" "ig_sctx (cancel_ingress ?s) \<noteq> None"
    by (simp_all add: cancel_ingress_def cancel_ctx_def broken_tunnel_def ingress_started_def)
  have l: "ig_tunnels (cancel_ingress ?s) = ig_tunnels ?s" by (simp add: cancel_ingress_def)
  from ingress_shuts_down [OF r c broken_tunnel_ends] r broken_tunnel_ends l show ?thesis
    by (auto simp: ended_session_stuck)
qed

end
