(* ===== verification/GoRawURL.thy ===== *)
theory GoRawURL
  imports GoBase64
begin

text \<open>
  \<open>base64.RawURLEncoding\<close>: the URL alphabet without padding, for the tokens of the signalling
  server. As in Go, newlines are skipped and the unused bits of the last character are not checked.
\<close>

definition url_char :: "nat \<Rightarrow> byte" where
  "url_char n = (if n = 62 then CHR ''-'' else if n = 63 then CHR ''_'' else b64_char n)"

definition url_val :: "byte \<Rightarrow> nat option" where
  "url_val c =
     (if c = CHR ''-'' then Some 62 else if c = CHR ''_'' then Some 63
      else if c = CHR ''+'' \<or> c = CHR ''/'' then None else b64_val c)"

fun url_encode :: "bytes \<Rightarrow> bytes" where
  "url_encode [] = []"
| "url_encode [x] = [url_char (byte_val x div 4), url_char (byte_val x mod 4 * 16)]"
| "url_encode [x, y] =
     [url_char (byte_val x div 4), url_char (byte_val x mod 4 * 16 + byte_val y div 16),
      url_char (byte_val y mod 16 * 4)]"
| "url_encode (x # y # z # s) =
     url_char (byte_val x div 4) # url_char (byte_val x mod 4 * 16 + byte_val y div 16) #
     url_char (byte_val y mod 16 * 4 + byte_val z div 64) # url_char (byte_val z mod 64) #
     url_encode s"

fun url_quanta :: "bytes \<Rightarrow> bytes option" where
  "url_quanta [] = Some []"
| "url_quanta [a] = None"
| "url_quanta [a, b] =
     (case (url_val a, url_val b) of
        (Some i, Some j) \<Rightarrow> Some [byte_of (i * 4 + j div 16)]
      | _ \<Rightarrow> None)"
| "url_quanta [a, b, c] =
     (case (url_val a, url_val b, url_val c) of
        (Some i, Some j, Some k) \<Rightarrow>
          Some [byte_of (i * 4 + j div 16), byte_of (j mod 16 * 16 + k div 4)]
      | _ \<Rightarrow> None)"
| "url_quanta (a # b # c # d # s) =
     (case (url_val a, url_val b, url_val c, url_val d) of
        (Some i, Some j, Some k, Some l) \<Rightarrow>
          map_option
            (\<lambda>r. byte_of (i * 4 + j div 16) # byte_of (j mod 16 * 16 + k div 4) #
                 byte_of (k mod 4 * 64 + l) # r)
            (url_quanta s)
      | _ \<Rightarrow> None)"

definition url_decode :: "bytes \<Rightarrow> bytes option" where
  "url_decode s = url_quanta (filter (\<lambda>c. \<not> is_newline c) s)"

lemma url_val_char: "n < 64 \<Longrightarrow> url_val (url_char n) = Some n \<and> \<not> is_newline (url_char n)"
proof -
  have "\<forall>n\<in>set [0..<64]. url_val (url_char n) = Some n \<and> \<not> is_newline (url_char n)"
    by (simp add: upt_rec url_char_def url_val_def b64_char_def b64_alphabet_def b64_val_def
        byte_val_def is_newline_def)
  then show "n < 64 \<Longrightarrow> url_val (url_char n) = Some n \<and> \<not> is_newline (url_char n)" by simp
qed

lemma url_quanta_encode: "url_quanta (url_encode s) = Some s"
  by (induction s rule: url_encode.induct) (simp_all add: url_val_char)

lemma url_encode_no_newline: "\<forall>c\<in>set (url_encode s). \<not> is_newline c"
  by (induction s rule: url_encode.induct) (simp_all add: url_val_char)

interpretation raw_url: codec url_encode url_decode "\<lambda>_. True"
  by unfold_locales
    (simp add: url_decode_def filter_idem_all [OF url_encode_no_newline] url_quanta_encode)

end
