(* ===== verification/AetherAuth.thy ===== *)
theory AetherAuth
  imports GoRawURL GoTime ChunkedIO
begin

text \<open>
  The token of the signalling server: \<open>parseDate\<close> and \<open>authenticate\<close> of
  \<open>signal-server-aetherlight.go\<close>, and \<open>aetherlightToken\<close> with the header it travels in, of
  \<open>cli-proxy-aetherlight.go\<close>.

  Outside: base58, the HTTP date format and the NaCl box are fields of \<open>auth_env\<close>. A box is opened
  with a nonce, the peer's public key and the own private key; the record also holds the public
  key of a private key. Only whether it opens matters, the plain text is discarded.
\<close>

record auth_env =
  base58_encode :: "bytes \<Rightarrow> bytes"
  base58_decode :: "bytes \<Rightarrow> bytes"
  http_parse_time :: "bytes \<Rightarrow> time option"
  http_format_time :: "time \<Rightarrow> bytes"
  box_seal :: "bytes \<Rightarrow> bytes \<Rightarrow> bytes \<Rightarrow> bytes \<Rightarrow> bytes"
  box_opens :: "bytes \<Rightarrow> bytes \<Rightarrow> bytes \<Rightarrow> bytes \<Rightarrow> bool"
  box_public :: "bytes \<Rightarrow> bytes"

record request =
  h_date :: bytes
  h_x_date :: bytes
  h_x_token :: bytes

datatype auth_error =
    UnparsedDate | TooHighSkew duration | InvalidDate auth_error | InvalidToken | DecryptionFailed

text \<open>\<open>copy(key[:], b)\<close> into a fresh array of 32 bytes.\<close>

definition copy32 :: "bytes \<Rightarrow> bytes" where
  "copy32 b = take 32 (b @ replicate 32 CHR 0x00)"

text \<open>\<open>date.Unix()\<close> as the low 8 bytes of a nonce of 24, least significant first.\<close>

definition time_Unix :: "time \<Rightarrow> int" where
  "time_Unix t = t div 1000000000"

definition unix_nonce :: "time \<Rightarrow> bytes" where
  "unix_nonce t = le_bytes 8 (nat (time_Unix t mod 2 ^ 64)) @ replicate 16 CHR 0x00"

definition parseDate ::
    "auth_env \<Rightarrow> time \<Rightarrow> request \<Rightarrow> duration option \<Rightarrow> (auth_error, time) res" where
  "parseDate A now r skew =
     (let s = (if h_date r = [] then h_x_date r else h_date r) in
      case http_parse_time A s of
        None \<Rightarrow> Err UnparsedDate
      | Some date \<Rightarrow>
          let sk = (case skew of None \<Rightarrow> 5 * time_Second | Some sk \<Rightarrow> sk);
              diff = time_Sub now date
          in if sint sk < sint (duration_Abs diff) then Err (TooHighSkew diff) else Ok date)"

definition authenticate ::
    "auth_env \<Rightarrow> time \<Rightarrow> request \<Rightarrow> bytes \<Rightarrow> bytes \<Rightarrow> (auth_error, unit) res" where
  "authenticate A now r key ingressID =
     (let pubkey = copy32 (base58_decode A ingressID) in
      case parseDate A now r None of
        Err e \<Rightarrow> Err (InvalidDate e)
      | Panic \<Rightarrow> Panic
      | Ok date \<Rightarrow>
          (case url_decode (h_x_token r) of
             None \<Rightarrow> Err InvalidToken
           | Some payload \<Rightarrow>
               if box_opens A payload (unix_nonce date) pubkey key then Ok ()
               else Err DecryptionFailed))"

text \<open>
  The client: \<open>data\<close> is the random plain text, \<open>res_body\<close> the server's answer to the request for
  its public key.
\<close>

definition aetherlightToken :: "auth_env \<Rightarrow> bytes \<Rightarrow> bytes \<Rightarrow> bytes \<Rightarrow> time \<Rightarrow> bytes" where
  "aetherlightToken A data res_body id_key date =
     url_encode (box_seal A data (unix_nonce date) (copy32 res_body) (copy32 id_key))"

definition ingress_request :: "auth_env \<Rightarrow> bytes \<Rightarrow> bytes \<Rightarrow> bytes \<Rightarrow> time \<Rightarrow> request" where
  "ingress_request A data res_body id_key date =
     \<lparr>h_date = http_format_time A date, h_x_date = [],
      h_x_token = aetherlightToken A data res_body id_key date\<rparr>"

definition ingress_id :: "auth_env \<Rightarrow> bytes \<Rightarrow> bytes" where
  "ingress_id A public_key = base58_encode A public_key"

section \<open>What the environment promises\<close>

text \<open>
  Base58 decodes what it encodes; an HTTP date is the instant cut to its second; a box sealed for a
  public key opens with the private key, given the sender's public key.
\<close>

definition auth_laws :: "auth_env \<Rightarrow> bool" where
  "auth_laws A \<longleftrightarrow>
     (\<forall>b. base58_decode A (base58_encode A b) = b)
     \<and> (\<forall>t. http_format_time A t \<noteq> []
          \<and> http_parse_time A (http_format_time A t) = Some (t div 1000000000 * 1000000000))
     \<and> (\<forall>m n s k. box_opens A (box_seal A m n (box_public A s) k) n (box_public A k) s)"

section \<open>Lemmas\<close>

lemma copy32_id [simp]: "length b = 32 \<Longrightarrow> copy32 b = b"
  by (simp add: copy32_def)

lemma five_seconds: "sint (5 * time_Second) = 5000000000"
  by (simp add: time_Second_def)

lemma sint_duration_Abs_Sub:
  "sint (duration_Abs (time_Sub t u)) = min max_duration \<bar>t - u\<bar>"
proof -
  define d where "d = max min_duration (min max_duration (t - u))"
  have d: "min_duration \<le> d" "d \<le> max_duration"
    by (auto simp: d_def min_duration_def max_duration_def)
  then have s: "sint (word_of_int d :: 64 word) = d" by (rule sint_word_of_int_range)
  have m: "sint (word_of_int max_duration :: 64 word) = max_duration"
    by (rule sint_word_of_int_range) (simp_all add: min_duration_def max_duration_def)
  have n: "sint (- (word_of_int d :: 64 word)) = - d" if "d < 0" "d \<noteq> min_duration"
  proof -
    have "- (word_of_int d :: 64 word) = word_of_int (- d)" by simp
    moreover have "min_duration \<le> - d" "- d \<le> max_duration"
      using that d by (auto simp: min_duration_def max_duration_def)
    ultimately show ?thesis using sint_word_of_int_range [of "- d"] by simp
  qed
  have "sint (duration_Abs (word_of_int d)) = (if 0 \<le> d then d else if d = min_duration then max_duration else - d)"
    using s m n unfolding duration_Abs_def by simp
  also have "\<dots> = min max_duration \<bar>t - u\<bar>"
    by (auto simp: d_def min_duration_def max_duration_def)
  finally show ?thesis by (simp add: time_Sub_def d_def)
qed

lemma parseDate_Ok:
  "parseDate A now r None = Ok date \<longleftrightarrow>
     http_parse_time A (if h_date r = [] then h_x_date r else h_date r) = Some date
     \<and> \<bar>now - date\<bar> \<le> 5000000000"
  by (auto simp: parseDate_def Let_def sint_duration_Abs_Sub five_seconds max_duration_def not_less
      split: option.splits)

lemma parseDate_no_panic [simp]: "parseDate A now r sk \<noteq> Panic"
  by (auto simp: parseDate_def Let_def split: option.splits)

lemma authenticate_Ok:
  "authenticate A now r key i = Ok () \<longleftrightarrow>
     (\<exists>date payload. http_parse_time A (if h_date r = [] then h_x_date r else h_date r) = Some date
        \<and> \<bar>now - date\<bar> \<le> 5000000000 \<and> url_decode (h_x_token r) = Some payload
        \<and> box_opens A payload (unix_nonce date) (copy32 (base58_decode A i)) key)"
proof -
  have "authenticate A now r key i = Ok () \<longleftrightarrow>
      (\<exists>date payload. parseDate A now r None = Ok date \<and> url_decode (h_x_token r) = Some payload
         \<and> box_opens A payload (unix_nonce date) (copy32 (base58_decode A i)) key)"
    by (auto simp: authenticate_def Let_def split: res.splits option.splits)
  then show ?thesis by (simp add: parseDate_Ok)
qed

lemma unix_nonce_cut: "unix_nonce (t div 1000000000 * 1000000000) = unix_nonce t"
  by (simp add: unix_nonce_def time_Unix_def)

section \<open>A concrete environment\<close>

text \<open>
  For the witnesses: base58 is the identity, except that it decodes the empty string for an input
  with a zero, a date is its seconds in unary, and a box is the plain text behind the two public
  keys.
\<close>

definition demo_auth :: auth_env where
  "demo_auth =
     \<lparr>base58_encode = (\<lambda>b. CHR ''1'' # b),
      base58_decode = (\<lambda>b. case b of c # d \<Rightarrow> if c = CHR ''1'' then d else [] | [] \<Rightarrow> []),
      http_parse_time = (\<lambda>s. if s = [] then None
         else Some (int (length s - 1) * 1000000000 * (if hd s = CHR ''-'' then - 1 else 1))),
      http_format_time = (\<lambda>t. (if t div 1000000000 < 0 then CHR ''-'' else CHR ''+'')
         # replicate (nat \<bar>t div 1000000000\<bar>) CHR ''s''),
      box_seal = (\<lambda>m n p k. copy32 p @ copy32 k @ m),
      box_opens = (\<lambda>b n p k. take 64 b = copy32 k @ copy32 p),
      box_public = copy32\<rparr>"

lemma length_copy32 [simp]: "length (copy32 b) = 32"
  by (simp add: copy32_def)

lemma copy32_copy32 [simp]: "copy32 (copy32 b) = copy32 b"
  by simp

lemma demo_auth_laws: "auth_laws demo_auth"
proof -
  have "int (nat \<bar>q\<bar>) * 1000000000 * (if q < 0 then - 1 else 1) = q * 1000000000" for q :: int
    by simp
  then show ?thesis by (auto simp: auth_laws_def demo_auth_def)
qed

section \<open>Properties\<close>

text \<open>C31. The server authenticates a request exactly when its date is within five seconds of the
  server's clock, its token decodes, and the payload is a box for the server under the date's
  second and the first 32 bytes the ingress id decodes to. Nothing panics.\<close>

theorem authenticate_iff:
  "(authenticate A now r key i = Ok () \<longleftrightarrow>
     (\<exists>date payload. http_parse_time A (if h_date r = [] then h_x_date r else h_date r) = Some date
        \<and> \<bar>now - date\<bar> \<le> 5 * 1000000000 \<and> url_decode (h_x_token r) = Some payload
        \<and> box_opens A payload (unix_nonce date) (copy32 (base58_decode A i)) key))
   \<and> authenticate A now r key i \<noteq> Panic"
  by (simp add: authenticate_Ok)
    (auto simp: authenticate_def Let_def split: res.splits option.splits)

text \<open>The token an honest node makes with its own key and the server's public key is accepted for
  the node's own ingress id, as long as the server's clock is within five seconds of the second
  in which it was made, and is refused outside.\<close>

lemma honest_ingress_authenticated:
  assumes "auth_laws A" and "length id_key = 32" and "length (box_public A id_key) = 32"
    and "length (box_public A server_key) = 32"
  shows "authenticate A now (ingress_request A data (box_public A server_key) id_key date) server_key
           (ingress_id A (box_public A id_key)) = Ok ()
     \<longleftrightarrow> \<bar>now - date div 1000000000 * 1000000000\<bar> \<le> 5 * 1000000000"
proof -
  have l: "base58_decode A (base58_encode A b) = b" "http_format_time A t \<noteq> []"
    "http_parse_time A (http_format_time A t) = Some (t div 1000000000 * 1000000000)"
    "box_opens A (box_seal A m n (box_public A s) k) n (box_public A k) s" for b t m n s k
    using assms(1) by (auto simp: auth_laws_def)
  have u: "url_decode (url_encode b) = Some b" for b by (rule raw_url.dec_enc) simp
  show ?thesis
    using l assms(2-4) u
    by (simp add: authenticate_Ok ingress_request_def ingress_id_def aetherlightToken_def unix_nonce_cut)
qed

text \<open>A token is not bound to the connection it was sent on: whoever has seen it can use it again,
  for any id that decodes to the same first 32 bytes, until five seconds after its date.\<close>

lemma token_is_replayable:
  assumes "authenticate A now r key i = Ok ()"
  shows "\<exists>date. \<bar>now - date\<bar> \<le> 5 * 1000000000 \<and>
           (\<forall>now' i'. \<bar>now' - date\<bar> \<le> 5 * 1000000000 \<longrightarrow>
              take 32 (base58_decode A i') = take 32 (base58_decode A i) \<longrightarrow>
              length (base58_decode A i) \<ge> 32 \<longrightarrow> authenticate A now' r key i' = Ok ())"
proof -
  have c: "copy32 b = copy32 b'" if "take 32 b = take 32 b'" "32 \<le> length b'" for b b'
  proof -
    have "length (take 32 b) = 32" using that by simp
    then have "32 \<le> length b" by simp
    with that show ?thesis by (simp add: copy32_def)
  qed
  from assms obtain date payload where d:
    "http_parse_time A (if h_date r = [] then h_x_date r else h_date r) = Some date"
    "\<bar>now - date\<bar> \<le> 5000000000" "url_decode (h_x_token r) = Some payload"
    "box_opens A payload (unix_nonce date) (copy32 (base58_decode A i)) key"
    by (auto simp: authenticate_Ok)
  have "authenticate A now' r key i' = Ok ()" if "\<bar>now' - date\<bar> \<le> 5 * 1000000000"
    "take 32 (base58_decode A i') = take 32 (base58_decode A i)" "32 \<le> length (base58_decode A i)" for now' i'
    using d that(1) c [OF that(2,3)] by (auto simp: authenticate_Ok)
  with d(2) show ?thesis by (intro exI [of _ date]) simp
qed

text \<open>An id that base58 does not decode is checked against the all-zero public key. With it the
  shared key of a box does not depend on the private key, so the server's secret plays no part:
  one token opens every such id at every server.\<close>

lemma undecodable_id_needs_no_secret:
  assumes "base58_decode A i = []"
    and "\<forall>b n k k'. box_opens A b n (replicate 32 CHR 0x00) k = box_opens A b n (replicate 32 CHR 0x00) k'"
  shows "authenticate A now r key i = authenticate A now r key' i"
  using assms(1) assms(2) [rule_format, of _ _ key key']
  by (simp add: authenticate_def copy32_def cong: res.case_cong option.case_cong)

definition zero_auth :: auth_env where
  "zero_auth = demo_auth\<lparr>box_opens := (\<lambda>b n p k. if p = replicate 32 CHR 0x00 then b = n
     else take 64 b = copy32 k @ copy32 p)\<rparr>"

end
