(* ===== verification/SignalServer.thy ===== *)
theory SignalServer
  imports AetherAuth
begin

text \<open>
  \<open>NewAetherlightHandler\<close> of \<open>signal-server-aetherlight.go\<close>: the table of connected ingresses and
  the handler of \<open>/ingresses/{ingressID}\<close>, which the HTTP server runs in one goroutine for each
  request, without a lock on the table.

  A handler is its local variables with a program point, the server is the table and its handlers,
  and a step is what one goroutine does between two points where another one can run. Sessions are
  numbered in the order in which smux makes them.
\<close>

type_synonym sess = nat
type_synonym tid = nat

datatype response = Unauthorized | NotFound | Conflict | NotUpgraded | Closed

text \<open>
  The program points: before the look-up in the table, at \<open>websocket.Accept\<close> with what was looked
  up, before \<open>newIngress\<close>, before the table is written, at \<open><-CloseChan()\<close>, at the deferred
  clean-up, in \<open>relay\<close>, and after the return.
\<close>

datatype point =
    Arrived bool
  | Accepting bool "sess option"
  | Creating
  | Registering sess
  | Serving sess
  | Leaving sess
  | Relaying sess
  | Finished response

record handler =
  hd_now :: time
  hd_req :: request
  hd_id :: bytes
  hd_point :: point

record server =
  ingresses :: "bytes \<rightharpoonup> sess"
  handlers :: "tid \<rightharpoonup> handler"
  next_sess :: sess

definition init_server :: server where
  "init_server = \<lparr>ingresses = Map.empty, handlers = Map.empty, next_sess = 0\<rparr>"

text \<open>The authentication of a request that has a token, and the look-up with its answers.\<close>

definition start_point :: "auth_env \<Rightarrow> bytes \<Rightarrow> time \<Rightarrow> request \<Rightarrow> bytes \<Rightarrow> point" where
  "start_point A key now r ingressID =
     (if h_x_token r \<noteq> [] then
        (case authenticate A now r key ingressID of
           Ok _ \<Rightarrow> Arrived True
         | _ \<Rightarrow> Finished Unauthorized)
      else Arrived False)"

definition look_up :: "(bytes \<rightharpoonup> sess) \<Rightarrow> bool \<Rightarrow> bytes \<Rightarrow> point" where
  "look_up tab isMaster ingressID =
     (let ing = tab ingressID in
      if \<not> isMaster \<and> ing = None then Finished NotFound
      else if isMaster \<and> ing \<noteq> None then Finished Conflict
      else Accepting isMaster ing)"

text \<open>The deferred clean-up deletes the entry only while it is the handler's own.\<close>

definition clean_up :: "(bytes \<rightharpoonup> sess) \<Rightarrow> bytes \<Rightarrow> sess \<Rightarrow> (bytes \<rightharpoonup> sess)" where
  "clean_up tab ingressID ing =
     (if tab ingressID \<noteq> Some ing then tab else tab(ingressID := None))"

definition at_point :: "server \<Rightarrow> tid \<Rightarrow> handler \<Rightarrow> point \<Rightarrow> server" where
  "at_point \<sigma> t h p = \<sigma>\<lparr>handlers := (handlers \<sigma>)(t \<mapsto> h\<lparr>hd_point := p\<rparr>)\<rparr>"

inductive srv_step :: "auth_env \<Rightarrow> bytes \<Rightarrow> server \<Rightarrow> server \<Rightarrow> bool" for A :: auth_env and key :: bytes
where
  arrive: "handlers \<sigma> t = None \<Longrightarrow>
    srv_step A key \<sigma> (\<sigma>\<lparr>handlers := (handlers \<sigma>)(t \<mapsto>
      \<lparr>hd_now = now, hd_req = r, hd_id = i, hd_point = start_point A key now r i\<rparr>)\<rparr>)"
| lookup: "handlers \<sigma> t = Some h \<Longrightarrow> hd_point h = Arrived m \<Longrightarrow>
    srv_step A key \<sigma> (at_point \<sigma> t h (look_up (ingresses \<sigma>) m (hd_id h)))"
| refused: "handlers \<sigma> t = Some h \<Longrightarrow> hd_point h = Accepting m ing \<Longrightarrow>
    srv_step A key \<sigma> (at_point \<sigma> t h (Finished NotUpgraded))"
| accept_master: "handlers \<sigma> t = Some h \<Longrightarrow> hd_point h = Accepting True ing \<Longrightarrow>
    srv_step A key \<sigma> (at_point \<sigma> t h Creating)"
| no_session: "handlers \<sigma> t = Some h \<Longrightarrow> hd_point h = Creating \<Longrightarrow>
    srv_step A key \<sigma> (at_point \<sigma> t h (Finished Closed))"
| session: "handlers \<sigma> t = Some h \<Longrightarrow> hd_point h = Creating \<Longrightarrow>
    srv_step A key \<sigma> (at_point \<sigma> t h (Registering (next_sess \<sigma>))\<lparr>next_sess := Suc (next_sess \<sigma>)\<rparr>)"
| register: "handlers \<sigma> t = Some h \<Longrightarrow> hd_point h = Registering s \<Longrightarrow>
    srv_step A key \<sigma> (at_point \<sigma> t h (Serving s)\<lparr>ingresses := (ingresses \<sigma>)(hd_id h \<mapsto> s)\<rparr>)"
| disconnected: "handlers \<sigma> t = Some h \<Longrightarrow> hd_point h = Serving s \<Longrightarrow>
    srv_step A key \<sigma> (at_point \<sigma> t h (Leaving s))"
| leave: "handlers \<sigma> t = Some h \<Longrightarrow> hd_point h = Leaving s \<Longrightarrow>
    srv_step A key \<sigma> (at_point \<sigma> t h (Finished Closed)\<lparr>ingresses := clean_up (ingresses \<sigma>) (hd_id h) s\<rparr>)"
| accept_client: "handlers \<sigma> t = Some h \<Longrightarrow> hd_point h = Accepting False (Some s) \<Longrightarrow>
    srv_step A key \<sigma> (at_point \<sigma> t h (Relaying s))"
| client_done: "handlers \<sigma> t = Some h \<Longrightarrow> hd_point h = Relaying s \<Longrightarrow>
    srv_step A key \<sigma> (at_point \<sigma> t h (Finished Closed))"

inductive srv_reach :: "auth_env \<Rightarrow> bytes \<Rightarrow> server \<Rightarrow> bool" for A :: auth_env and key :: bytes where
  init: "srv_reach A key init_server"
| step: "srv_reach A key \<sigma> \<Longrightarrow> srv_step A key \<sigma> \<sigma>' \<Longrightarrow> srv_reach A key \<sigma>'"

inductive_cases srv_stepE: "srv_step A key \<sigma> \<sigma>'"

lemma at_point_simps [simp]:
  "ingresses (at_point \<sigma> t h p) = ingresses \<sigma>" "next_sess (at_point \<sigma> t h p) = next_sess \<sigma>"
  "handlers (at_point \<sigma> t h p) = (handlers \<sigma>)(t \<mapsto> h\<lparr>hd_point := p\<rparr>)"
  by (simp_all add: at_point_def)

section \<open>The invariant\<close>

text \<open>The session a handler owns, and whether a point lies on the path of an ingress.\<close>

fun own_sess :: "point \<Rightarrow> sess option" where
  "own_sess (Registering s) = Some s"
| "own_sess (Serving s) = Some s"
| "own_sess (Leaving s) = Some s"
| "own_sess _ = None"

fun master_point :: "point \<Rightarrow> bool" where
  "master_point (Arrived m) = m"
| "master_point (Accepting m ing) = m"
| "master_point (Relaying s) = False"
| "master_point (Finished r) = False"
| "master_point _ = True"

definition authentic :: "auth_env \<Rightarrow> bytes \<Rightarrow> handler \<Rightarrow> bool" where
  "authentic A key h \<longleftrightarrow>
     h_x_token (hd_req h) \<noteq> [] \<and> authenticate A (hd_now h) (hd_req h) key (hd_id h) = Ok ()"

definition owned :: "server \<Rightarrow> bytes \<Rightarrow> sess \<Rightarrow> bool" where
  "owned \<sigma> i s \<longleftrightarrow>
     (\<exists>t h. handlers \<sigma> t = Some h \<and> hd_id h = i \<and> (hd_point h = Serving s \<or> hd_point h = Leaving s))"

definition srv_inv :: "auth_env \<Rightarrow> bytes \<Rightarrow> server \<Rightarrow> bool" where
  "srv_inv A key \<sigma> \<longleftrightarrow>
     (\<forall>t h. handlers \<sigma> t = Some h \<longrightarrow> master_point (hd_point h) \<longrightarrow> authentic A key h)
   \<and> (\<forall>t h s. handlers \<sigma> t = Some h \<longrightarrow> own_sess (hd_point h) = Some s \<longrightarrow> s < next_sess \<sigma>)
   \<and> (\<forall>t t' h h' s. handlers \<sigma> t = Some h \<longrightarrow> handlers \<sigma> t' = Some h' \<longrightarrow>
        own_sess (hd_point h) = Some s \<longrightarrow> own_sess (hd_point h') = Some s \<longrightarrow> t = t')
   \<and> (\<forall>i s. ingresses \<sigma> i = Some s \<longrightarrow> owned \<sigma> i s)"

lemma start_point_master:
  "master_point (start_point A key now r i) \<longleftrightarrow>
     h_x_token r \<noteq> [] \<and> authenticate A now r key i = Ok ()"
  by (auto simp: start_point_def split: res.split)

lemma start_point_sess [simp]: "own_sess (start_point A key now r i) = None"
  by (auto simp: start_point_def split: res.split)

lemma look_up_points [simp]:
  "own_sess (look_up tab m i) = None" "master_point (look_up tab m i) \<Longrightarrow> m"
  by (auto simp: look_up_def Let_def split: if_splits)

lemma srv_invD:
  assumes "srv_inv A key \<sigma>"
  shows "handlers \<sigma> t = Some h \<Longrightarrow> master_point (hd_point h) \<Longrightarrow> authentic A key h"
    and "handlers \<sigma> t = Some h \<Longrightarrow> own_sess (hd_point h) = Some s \<Longrightarrow> s < next_sess \<sigma>"
    and "handlers \<sigma> t = Some h \<Longrightarrow> handlers \<sigma> t' = Some h' \<Longrightarrow>
      own_sess (hd_point h) = Some s \<Longrightarrow> own_sess (hd_point h') = Some s \<Longrightarrow> t = t'"
    and "ingresses \<sigma> i = Some s \<Longrightarrow> owned \<sigma> i s"
  using assms unfolding srv_inv_def by blast+

text \<open>A step of one handler that leaves the table alone.\<close>

lemma inv_at_point:
  assumes "srv_inv A key \<sigma>" and "handlers \<sigma> t = Some h"
    and "master_point p \<longrightarrow> master_point (hd_point h)"
    and "own_sess p = own_sess (hd_point h) \<or> own_sess p = None \<and> own_sess (hd_point h) = None"
    and "\<And>s. hd_point h = Serving s \<or> hd_point h = Leaving s \<Longrightarrow> p = Serving s \<or> p = Leaving s"
  shows "srv_inv A key (at_point \<sigma> t h p)"
proof -
  have o: "owned \<sigma> i s \<Longrightarrow> owned (at_point \<sigma> t h p) i s" for i s
    using assms(2,5) unfolding owned_def by (auto simp: at_point_def) (metis option.inject)+
  have hs: "handlers (at_point \<sigma> t h p) = (handlers \<sigma>)(t \<mapsto> h\<lparr>hd_point := p\<rparr>)" by simp
  show ?thesis
    unfolding srv_inv_def
  proof (intro conjI allI impI)
    fix u h' assume "handlers (at_point \<sigma> t h p) u = Some h'" "master_point (hd_point h')"
    then show "authentic A key h'"
      using srv_invD(1) [OF assms(1)] assms(2,3) by (auto simp: authentic_def split: if_splits)
  next
    fix u h' s assume "handlers (at_point \<sigma> t h p) u = Some h'" "own_sess (hd_point h') = Some s"
    then show "s < next_sess (at_point \<sigma> t h p)"
      using srv_invD(2) [OF assms(1)] assms(2,4) by (auto split: if_splits)
  next
    fix u u' h1 h2 s
    assume "handlers (at_point \<sigma> t h p) u = Some h1" "handlers (at_point \<sigma> t h p) u' = Some h2"
      "own_sess (hd_point h1) = Some s" "own_sess (hd_point h2) = Some s"
    then show "u = u'"
      using srv_invD(3) [OF assms(1)] assms(2,4) by (auto split: if_splits)
  next
    fix j s assume "ingresses (at_point \<sigma> t h p) j = Some s"
    then show "owned (at_point \<sigma> t h p) j s" using o srv_invD(4) [OF assms(1)] by simp
  qed
qed

lemma owned_keep:
  assumes "owned \<sigma> i s" and "handlers \<sigma>' = (handlers \<sigma>)(t \<mapsto> x)"
    and "\<And>h. handlers \<sigma> t = Some h \<Longrightarrow> hd_id h = i \<Longrightarrow> hd_point h \<noteq> Serving s \<and> hd_point h \<noteq> Leaving s"
  shows "owned \<sigma>' i s"
proof -
  obtain u h where u: "handlers \<sigma> u = Some h" "hd_id h = i" "hd_point h = Serving s \<or> hd_point h = Leaving s"
    using assms(1) unfolding owned_def by blast
  then have "u \<noteq> t" using assms(3) [of h] by blast
  with u assms(2) show ?thesis unfolding owned_def by (intro exI [of _ u] exI [of _ h]) simp
qed

lemma inv_arrive:
  assumes "srv_inv A key \<sigma>" and "handlers \<sigma> t = None"
  shows "srv_inv A key (\<sigma>\<lparr>handlers := (handlers \<sigma>)(t \<mapsto>
      \<lparr>hd_now = now, hd_req = r, hd_id = i, hd_point = start_point A key now r i\<rparr>)\<rparr>)"
    (is "srv_inv A key ?\<sigma>'")
proof -
  have o: "owned ?\<sigma>' j s" if "ingresses \<sigma> j = Some s" for j s
    by (rule owned_keep [where t = t, OF srv_invD(4) [OF assms(1) that]]) (simp_all add: assms(2))
  show ?thesis
    unfolding srv_inv_def
  proof (intro conjI allI impI)
    fix u h assume "handlers ?\<sigma>' u = Some h" "master_point (hd_point h)"
    then show "authentic A key h"
      using srv_invD(1) [OF assms(1)] by (auto simp: authentic_def start_point_master split: if_splits)
  next
    fix u h s assume "handlers ?\<sigma>' u = Some h" "own_sess (hd_point h) = Some s"
    then show "s < next_sess ?\<sigma>'"
      using srv_invD(2) [OF assms(1)] by (auto split: if_splits)
  next
    fix u u' h h' s
    assume "handlers ?\<sigma>' u = Some h" "handlers ?\<sigma>' u' = Some h'"
      "own_sess (hd_point h) = Some s" "own_sess (hd_point h') = Some s"
    then show "u = u'"
      using srv_invD(3) [OF assms(1)] by (auto split: if_splits)
  next
    fix j s assume "ingresses ?\<sigma>' j = Some s"
    then show "owned ?\<sigma>' j s" using o by simp
  qed
qed

lemma inv_session:
  assumes "srv_inv A key \<sigma>" and "handlers \<sigma> t = Some h" and "hd_point h = Creating"
  shows "srv_inv A key (at_point \<sigma> t h (Registering (next_sess \<sigma>))\<lparr>next_sess := Suc (next_sess \<sigma>)\<rparr>)"
    (is "srv_inv A key ?\<sigma>'")
proof -
  have hs: "handlers ?\<sigma>' = (handlers \<sigma>)(t \<mapsto> h\<lparr>hd_point := Registering (next_sess \<sigma>)\<rparr>)" by simp
  have o: "owned ?\<sigma>' j s" if "ingresses \<sigma> j = Some s" for j s
    by (rule owned_keep [OF srv_invD(4) [OF assms(1) that] hs]) (use assms(2,3) in simp)
  have lt: "own_sess (hd_point h') = Some s \<Longrightarrow> handlers \<sigma> u = Some h' \<Longrightarrow> s < next_sess \<sigma>" for u h' s
    using srv_invD(2) [OF assms(1)] by blast
  show ?thesis
    unfolding srv_inv_def
  proof (intro conjI allI impI)
    fix u h' assume "handlers ?\<sigma>' u = Some h'" "master_point (hd_point h')"
    then show "authentic A key h'"
      using srv_invD(1) [OF assms(1)] assms(2,3) by (auto simp: authentic_def split: if_splits)
  next
    fix u h' s assume "handlers ?\<sigma>' u = Some h'" "own_sess (hd_point h') = Some s"
    then show "s < next_sess ?\<sigma>'" using lt by (force split: if_splits)
  next
    fix u u' h1 h2 s
    assume "handlers ?\<sigma>' u = Some h1" "handlers ?\<sigma>' u' = Some h2"
      "own_sess (hd_point h1) = Some s" "own_sess (hd_point h2) = Some s"
    then show "u = u'"
      using srv_invD(3) [OF assms(1)] lt [of h1] lt [of h2] by (fastforce split: if_splits)
  next
    fix j s assume "ingresses ?\<sigma>' j = Some s"
    then show "owned ?\<sigma>' j s" using o by simp
  qed
qed

lemma inv_table:
  assumes "srv_inv A key \<sigma>" and "\<And>i s. tab i = Some s \<Longrightarrow> owned \<sigma> i s"
  shows "srv_inv A key (\<sigma>\<lparr>ingresses := tab\<rparr>)"
proof -
  have "owned (\<sigma>\<lparr>ingresses := tab\<rparr>) i s \<longleftrightarrow> owned \<sigma> i s" for i s by (simp add: owned_def)
  with assms show ?thesis by (simp add: srv_inv_def)
qed

lemma inv_register:
  assumes "srv_inv A key \<sigma>" and "handlers \<sigma> t = Some h" and "hd_point h = Registering s"
  shows "srv_inv A key (at_point \<sigma> t h (Serving s)\<lparr>ingresses := (ingresses \<sigma>)(hd_id h \<mapsto> s)\<rparr>)"
    (is "srv_inv A key ?\<sigma>'")
proof -
  have i: "srv_inv A key (at_point \<sigma> t h (Serving s))"
    by (rule inv_at_point [OF assms(1,2)]) (simp_all add: assms(3))
  have o: "owned (at_point \<sigma> t h (Serving s)) j s'" if "((ingresses \<sigma>)(hd_id h \<mapsto> s)) j = Some s'" for j s'
  proof (cases "j = hd_id h")
    case True
    with that have "s' = s" by simp
    with True show ?thesis
      unfolding owned_def by (intro exI [of _ t] exI [of _ "h\<lparr>hd_point := Serving s\<rparr>"]) simp
  next
    case False
    with that show ?thesis using srv_invD(4) [OF i, of j s'] by simp
  qed
  show ?thesis by (rule inv_table [OF i o])
qed

lemma inv_leave:
  assumes "srv_inv A key \<sigma>" and "handlers \<sigma> t = Some h" and "hd_point h = Leaving s"
  shows "srv_inv A key (at_point \<sigma> t h (Finished Closed)\<lparr>ingresses := clean_up (ingresses \<sigma>) (hd_id h) s\<rparr>)"
    (is "srv_inv A key ?\<sigma>'")
proof -
  have hs: "handlers ?\<sigma>' = (handlers \<sigma>)(t \<mapsto> h\<lparr>hd_point := Finished Closed\<rparr>)" by simp
  have o: "owned ?\<sigma>' j s'" if "clean_up (ingresses \<sigma>) (hd_id h) s j = Some s'" for j s'
  proof -
    from that have j: "ingresses \<sigma> j = Some s'" "\<not> (j = hd_id h \<and> s' = s)"
      by (auto simp: clean_up_def split: if_splits)
    show ?thesis
      by (rule owned_keep [OF srv_invD(4) [OF assms(1) j(1)] hs]) (use assms(2,3) j(2) in auto)
  qed
  show ?thesis
    unfolding srv_inv_def
  proof (intro conjI allI impI)
    fix u h' assume "handlers ?\<sigma>' u = Some h'" "master_point (hd_point h')"
    then show "authentic A key h'"
      using srv_invD(1) [OF assms(1)] by (auto split: if_splits)
  next
    fix u h' s' assume "handlers ?\<sigma>' u = Some h'" "own_sess (hd_point h') = Some s'"
    then show "s' < next_sess ?\<sigma>'"
      using srv_invD(2) [OF assms(1)] by (auto split: if_splits)
  next
    fix u u' h1 h2 s'
    assume "handlers ?\<sigma>' u = Some h1" "handlers ?\<sigma>' u' = Some h2"
      "own_sess (hd_point h1) = Some s'" "own_sess (hd_point h2) = Some s'"
    then show "u = u'"
      using srv_invD(3) [OF assms(1)] by (auto split: if_splits)
  next
    fix j s' assume "ingresses ?\<sigma>' j = Some s'"
    then show "owned ?\<sigma>' j s'" using o by simp
  qed
qed

lemma srv_step_inv: "srv_step A key \<sigma> \<sigma>' \<Longrightarrow> srv_inv A key \<sigma> \<Longrightarrow> srv_inv A key \<sigma>'"
proof (induction rule: srv_step.induct)
  case arrive
  then show ?case by (simp add: inv_arrive)
next
  case (lookup \<sigma> t h m)
  show ?case
    by (rule inv_at_point [OF lookup(3,1)]) (use look_up_points(2) [of "ingresses \<sigma>" m "hd_id h"] lookup(2) in auto)
next
  case (refused \<sigma> t h m ing)
  show ?case by (rule inv_at_point [OF refused(3,1)]) (auto simp: refused(2))
next
  case (accept_master \<sigma> t h ing)
  show ?case by (rule inv_at_point [OF accept_master(3,1)]) (auto simp: accept_master(2))
next
  case (no_session \<sigma> t h)
  show ?case by (rule inv_at_point [OF no_session(3,1)]) (auto simp: no_session(2))
next
  case session
  then show ?case by (simp add: inv_session)
next
  case register
  then show ?case by (simp add: inv_register)
next
  case (disconnected \<sigma> t h s)
  show ?case by (rule inv_at_point [OF disconnected(3,1)]) (auto simp: disconnected(2))
next
  case leave
  then show ?case by (simp add: inv_leave)
next
  case (accept_client \<sigma> t h s)
  show ?case by (rule inv_at_point [OF accept_client(3,1)]) (auto simp: accept_client(2))
next
  case (client_done \<sigma> t h s)
  show ?case by (rule inv_at_point [OF client_done(3,1)]) (auto simp: client_done(2))
qed

lemma srv_reach_inv: "srv_reach A key \<sigma> \<Longrightarrow> srv_inv A key \<sigma>"
proof (induction rule: srv_reach.induct)
  case init
  show ?case by (simp add: srv_inv_def init_server_def)
next
  case step
  then show ?case using srv_step_inv by blast
qed

section \<open>Properties\<close>

text \<open>C14. In every reachable state of the server, under every interleaving of requests, each entry of
  the table is the session of a handler that is still connected, and whose request was
  authenticated for exactly the id of the entry; and no two handlers share a session.\<close>

theorem entries_are_live_and_authentic:
  assumes "srv_reach A key \<sigma>" and "ingresses \<sigma> i = Some s"
  shows "\<exists>t h. handlers \<sigma> t = Some h \<and> hd_id h = i
           \<and> (hd_point h = Serving s \<or> hd_point h = Leaving s)
           \<and> h_x_token (hd_req h) \<noteq> [] \<and> authenticate A (hd_now h) (hd_req h) key i = Ok ()
           \<and> (\<forall>t' h'. handlers \<sigma> t' = Some h' \<longrightarrow> own_sess (hd_point h') = Some s \<longrightarrow> t' = t)"
proof -
  have inv: "srv_inv A key \<sigma>" by (rule srv_reach_inv [OF assms(1)])
  obtain t h where t: "handlers \<sigma> t = Some h" "hd_id h = i" "hd_point h = Serving s \<or> hd_point h = Leaving s"
    using srv_invD(4) [OF inv assms(2)] unfolding owned_def by blast
  then have "authentic A key h" "own_sess (hd_point h) = Some s"
    using srv_invD(1) [OF inv t(1)] by auto
  with t srv_invD(3) [OF inv] show ?thesis unfolding authentic_def by blast
qed

text \<open>Concrete runs: a list of the steps of two ingresses that ask for the same id.\<close>

lemma reach_steps: "srv_reach A key \<sigma> \<Longrightarrow> srv_step A key \<sigma> \<sigma>' \<Longrightarrow> srv_reach A key \<sigma>'"
  by (rule srv_reach.step)

definition master :: "time \<Rightarrow> request \<Rightarrow> bytes \<Rightarrow> point \<Rightarrow> handler" where
  "master now r i p = \<lparr>hd_now = now, hd_req = r, hd_id = i, hd_point = p\<rparr>"

lemma master_simps [simp]:
  "hd_point (master now r i p) = p" "hd_id (master now r i p) = i"
  "(master now r i p)\<lparr>hd_point := q\<rparr> = master now r i q"
  by (simp_all add: master_def)

definition state_of :: "(bytes \<rightharpoonup> sess) \<Rightarrow> (tid \<rightharpoonup> handler) \<Rightarrow> sess \<Rightarrow> server" where
  "state_of tab hs n = \<lparr>ingresses = tab, handlers = hs, next_sess = n\<rparr>"

lemma state_of_step:
  assumes "srv_reach A key (state_of tab hs n)" and "hs t = Some (master now r i p)"
  shows "p = Arrived m \<Longrightarrow> srv_reach A key (state_of tab (hs(t \<mapsto> master now r i (look_up tab m i))) n)"
    and "p = Accepting True ing \<Longrightarrow> srv_reach A key (state_of tab (hs(t \<mapsto> master now r i Creating)) n)"
    and "p = Creating \<Longrightarrow> srv_reach A key (state_of tab (hs(t \<mapsto> master now r i (Registering n))) (Suc n))"
    and "p = Registering s \<Longrightarrow> srv_reach A key (state_of (tab(i \<mapsto> s)) (hs(t \<mapsto> master now r i (Serving s))) n)"
    and "p = Serving s \<Longrightarrow> srv_reach A key (state_of tab (hs(t \<mapsto> master now r i (Leaving s))) n)"
    and "p = Leaving s \<Longrightarrow>
      srv_reach A key (state_of (clean_up tab i s) (hs(t \<mapsto> master now r i (Finished Closed))) n)"
  using srv_reach.step [OF assms(1) srv_step.lookup, of t "master now r i p" m]
    srv_reach.step [OF assms(1) srv_step.accept_master, of t "master now r i p" ing]
    srv_reach.step [OF assms(1) srv_step.session, of t "master now r i p"]
    srv_reach.step [OF assms(1) srv_step.register, of t "master now r i p" s]
    srv_reach.step [OF assms(1) srv_step.disconnected, of t "master now r i p" s]
    srv_reach.step [OF assms(1) srv_step.leave, of t "master now r i p" s] assms(2)
  by (simp_all add: state_of_def at_point_def)

lemma state_of_arrive:
  assumes "srv_reach A key (state_of tab hs n)" and "hs t = None"
  shows "srv_reach A key (state_of tab (hs(t \<mapsto> master now r i (start_point A key now r i))) n)"
  using srv_reach.step [OF assms(1) srv_step.arrive, of t now r i] assms(2)
  by (simp add: state_of_def master_def)

text \<open>One ingress alone connects, and its entry appears.\<close>

lemma reach_one:
  assumes "h_x_token r \<noteq> []" and "authenticate A now r key i = Ok ()"
  shows "srv_reach A key (state_of Map.empty [0 \<mapsto> master now r i (Registering 0)] 1)"
    and "srv_reach A key (state_of [i \<mapsto> 0] [0 \<mapsto> master now r i (Serving 0)] 1)"
proof -
  have a: "start_point A key now r i = Arrived True" using assms by (simp add: start_point_def)
  have 0: "srv_reach A key (state_of Map.empty Map.empty 0)"
    using srv_reach.init [of A key] by (simp add: init_server_def state_of_def)
  note 1 = state_of_arrive [OF 0, of 0 now r i, unfolded a, simplified]
  note 2 = state_of_step(1) [OF 1, where t = 0 and now = now and r = r and i = i and p = "Arrived True" and m = True, simplified]
  have l: "look_up Map.empty True i = Accepting True None" by (simp add: look_up_def)
  note 3 = state_of_step(2) [OF 2 [unfolded l], where t = 0 and now = now and r = r and i = i and p = "Accepting True None" and ing = None, simplified]
  note 4 = state_of_step(3) [OF 3, where t = 0 and now = now and r = r and i = i and p = "Creating", simplified]
  then show "srv_reach A key (state_of Map.empty [0 \<mapsto> master now r i (Registering 0)] 1)" by simp
  from state_of_step(4) [OF 4, where t = 0 and now = now and r = r and i = i and p = "Registering 0" and s = 0, simplified]
  show "srv_reach A key (state_of [i \<mapsto> 0] [0 \<mapsto> master now r i (Serving 0)] 1)" by simp
qed

lemma demo_token:
  obtains r where "h_x_token r \<noteq> []"
    and "authenticate demo_auth 4000000000 r (replicate 32 CHR 0x02) (ingress_id demo_auth (replicate 32 CHR 0x01)) = Ok ()"
proof -
  let ?k = "replicate 32 CHR 0x02" and ?c = "replicate 32 CHR 0x01"
  let ?r = "ingress_request demo_auth ''data'' ?k ?c 1500000000"
  have "http_parse_time demo_auth (http_format_time demo_auth 1500000000) = Some 1000000000"
    "http_format_time demo_auth 1500000000 \<noteq> []"
    by (simp_all add: demo_auth_def)
  moreover have u: "url_decode (url_encode b) = Some b" for b by (rule raw_url.dec_enc) simp
  ultimately have a: "authenticate demo_auth 4000000000 ?r ?k (ingress_id demo_auth ?c) = Ok ()"
    by (simp add: authenticate_Ok ingress_request_def aetherlightToken_def ingress_id_def)
      (simp add: demo_auth_def)
  have "box_seal demo_auth m n p k \<noteq> []" for m n p k
    by (simp add: demo_auth_def) (metis length_copy32 list.size(3) zero_neq_numeral)
  then have "url_encode (box_seal demo_auth m n p k) \<noteq> []" for m n p k
    by (metis u option.inject url_decode_def filter.simps(1) url_quanta.simps(1))
  then have "h_x_token ?r \<noteq> []" by (simp add: ingress_request_def aetherlightToken_def)
  from that [OF this a] show ?thesis .
qed

theorem entries_are_live_and_authentic_witness:
  "\<exists>\<sigma> i s t h. srv_reach demo_auth (replicate 32 CHR 0x02) \<sigma> \<and> ingresses \<sigma> i = Some s
     \<and> handlers \<sigma> t = Some h \<and> authenticate demo_auth (hd_now h) (hd_req h) (replicate 32 CHR 0x02) i = Ok ()"
proof -
  let ?k = "replicate 32 CHR 0x02" and ?i = "ingress_id demo_auth (replicate 32 CHR 0x01)"
  obtain r where r: "h_x_token r \<noteq> []" "authenticate demo_auth 4000000000 r ?k ?i = Ok ()"
    by (rule demo_token)
  let ?\<sigma> = "state_of [?i \<mapsto> 0] [0 \<mapsto> master 4000000000 r ?i (Serving 0)] 1"
  have e: "ingresses ?\<sigma> ?i = Some 0" by (simp add: state_of_def)
  from entries_are_live_and_authentic [OF reach_one(2) [OF r] e] reach_one(2) [OF r] e
  show ?thesis by blast
qed

text \<open>The entry of an id changes only by the handler of a request that was authenticated for that
  id: it is set to the handler's own session, or removed while it still is.\<close>

lemma entry_changes_are_authentic:
  assumes "srv_reach A key \<sigma>" and "srv_step A key \<sigma> \<sigma>'" and "ingresses \<sigma>' i \<noteq> ingresses \<sigma> i"
  shows "\<exists>t h s. handlers \<sigma> t = Some h \<and> hd_id h = i
           \<and> authenticate A (hd_now h) (hd_req h) key i = Ok ()
           \<and> (hd_point h = Registering s \<and> ingresses \<sigma>' i = Some s
              \<or> hd_point h = Leaving s \<and> ingresses \<sigma> i = Some s \<and> ingresses \<sigma>' i = None)"
proof -
  have inv: "srv_inv A key \<sigma>" by (rule srv_reach_inv [OF assms(1)])
  from assms(2,3) obtain t h s where t: "handlers \<sigma> t = Some h" "hd_id h = i"
    "hd_point h = Registering s \<and> ingresses \<sigma>' i = Some s
      \<or> hd_point h = Leaving s \<and> ingresses \<sigma> i = Some s \<and> ingresses \<sigma>' i = None"
    by (auto elim!: srv_stepE simp: clean_up_def split: if_splits)
  then have "authentic A key h" using srv_invD(1) [OF inv t(1)] by auto
  with t show ?thesis unfolding authentic_def by blast
qed

text \<open>The check for a conflict does not exclude a second ingress: two requests for one id that are
  both looked up before either is entered both connect, and when the second leaves, the first
  is still connected and every client is told that it does not exist.\<close>

lemma orphaned_ingress_reachable:
  assumes "h_x_token r \<noteq> []" and "authenticate A now r key i = Ok ()"
  shows "\<exists>\<sigma> t h s. srv_reach A key \<sigma> \<and> handlers \<sigma> t = Some h \<and> hd_id h = i \<and> hd_point h = Serving s
           \<and> ingresses \<sigma> i = None \<and> look_up (ingresses \<sigma>) False i = Finished NotFound"
proof -
  let ?m = "master now r i"
  have a: "start_point A key now r i = Arrived True" using assms by (simp add: start_point_def)
  have l: "look_up Map.empty True i = Accepting True None" by (simp add: look_up_def)
  have 0: "srv_reach A key (state_of Map.empty Map.empty 0)"
    using srv_reach.init [of A key] by (simp add: init_server_def state_of_def)
  note 1 = state_of_arrive [OF 0, of 0 now r i, unfolded a, simplified]
  note 2 = state_of_arrive [OF 1, of "Suc 0" now r i, unfolded a, simplified]
  note 3 = state_of_step(1) [OF 2, where t = 0 and now = now and r = r and i = i and p = "Arrived True" and m = True, simplified, unfolded l]
  note 4 = state_of_step(1) [OF 3, where t = "Suc 0" and now = now and r = r and i = i and p = "Arrived True" and m = True, simplified, unfolded l]
  note 5 = state_of_step(2) [OF 4, where t = 0 and now = now and r = r and i = i and p = "Accepting True None" and ing = None, simplified]
  note 6 = state_of_step(2) [OF 5, where t = "Suc 0" and now = now and r = r and i = i and p = "Accepting True None" and ing = None, simplified]
  note 7 = state_of_step(3) [OF 6, where t = 0 and now = now and r = r and i = i and p = "Creating", simplified]
  note 8 = state_of_step(3) [OF 7, where t = "Suc 0" and now = now and r = r and i = i and p = "Creating", simplified]
  note 9 = state_of_step(4) [OF 8, where t = 0 and now = now and r = r and i = i and p = "Registering 0" and s = 0, simplified]
  note 10 = state_of_step(4) [OF 9, where t = "Suc 0" and now = now and r = r and i = i and p = "Registering (Suc 0)" and s = "Suc 0", simplified]
  note 11 = state_of_step(5) [OF 10, where t = "Suc 0" and now = now and r = r and i = i and p = "Serving (Suc 0)" and s = "Suc 0", simplified]
  note 12 = state_of_step(6) [OF 11, where t = "Suc 0" and now = now and r = r and i = i and p = "Leaving (Suc 0)" and s = "Suc 0", simplified]
  let ?tab = "clean_up [i \<mapsto> Suc 0] i (Suc 0)"
  have c: "?tab i = None" by (simp add: clean_up_def)
  show ?thesis
    using 12 c
    by (intro exI [of _ "state_of ?tab [0 \<mapsto> ?m (Serving 0), Suc 0 \<mapsto> ?m (Finished Closed)] (Suc (Suc 0))"]
        exI [of _ 0] exI [of _ "?m (Serving 0)"]) (simp add: state_of_def look_up_def)
qed

end
