(* ===== verification/ProxyCommand.thy ===== *)
theory ProxyCommand
  imports Endpoint NodeIdentity CliCert Sessions
begin

text \<open>
  The proxy command: \<open>cli-proxy.go\<close>, the choice of the role in \<open>cli-proxy-tty.go\<close>, the loading of the
  node in \<open>cli-proxy-aetherlight.go\<close>, its egress and its loops. Its ingress is in \<open>IngressServing\<close>.
\<close>

section \<open>The command\<close>

record cli_proxy =
  Forwards :: "bytes list"
  Allows :: "bytes list"
  SignalType :: bytes
  KeyFile :: bytes
  CertFile :: bytes
  CaCertFile :: bytes
  ICEServers :: "bytes list"

definition defaultSTUNs :: "bytes list" where
  "defaultSTUNs =
     [''stun:stun.l.google.com:19302'', ''stun:stun1.l.google.com:19302'', ''stun:stun2.l.google.com:19302'',
      ''stun:stun3.l.google.com:19302'', ''stun:stun4.l.google.com:19302'']"

text \<open>The servers the peer connection is made with.\<close>

definition ice_urls :: "cli_proxy \<Rightarrow> bytes list" where
  "ice_urls c = (let urls = ICEServers c in if length urls = 0 then defaultSTUNs else urls)"

text \<open>
  \<open>newWebRTCPeerConnection\<close>: a connection whose data channels are to be detached, with one group of
  servers. \<open>new_peer\<close> is the library's constructor: whether it makes one for these settings.
\<close>

definition newWebRTCPeerConnection :: "(bool \<Rightarrow> bytes list list \<Rightarrow> bool) \<Rightarrow> cli_proxy \<Rightarrow> bool" where
  "newWebRTCPeerConnection new_peer c = new_peer True [ice_urls c]"

datatype proxy_error =
    PeerConnectionFailed | ForwardInvalid endpoint_error | NoRole
  | KeyUnreadable | KeyInvalid pem_error | CertUnreadable | CertInvalid pem_error
  | CAUnreadable | CAInvalid ca_error | IdentityFailed id_error

text \<open>
  The role on a terminal: an ingress with its authorizer when anything is allowed, else an egress
  with its endpoints. \<open>peer_ok\<close> is whether the peer connection could be made.
\<close>

datatype role = IngressRole authorizer | EgressRole "endpoint list"

definition runTTY_role :: "bool \<Rightarrow> cli_proxy \<Rightarrow> (proxy_error, role) res" where
  "runTTY_role peer_ok c =
     (if \<not> peer_ok then Err PeerConnectionFailed
      else if 0 < length (Allows c) then Ok (IngressRole (NewBasicEndpointAuthorizer (Allows c)))
      else if 0 < length (Forwards c) then
        map_err ForwardInvalid (rbind (parse_forwards [] (Forwards c)) (\<lambda>eps. Ok (EgressRole eps)))
      else Err NoRole)"

text \<open>\<open>runTTY\<close>: the proxy of that role is started, \<open>start\<close> being what its \<open>Start\<close> comes to.\<close>

datatype 'e tty_run = TTYRefused proxy_error | TTYStartFailed role 'e | TTYDone | TTYPanic

definition runTTY :: "bool \<Rightarrow> cli_proxy \<Rightarrow> (role \<Rightarrow> 'e option) \<Rightarrow> 'e tty_run" where
  "runTTY peer_ok c start =
     (case runTTY_role peer_ok c of
        Err e \<Rightarrow> TTYRefused e
      | Panic \<Rightarrow> TTYPanic
      | Ok r \<Rightarrow> (case start r of Some e \<Rightarrow> TTYStartFailed r e | None \<Rightarrow> TTYDone))"

section \<open>The node\<close>

text \<open>
  The identity the aetherlight signalling runs with, from the three files. \<open>order\<close> is the order Go
  takes the pool in, \<open>clock\<close> the instants of loading.
\<close>

definition load_identity ::
    "extern \<Rightarrow> (nat \<Rightarrow> time) \<Rightarrow> (capool \<Rightarrow> bytes list) \<Rightarrow> fs \<Rightarrow> cli_proxy \<Rightarrow> (proxy_error, identity) res" where
  "load_identity E clock order fs c =
     (case read_file fs (KeyFile c) of
        None \<Rightarrow> Err KeyUnreadable
      | Some bk \<Rightarrow>
     (case fst (UnmarshalX25519PrivateKey bk) of
        Err e \<Rightarrow> Err (KeyInvalid e)
      | Panic \<Rightarrow> Panic
      | Ok key \<Rightarrow>
     (case read_file fs (CertFile c) of
        None \<Rightarrow> Err CertUnreadable
      | Some bc \<Rightarrow>
     (case fst (UnmarshalAetherportCertificateFromPEM E bc) of
        Err e \<Rightarrow> Err (CertInvalid e)
      | Panic \<Rightarrow> Panic
      | Ok cert \<Rightarrow>
     (case read_file fs (CaCertFile c) of
        None \<Rightarrow> Err CAUnreadable
      | Some bca \<Rightarrow>
     (case NewCAPoolFromPEM E clock bca of
        PoolPanic \<Rightarrow> Panic
      | PoolRet p (Some e) \<Rightarrow> Err (CAInvalid e)
      | PoolRet None None \<Rightarrow> Panic
      | PoolRet (Some capool) None \<Rightarrow>
          map_err IdentityFailed (NewIdentity E (order capool) key cert capool)))))))"

text \<open>Which of the two loops \<open>runAetherlight\<close> starts for a loaded node; without either it returns at once.\<close>

definition aetherlight_loops :: "cli_proxy \<Rightarrow> bool \<times> bool" where
  "aetherlight_loops c = (0 < length (Allows c), 0 < length (Forwards c))"

text \<open>\<open>Run\<close>: an unknown type of signalling does nothing and reports no error.\<close>

datatype run_plan = RunTTY "(proxy_error, role) res" | RunAetherlight "(proxy_error, identity) res" "bool \<times> bool" | RunNothing

definition CliProxy_Run ::
    "extern \<Rightarrow> (nat \<Rightarrow> time) \<Rightarrow> (capool \<Rightarrow> bytes list) \<Rightarrow> fs \<Rightarrow> bool \<Rightarrow> cli_proxy \<Rightarrow> run_plan" where
  "CliProxy_Run E clock order fs peer_ok c =
     (if SignalType c = ''tty'' then RunTTY (runTTY_role peer_ok c)
      else if SignalType c = ''aetherlight'' then
        RunAetherlight (load_identity E clock order fs c) (aetherlight_loops c)
      else RunNothing)"

section \<open>Running the node\<close>

text \<open>
  \<open>runAetherlightEgress\<close>: the websocket, the handshake, the peer connection and the forwards, which are
  parsed only now, on every attempt; then the session. A return closes what was opened, latest
  first; an error of the session ends the process and closes nothing.
\<close>

datatype egress_error = DialEgressFailed | EgressHandshake | EgressPeer | EgressForward endpoint_error

datatype egress_resource = EgressSocket | EgressMessenger | EgressConnection

datatype egress_run = EgressReturns "egress_error option" "egress_resource list" | EgressExits

definition runAetherlightEgress ::
    "cli_proxy \<Rightarrow> bool \<Rightarrow> bool \<Rightarrow> bool \<Rightarrow> (endpoint list \<Rightarrow> session_error option) \<Rightarrow> egress_run" where
  "runAetherlightEgress c dialled handshake_ok peer_ok start =
     (if \<not> dialled then EgressReturns (Some DialEgressFailed) []
      else if \<not> handshake_ok then EgressReturns (Some EgressHandshake) [EgressSocket]
      else if \<not> peer_ok then EgressReturns (Some EgressPeer) [EgressMessenger, EgressSocket]
      else
        let closes = [EgressConnection, EgressMessenger, EgressSocket] in
        case parse_forwards [] (Forwards c) of
          Err e \<Rightarrow> EgressReturns (Some (EgressForward e)) closes
        | Panic \<Rightarrow> EgressExits
        | Ok eps \<Rightarrow> (case start eps of Some e \<Rightarrow> EgressExits | None \<Rightarrow> EgressReturns None closes))"

text \<open>
  The loops of the goroutines of \<open>runAetherlight\<close>: every attempt that ends is followed by the test of
  the context, here its value at each test, and by another attempt. \<open>None\<close> when the values run out
  before the context is done.
\<close>

fun retry_loop :: "go_ctx list \<Rightarrow> nat option" where
  "retry_loop [] = None"
| "retry_loop (ctx # ctxs) = (if ctx \<noteq> None then Some 1 else map_option Suc (retry_loop ctxs))"

text \<open>
  \<open>runAetherlight\<close>: the loaded node, the loops it needs, and the wait for all of them; \<open>None\<close> when it does
  not return.
\<close>

definition runAetherlight ::
    "(proxy_error, identity) res \<Rightarrow> cli_proxy \<Rightarrow> go_ctx list \<Rightarrow> go_ctx list \<Rightarrow> (proxy_error, unit) res option" where
  "runAetherlight node c ingress_ctxs egress_ctxs =
     (case node of
        Err e \<Rightarrow> Some (Err e)
      | Panic \<Rightarrow> Some Panic
      | Ok i \<Rightarrow>
          (case aetherlight_loops c of
             (ingress, egress) \<Rightarrow>
               if (ingress \<longrightarrow> retry_loop ingress_ctxs \<noteq> None) \<and> (egress \<longrightarrow> retry_loop egress_ctxs \<noteq> None)
               then Some (Ok ()) else None))"

section \<open>Lemmas\<close>

lemma load_identity_Ok:
  "load_identity E clock order fs c = Ok i \<longleftrightarrow>
     (\<exists>bk key bc cert bca p.
        read_file fs (KeyFile c) = Some bk \<and> fst (UnmarshalX25519PrivateKey bk) = Ok key
      \<and> read_file fs (CertFile c) = Some bc \<and> fst (UnmarshalAetherportCertificateFromPEM E bc) = Ok cert
      \<and> read_file fs (CaCertFile c) = Some bca \<and> NewCAPoolFromPEM E clock bca = PoolRet (Some p) None
      \<and> NewIdentity E (order p) key cert p = Ok i)"
  by (auto simp: load_identity_def split: option.splits res.splits pool_ret.splits)

text \<open>The private key goes into the identity and nowhere else.\<close>

lemma NewIdentity_key:
  assumes "NewIdentity E ord k cert p = Ok i"
  shows "NewIdentity E ord k' cert p = Ok (i\<lparr>i_key := k'\<rparr>)"
proof -
  let ?i = "\<lambda>k. \<lparr>i_key = k, i_cert = cert, i_caPool = p, i_psk = [], i_payload = [], i_peerCert = None\<rparr>"
  obtain i1 where 1: "computePresharedKeys E ord (?i k) = Ok i1" "computePayload E i1 = Ok i"
    using assms by (auto simp: NewIdentity_def rbind_eq_Ok)
  have "computePresharedKeys E ord (?i k') = Ok (i1\<lparr>i_key := k'\<rparr>)"
    using 1(1) by (auto simp: computePresharedKeys_def rbind_eq_Ok split: res.splits)
  moreover have "computePayload E (i1\<lparr>i_key := k'\<rparr>) = Ok (i\<lparr>i_key := k'\<rparr>)"
    using 1(2) by (auto simp: computePayload_Ok)
  ultimately show ?thesis by (simp add: NewIdentity_def)
qed

lemma retry_loop_None: "retry_loop ctxs = None \<longleftrightarrow> set ctxs \<subseteq> {None}"
  by (induction ctxs) auto

text \<open>A node that loads runs until its context is done, or not at all.\<close>

lemma runAetherlight_returns:
  "runAetherlight (Ok i) c ictxs ectxs \<noteq> None \<longleftrightarrow>
     (Allows c = [] \<or> \<not> set ictxs \<subseteq> {None}) \<and> (Forwards c = [] \<or> \<not> set ectxs \<subseteq> {None})"
  by (auto simp: runAetherlight_def aetherlight_loops_def simp flip: retry_loop_None)

section \<open>Properties\<close>

text \<open>C38. One expired CA disables a node: with a sound key and certificate, and a file of sound roots of
  which one had expired when it was read, the proxy refuses to start with the error of the loader,
  although the loader has returned a pool with all of them.\<close>

theorem expired_ca_disables_node:
  assumes "list_all2 (root_pem E) cs pems" and "i < length cs" and "Expired (cs ! i) (clock i)"
    and "read_file fs (CaCertFile c) = Some (concat pems)"
    and "read_file fs (KeyFile c) = Some bk" and "fst (UnmarshalX25519PrivateKey bk) = Ok key"
    and "read_file fs (CertFile c) = Some bc" and "fst (UnmarshalAetherportCertificateFromPEM E bc) = Ok cert"
  shows "load_identity E clock order fs c = Err (CAInvalid ErrPoolExpired)
    \<and> (\<exists>p. NewCAPoolFromPEM E clock (concat pems) = PoolRet (Some p) (Some ErrPoolExpired)
         \<and> (\<forall>j<length cs. caMap p (cert_fp E (cs ! j)) \<noteq> None))"
proof -
  have "cs \<noteq> []" using assms(2) by auto
  note l = load_pool_roots [OF assms(1) this, of clock 0 NewCAPool False]
  let ?m = "map_of (rev (map (\<lambda>c. (cert_fp E c, c)) cs))"
  have pool: "NewCAPoolFromPEM E clock (concat pems) =
      PoolRet (Some (NewCAPool\<lparr>caMap := caMap NewCAPool ++ ?m\<rparr>)) (Some ErrPoolExpired)"
    using l assms(2,3) by (auto simp: NewCAPoolFromPEM_def)
  have "(caMap NewCAPool ++ ?m) (cert_fp E (cs ! j)) \<noteq> None" if "j < length cs" for j
    using that by (force simp: map_add_def map_of_eq_None_iff split: option.splits)
  then have "\<forall>j<length cs. caMap (NewCAPool\<lparr>caMap := caMap NewCAPool ++ ?m\<rparr>) (cert_fp E (cs ! j)) \<noteq> None"
    by (auto simp del: map_add_None)
  moreover have "load_identity E clock order fs c = Err (CAInvalid ErrPoolExpired)"
    using pool assms(4-8) by (simp add: load_identity_def)
  ultimately show ?thesis using pool by blast
qed

definition demo_cli :: cli_proxy where
  "demo_cli =
     \<lparr>Forwards = [], Allows = [''*''], SignalType = ''aetherlight'', KeyFile = ''key'', CertFile = ''cert'',
      CaCertFile = ''ca'', ICEServers = []\<rparr>"

theorem expired_ca_disables_node_witness:
  "\<exists>f. root_pem demo_env demo_root f
     \<and> load_identity demo_env (\<lambda>_. 2000) (\<lambda>_. [])
         [''key'' \<mapsto> \<lparr>f_mode = mode_private, f_data = MarshalX25519PrivateKey (replicate 32 CHR 0x01)\<rparr>,
          ''cert'' \<mapsto> \<lparr>f_mode = mode_public, f_data = f\<rparr>, ''ca'' \<mapsto> \<lparr>f_mode = mode_public, f_data = f\<rparr>]
         demo_cli = Err (CAInvalid ErrPoolExpired)"
proof -
  obtain f where f: "root_pem demo_env demo_root f" using demo_root_pem by blast
  then have l: "list_all2 (root_pem demo_env) [demo_root] [f]" by simp
  have x: "0 < length [demo_root]" "Expired ([demo_root] ! 0) ((\<lambda>_. 2000) (0 :: nat))"
    by (simp_all add: Expired_iff demo_ca_def)
  have k: "fst (UnmarshalX25519PrivateKey (MarshalX25519PrivateKey (replicate 32 CHR 0x01))) = Ok (replicate 32 CHR 0x01)"
    using x25519_private.load_save [of "replicate 32 CHR 0x01" "[]"] by (simp add: x25519KeyLen_def)
  have c: "fst (UnmarshalAetherportCertificateFromPEM demo_env f) = Ok demo_root"
    using f CertificateFromPEM_ToPEM [of demo_env demo_root f _ "[]"] by (auto simp: root_pem_def)
  let ?fs = "[''key'' \<mapsto> \<lparr>f_mode = mode_private, f_data = MarshalX25519PrivateKey (replicate 32 CHR 0x01)\<rparr>,
      ''cert'' \<mapsto> \<lparr>f_mode = mode_public, f_data = f\<rparr>, ''ca'' \<mapsto> \<lparr>f_mode = mode_public, f_data = f\<rparr>]"
  have r: "read_file ?fs (CaCertFile demo_cli) = Some (concat [f])"
    "read_file ?fs (KeyFile demo_cli) = Some (MarshalX25519PrivateKey (replicate 32 CHR 0x01))"
    "read_file ?fs (CertFile demo_cli) = Some f"
    by (simp_all add: read_file_def demo_cli_def)
  from f expired_ca_disables_node [OF l x r(1,2) k r(3) c] show ?thesis by blast
qed

text \<open>The key of a node is not checked against its certificate: when the node loads, it loads with
  any other private key in the key file, and is the same but for that key.\<close>

lemma key_not_checked:
  assumes "load_identity E clock order fs c = Ok i" and "length k = 32"
    and "KeyFile c \<noteq> CertFile c" and "KeyFile c \<noteq> CaCertFile c"
  shows "load_identity E clock order (fs(KeyFile c \<mapsto> \<lparr>f_mode = m, f_data = MarshalX25519PrivateKey k\<rparr>)) c
       = Ok (i\<lparr>i_key := k\<rparr>)"
proof -
  let ?fs = "fs(KeyFile c \<mapsto> \<lparr>f_mode = m, f_data = MarshalX25519PrivateKey k\<rparr>)"
  obtain bk key bc cert bca p where l: "read_file fs (CertFile c) = Some bc"
      "fst (UnmarshalAetherportCertificateFromPEM E bc) = Ok cert" "read_file fs (CaCertFile c) = Some bca"
      "NewCAPoolFromPEM E clock bca = PoolRet (Some p) None" "NewIdentity E (order p) key cert p = Ok i"
    using assms(1) unfolding load_identity_Ok by blast
  have k: "read_file ?fs (KeyFile c) = Some (MarshalX25519PrivateKey k)"
    "fst (UnmarshalX25519PrivateKey (MarshalX25519PrivateKey k)) = Ok k"
    using x25519_private.load_save [of k "[]"] assms(2) by (simp_all add: read_file_def x25519KeyLen_def)
  have o: "read_file ?fs (CertFile c) = Some bc" "read_file ?fs (CaCertFile c) = Some bca"
    using l(1,3) assms(3,4) by (simp_all add: read_file_def)
  show ?thesis
    unfolding load_identity_Ok
    using k o l(2,4) NewIdentity_key [OF l(5), of k] by blast
qed

end
