(* ===== verification/IngressServing.thy ===== *)
theory IngressServing
  imports ProxyCommand IngressSession
begin

text \<open>
  The loop of \<open>runAetherlightIngress\<close> in \<open>cli-proxy-aetherlight.go\<close> with the sessions it starts: the
  streams it accepts, the handshake and the peer connection of each, the closes it defers until it
  returns, and the goroutines that run \<open>IngressProxy.Start\<close>.
\<close>

section \<open>State\<close>

text \<open>What the function opens, the number being that of the accepted stream.\<close>

datatype resource = WebSock | Mux | Stream nat | Messenger nat | PeerConn nat

datatype serve_error = AcceptFailed | HandshakeError | PeerError

text \<open>
  The goroutine of the function: at \<open>Accept\<close>, in the handshake of the stream it has accepted, making its
  peer connection, running the deferred closes, or returned.
\<close>

datatype serve_pc = AtAccept | AtHandshake | AtPeer | Leaving serve_error | Left serve_error

text \<open>
  The goroutine of a session: waiting for the offer, with the contexts of the session and of its
  signalling and whether its peer connection is closed; or past the exchange of descriptions.
\<close>

datatype session = Waiting go_ctx go_ctx bool | Live ingress

text \<open>
  \<open>sv_defers\<close> is the stack of the deferred closes, \<open>sv_closed\<close> what was closed, the latest first.
  \<open>sv_exited\<close> says that \<open>log.Fatalln\<close> has ended the process.
\<close>

record serving =
  sv_pc :: serve_pc
  sv_defers :: "resource list"
  sv_closed :: "resource list"
  sv_sessions :: "session list"
  sv_exited :: bool

definition serving_started :: serving where
  "serving_started =
     \<lparr>sv_pc = AtAccept, sv_defers = [Mux, WebSock], sv_closed = [], sv_sessions = [], sv_exited = False\<rparr>"

definition defer_close :: "resource \<Rightarrow> serving \<Rightarrow> serving" where
  "defer_close r s = s\<lparr>sv_defers := r # sv_defers s\<rparr>"

text \<open>Closing a peer connection is seen by its session.\<close>

fun close_peer :: "session \<Rightarrow> session" where
  "close_peer (Waiting c sc p) = Waiting c sc True"
| "close_peer (Live \<sigma>) = Live (\<sigma>\<lparr>ig_peer_closed := True\<rparr>)"

definition set_session :: "nat \<Rightarrow> session \<Rightarrow> serving \<Rightarrow> serving" where
  "set_session k x s = s\<lparr>sv_sessions := (sv_sessions s)[k := x]\<rparr>"

definition close_next :: "serving \<Rightarrow> serving" where
  "close_next s =
     (case sv_defers s of
        [] \<Rightarrow> s
      | r # rs \<Rightarrow>
          s\<lparr>sv_defers := rs, sv_closed := r # sv_closed s,
            sv_sessions := (case r of
               PeerConn k \<Rightarrow> (if k < length (sv_sessions s)
                 then (sv_sessions s)[k := close_peer (sv_sessions s ! k)] else sv_sessions s)
             | _ \<Rightarrow> sv_sessions s)\<rparr>)"

text \<open>
  The exchange of descriptions of \<open>IngressProxy.Start\<close> after the offer, the calls answering \<open>u\<close>: the
  session goes on, or its error ends the process.
\<close>

definition take_offer :: "calls_env \<Rightarrow> go_ctx \<Rightarrow> go_ctx \<Rightarrow> bool \<Rightarrow> session option" where
  "take_offer u c sc p =
     (if snd (ingress_setup u) = None
      then Some (Live (ingress_started\<lparr>ig_ctx := c, ig_sctx := sc, ig_peer_closed := p\<rparr>)) else None)"

definition exit_process :: "serving \<Rightarrow> serving" where
  "exit_process s = s\<lparr>sv_exited := True\<rparr>"

section \<open>Steps\<close>

text \<open>
  The steps of the program: the deferred closes, the callbacks of closed peer connections, and the
  sessions. A session that gives up waiting and one that returns an error end the process.
\<close>

inductive serve_step :: "serving \<Rightarrow> serving \<Rightarrow> bool" where
  deferred: "\<not> sv_exited s \<Longrightarrow> sv_pc s = Leaving e \<Longrightarrow> sv_defers s \<noteq> [] \<Longrightarrow> serve_step s (close_next s)"
| left: "\<not> sv_exited s \<Longrightarrow> sv_pc s = Leaving e \<Longrightarrow> sv_defers s = [] \<Longrightarrow> serve_step s (s\<lparr>sv_pc := Left e\<rparr>)"
| callback: "\<not> sv_exited s \<Longrightarrow> k < length (sv_sessions s) \<Longrightarrow> sv_sessions s ! k = Waiting None sc True \<Longrightarrow>
    serve_step s (set_session k (Waiting (Some Canceled) (cancel_ctx sc Canceled) True) s)"
| give_up: "\<not> sv_exited s \<Longrightarrow> k < length (sv_sessions s) \<Longrightarrow> sv_sessions s ! k = Waiting c (Some e) p \<Longrightarrow>
    serve_step s (exit_process s)"
| session_callback: "\<not> sv_exited s \<Longrightarrow> k < length (sv_sessions s) \<Longrightarrow> sv_sessions s ! k = Live \<sigma> \<Longrightarrow>
    ig_peer_closed \<sigma> \<Longrightarrow> ig_ctx \<sigma> = None \<Longrightarrow> serve_step s (set_session k (Live (cancel_ingress \<sigma>)) s)"
| session_step: "\<not> sv_exited s \<Longrightarrow> k < length (sv_sessions s) \<Longrightarrow> sv_sessions s ! k = Live \<sigma> \<Longrightarrow>
    ingress_step \<sigma> \<sigma>' \<Longrightarrow> ig_main \<sigma> = Returned \<or> ig_main \<sigma>' \<noteq> Returned \<or> ig_err \<sigma>' = None \<Longrightarrow>
    serve_step s (set_session k (Live \<sigma>') s)"
| session_error: "\<not> sv_exited s \<Longrightarrow> k < length (sv_sessions s) \<Longrightarrow> sv_sessions s ! k = Live \<sigma> \<Longrightarrow>
    ingress_step \<sigma> \<sigma>' \<Longrightarrow> ig_main \<sigma> \<noteq> Returned \<Longrightarrow> ig_main \<sigma>' = Returned \<Longrightarrow> ig_err \<sigma>' \<noteq> None \<Longrightarrow>
    serve_step s (exit_process s)"

text \<open>
  The steps of the surroundings: a stream comes or the connection to the server breaks, the handshake
  and the peer connection succeed or fail, an offer comes in, the signalling of a session times out,
  and what happens to a session after that. \<open>allows\<close> are the endpoints of the command.
\<close>

inductive serve_event :: "bytes list \<Rightarrow> (bytes \<times> bytes \<Rightarrow> bool) \<Rightarrow> serving \<Rightarrow> serving \<Rightarrow> bool"
  for allows connect where
  accepted: "\<not> sv_exited s \<Longrightarrow> sv_pc s = AtAccept \<Longrightarrow>
    serve_event allows connect s (defer_close (Stream (length (sv_sessions s))) (s\<lparr>sv_pc := AtHandshake\<rparr>))"
| accept_failed: "\<not> sv_exited s \<Longrightarrow> sv_pc s = AtAccept \<Longrightarrow>
    serve_event allows connect s (s\<lparr>sv_pc := Leaving AcceptFailed\<rparr>)"
| handshaken: "\<not> sv_exited s \<Longrightarrow> sv_pc s = AtHandshake \<Longrightarrow>
    serve_event allows connect s (defer_close (Messenger (length (sv_sessions s))) (s\<lparr>sv_pc := AtPeer\<rparr>))"
| handshake_failed: "\<not> sv_exited s \<Longrightarrow> sv_pc s = AtHandshake \<Longrightarrow>
    serve_event allows connect s (s\<lparr>sv_pc := Leaving HandshakeError\<rparr>)"
| peer_made: "\<not> sv_exited s \<Longrightarrow> sv_pc s = AtPeer \<Longrightarrow>
    serve_event allows connect s (defer_close (PeerConn (length (sv_sessions s)))
      (s\<lparr>sv_pc := AtAccept, sv_sessions := sv_sessions s @ [Waiting None None False]\<rparr>))"
| peer_failed: "\<not> sv_exited s \<Longrightarrow> sv_pc s = AtPeer \<Longrightarrow>
    serve_event allows connect s (s\<lparr>sv_pc := Leaving PeerError\<rparr>)"
| offer: "\<not> sv_exited s \<Longrightarrow> k < length (sv_sessions s) \<Longrightarrow> sv_sessions s ! k = Waiting c sc p \<Longrightarrow>
    su_received u = Some sdp \<Longrightarrow>
    serve_event allows connect s
      (case take_offer u c sc p of Some x \<Rightarrow> set_session k x s | None \<Rightarrow> exit_process s)"
| timeout: "\<not> sv_exited s \<Longrightarrow> k < length (sv_sessions s) \<Longrightarrow> sv_sessions s ! k = Waiting c sc p \<Longrightarrow>
    serve_event allows connect s (set_session k (Waiting c (cancel_ctx sc DeadlineExceeded) p) s)"
| session_event: "\<not> sv_exited s \<Longrightarrow> k < length (sv_sessions s) \<Longrightarrow> sv_sessions s ! k = Live \<sigma> \<Longrightarrow>
    ingress_event (Some (NewBasicEndpointAuthorizer allows)) connect \<sigma> \<sigma>' \<Longrightarrow>
    serve_event allows connect s (set_session k (Live \<sigma>') s)"

inductive serve_reach :: "bytes list \<Rightarrow> (bytes \<times> bytes \<Rightarrow> bool) \<Rightarrow> serving \<Rightarrow> bool" for allows connect where
  start: "serve_reach allows connect serving_started"
| step: "serve_reach allows connect s \<Longrightarrow> serve_step s s' \<Longrightarrow> serve_reach allows connect s'"
| event: "serve_reach allows connect s \<Longrightarrow> serve_event allows connect s s' \<Longrightarrow> serve_reach allows connect s'"

section \<open>Resources\<close>

text \<open>What \<open>n\<close> started sessions and the stream in hand keep open, the latest first.\<close>

definition opened :: "nat \<Rightarrow> resource list" where
  "opened n = concat (map (\<lambda>k. [PeerConn k, Messenger k, Stream k]) (rev [0..<n])) @ [Mux, WebSock]"

lemma opened_Suc: "opened (Suc n) = PeerConn n # Messenger n # Stream n # opened n"
  by (simp add: opened_def)

fun in_hand_at :: "serve_error \<Rightarrow> nat \<Rightarrow> resource list" where
  "in_hand_at AcceptFailed n = []"
| "in_hand_at HandshakeError n = [Stream n]"
| "in_hand_at PeerError n = [Messenger n, Stream n]"

fun in_hand :: "serve_pc \<Rightarrow> nat \<Rightarrow> resource list" where
  "in_hand AtAccept n = in_hand_at AcceptFailed n"
| "in_hand AtHandshake n = in_hand_at HandshakeError n"
| "in_hand AtPeer n = in_hand_at PeerError n"
| "in_hand (Leaving e) n = in_hand_at e n"
| "in_hand (Left e) n = in_hand_at e n"

fun leaving :: "serve_pc \<Rightarrow> bool" where
  "leaving (Leaving e) = True"
| "leaving (Left e) = True"
| "leaving pc = False"

fun peer_is_closed :: "session \<Rightarrow> bool" where
  "peer_is_closed (Waiting c sc p) = p"
| "peer_is_closed (Live \<sigma>) = ig_peer_closed \<sigma>"

definition contexts_ok :: "go_ctx \<Rightarrow> go_ctx \<Rightarrow> bool" where
  "contexts_ok c sc \<longleftrightarrow> c = None \<and> sc \<noteq> Some Canceled \<or> c = Some Canceled \<and> sc \<noteq> None"

fun session_ok :: "bytes list \<Rightarrow> (bytes \<times> bytes \<Rightarrow> bool) \<Rightarrow> session \<Rightarrow> bool" where
  "session_ok allows connect (Waiting c sc p) = contexts_ok c sc"
| "session_ok allows connect (Live \<sigma>) = ingress_reach (Some (NewBasicEndpointAuthorizer allows)) connect \<sigma>"

definition serving_ok :: "bytes list \<Rightarrow> (bytes \<times> bytes \<Rightarrow> bool) \<Rightarrow> serving \<Rightarrow> bool" where
  "serving_ok allows connect s \<longleftrightarrow>
     rev (sv_closed s) @ sv_defers s = in_hand (sv_pc s) (length (sv_sessions s)) @ opened (length (sv_sessions s))
   \<and> (\<not> leaving (sv_pc s) \<longrightarrow> sv_closed s = [])
   \<and> (\<forall>e. sv_pc s = Left e \<longrightarrow> sv_defers s = [])
   \<and> (\<forall>k<length (sv_sessions s). PeerConn k \<in> set (sv_closed s) \<longrightarrow> peer_is_closed (sv_sessions s ! k))
   \<and> (\<forall>x\<in>set (sv_sessions s). session_ok allows connect x)"

text \<open>A session's own step never opens its peer connection again.\<close>

lemma ingress_step_keeps_closed: "ingress_step \<sigma> \<sigma>' \<Longrightarrow> ig_peer_closed \<sigma> \<Longrightarrow> ig_peer_closed \<sigma>'"
  by (induction rule: ingress_step.induct) (simp_all add: set_in_tunnel_def)

lemma ingress_event_keeps_closed: "ingress_event a connect \<sigma> \<sigma>' \<Longrightarrow> ig_peer_closed \<sigma> \<Longrightarrow> ig_peer_closed \<sigma>'"
  by (induction rule: ingress_event.induct)
    (simp_all add: set_in_tunnel_def cancel_ingress_def new_channel_def split: dc_action.split)

lemma set_session_ok:
  assumes "serving_ok allows connect s" and "k < length (sv_sessions s)"
    and "peer_is_closed (sv_sessions s ! k) \<Longrightarrow> peer_is_closed x" and "session_ok allows connect x"
  shows "serving_ok allows connect (set_session k x s)"
  using assms set_update_subset_insert [of "sv_sessions s" k x]
  by (auto simp: serving_ok_def set_session_def nth_list_update)

lemma exit_process_ok: "serving_ok allows connect s \<Longrightarrow> serving_ok allows connect (exit_process s)"
  by (simp add: serving_ok_def exit_process_def)

lemma nth_session_ok:
  "serving_ok allows connect s \<Longrightarrow> k < length (sv_sessions s) \<Longrightarrow> session_ok allows connect (sv_sessions s ! k)"
  by (simp add: serving_ok_def)

text \<open>A session starts in a state the ingress session reaches from its own start.\<close>

lemma started_reach:
  assumes "contexts_ok c sc"
  shows "ingress_reach a connect (ingress_started\<lparr>ig_ctx := c, ig_sctx := sc, ig_peer_closed := p\<rparr>)"
proof -
  have 1: "ingress_reach a connect (ingress_started\<lparr>ig_sctx := d\<rparr>)" if "d \<noteq> Some Canceled" for d
    using ingress_reach.start [of a connect] ingress_reach.event [OF ingress_reach.start ingress_event.timeout, of a connect] that
    by (cases d rule: option.exhaust; cases "the d") (simp_all add: ingress_started_def cancel_ctx_def)
  have 2: "ingress_reach a connect (ingress_started\<lparr>ig_sctx := d, ig_peer_closed := p\<rparr>)" if "d \<noteq> Some Canceled" for d
    using 1 [OF that] ingress_reach.event [OF 1 [OF that] ingress_event.peer_disconnected]
    by (cases p) (simp_all add: ingress_started_def)
  show ?thesis
  proof (cases c)
    case None
    with assms 2 [of sc] show ?thesis by (simp add: contexts_ok_def ingress_started_def)
  next
    case (Some e)
    let ?d = "if sc = Some Canceled then None else sc"
    have "ingress_reach a connect (cancel_ingress (ingress_started\<lparr>ig_sctx := ?d, ig_peer_closed := p\<rparr>))"
      by (rule ingress_reach.event [OF 2 ingress_event.parent]) simp
    with assms Some show ?thesis
      by (auto simp: contexts_ok_def cancel_ingress_def cancel_ctx_def ingress_started_def split: if_splits option.splits)
  qed
qed

lemma close_peer_ok: "session_ok allows connect x \<Longrightarrow> session_ok allows connect (close_peer x)"
  using ingress_reach.event [OF _ ingress_event.peer_disconnected] by (cases x) simp_all

lemma close_peer_closed [simp]: "peer_is_closed (close_peer x)"
  by (cases x) simp_all

lemma cancel_ingress_closed [simp]: "ig_peer_closed (cancel_ingress \<sigma>) = ig_peer_closed \<sigma>"
  by (simp add: cancel_ingress_def)

lemma close_next_ok:
  assumes "serving_ok allows connect s" and "sv_pc s = Leaving e" and "sv_defers s \<noteq> []"
  shows "serving_ok allows connect (close_next s)"
proof -
  obtain r rs where d: "sv_defers s = r # rs" using assms(3) by (cases "sv_defers s") auto
  let ?xs = "sv_sessions s"
  have n: "length (sv_sessions (close_next s)) = length ?xs"
    by (simp add: close_next_def d split: resource.splits)
  have c: "peer_is_closed (sv_sessions (close_next s) ! k)"
    if "k < length ?xs" "PeerConn k = r \<or> peer_is_closed (?xs ! k)" for k
    using that by (auto simp: close_next_def d nth_list_update split: resource.splits)
  have o: "session_ok allows connect x" if "x \<in> set (sv_sessions (close_next s))" for x
    using that assms(1) set_update_subset_insert [of ?xs]
    by (fastforce simp: serving_ok_def close_next_def d intro: close_peer_ok split: resource.splits if_splits)
  show ?thesis
    using assms(1,2) c o n by (auto simp: serving_ok_def close_next_def d)
qed

lemma serve_step_ok: "serve_step s s' \<Longrightarrow> serving_ok allows connect s \<Longrightarrow> serving_ok allows connect s'"
proof (induction rule: serve_step.induct)
  case (deferred s e)
  then show ?case by (intro close_next_ok)
next
  case (left s e)
  then show ?case by (simp add: serving_ok_def)
next
  case (callback s k sc)
  then show ?case
    using nth_session_ok [of allows connect s k]
    by (intro set_session_ok) (auto simp: contexts_ok_def cancel_ctx_def split: option.splits)
next
  case (session_callback s k \<sigma>)
  then show ?case
    using nth_session_ok [of allows connect s k]
    by (intro set_session_ok) (auto intro: ingress_reach.event [OF _ ingress_event.parent])
next
  case (session_step s k \<sigma> \<sigma>')
  then show ?case
    using nth_session_ok [of allows connect s k]
    by (intro set_session_ok) (auto intro: ingress_step_keeps_closed ingress_reach.step)
qed (simp_all add: exit_process_ok)

lemma serve_event_ok: "serve_event allows connect s s' \<Longrightarrow> serving_ok allows connect s \<Longrightarrow> serving_ok allows connect s'"
proof (induction rule: serve_event.induct)
  case (peer_made s)
  then show ?case
    by (auto simp: serving_ok_def defer_close_def opened_Suc nth_append contexts_ok_def less_Suc_eq)
next
  case (offer s k c sc p u sdp)
  then show ?case
    using nth_session_ok [of allows connect s k]
    by (auto simp: take_offer_def exit_process_ok intro!: set_session_ok started_reach)
next
  case (timeout s k c sc p)
  then show ?case
    using nth_session_ok [of allows connect s k]
    by (intro set_session_ok) (auto simp: contexts_ok_def cancel_ctx_def split: option.splits)
next
  case (session_event s k \<sigma> \<sigma>')
  then show ?case
    using nth_session_ok [of allows connect s k]
    by (intro set_session_ok) (auto intro: ingress_event_keeps_closed ingress_reach.event)
qed (auto simp: serving_ok_def defer_close_def)

lemma serve_reach_ok: "serve_reach allows connect s \<Longrightarrow> serving_ok allows connect s"
proof (induction rule: serve_reach.induct)
  case start
  show ?case by (simp add: serving_ok_def serving_started_def opened_def)
qed (blast intro: serve_step_ok serve_event_ok)+

section \<open>Leaving with sessions that wait\<close>

text \<open>A session whose peer connection is closed while it waits for its offer, and the program's own steps.\<close>

definition doomed :: "nat \<Rightarrow> serving \<Rightarrow> bool" where
  "doomed k s \<longleftrightarrow> k < length (sv_sessions s) \<and> (\<exists>c sc. sv_sessions s ! k = Waiting c sc True \<and> (c \<noteq> None \<longrightarrow> sc \<noteq> None))"

lemma doomed_step: "serve_step s s' \<Longrightarrow> doomed k s \<Longrightarrow> doomed k s'"
proof (induction rule: serve_step.induct)
  case (deferred s e)
  then show ?case
    by (auto simp: doomed_def close_next_def nth_list_update split: list.splits resource.splits)
qed (auto simp: doomed_def set_session_def exit_process_def nth_list_update cancel_ctx_def split: option.splits)

lemma doomed_steps: "serve_step\<^sup>*\<^sup>* s s' \<Longrightarrow> doomed k s \<Longrightarrow> doomed k s'"
  by (induction rule: rtranclp_induct) (auto intro: doomed_step)

text \<open>Its callback cancels its contexts and it gives up: the process ends within two of its steps.\<close>

lemma doomed_exits:
  assumes "doomed k s" and "\<not> sv_exited s"
  shows "\<exists>s'. (serve_step s s' \<or> (\<exists>r. serve_step s r \<and> serve_step r s')) \<and> sv_exited s'"
proof -
  obtain c sc where k: "k < length (sv_sessions s)" "sv_sessions s ! k = Waiting c sc True" "c \<noteq> None \<longrightarrow> sc \<noteq> None"
    using assms(1) by (auto simp: doomed_def)
  have x: "sv_exited (exit_process r)" for r by (simp add: exit_process_def)
  show ?thesis
  proof (cases sc)
    case (Some e)
    then show ?thesis using serve_step.give_up [OF assms(2) k(1), of c e True] k(2) x by blast
  next
    case None
    with k have 1: "serve_step s (set_session k (Waiting (Some Canceled) (Some Canceled) True) s)"
      using serve_step.callback [OF assms(2) k(1), of sc] by (simp add: cancel_ctx_def)
    have 2: "serve_step (set_session k (Waiting (Some Canceled) (Some Canceled) True) s)
        (exit_process (set_session k (Waiting (Some Canceled) (Some Canceled) True) s))"
      using assms(2) k(1) by (intro serve_step.give_up) (auto simp: set_session_def)
    from 1 2 x show ?thesis by blast
  qed
qed

section \<open>What the sessions admit, and what a silent client does\<close>

text \<open>The sessions of a serving ingress are those of \<open>IngressSession\<close>: their tunnels are admitted.\<close>

lemma serving_admits:
  assumes "serve_reach allows connect s" and "Live \<sigma> \<in> set (sv_sessions s)"
  shows "ingress_ok (NewBasicEndpointAuthorizer allows) \<sigma>"
  using ingress_reach_ok [of "NewBasicEndpointAuthorizer allows"] serve_reach_ok [OF assms(1)] assms(2)
  by (fastforce simp: serving_ok_def)

text \<open>While a handshake lasts no session is started, whatever else happens, and no step of the program
  ends the handshake: a client that accepts the stream and stays silent keeps all others out.\<close>

lemma silent_client_blocks:
  assumes "(\<lambda>s s'. serve_step s s' \<or> serve_event allows connect s s' \<and> sv_pc s' = AtHandshake)\<^sup>*\<^sup>* s s'"
    and "sv_pc s = AtHandshake"
  shows "sv_pc s' = AtHandshake \<and> length (sv_sessions s') = length (sv_sessions s)"
  using assms(1)
proof (induction rule: rtranclp_induct)
  case (step r r')
  have "sv_pc r' = AtHandshake \<and> length (sv_sessions r') = length (sv_sessions r)" if "serve_step r r'"
    using that step.IH
    by (induction rule: serve_step.induct) (simp_all add: set_session_def exit_process_def)
  moreover have "length (sv_sessions r') = length (sv_sessions r)" if "serve_event allows connect r r'"
    using that step.IH
    by (induction rule: serve_event.induct)
      (auto simp: set_session_def exit_process_def defer_close_def split: option.splits)
  ultimately show ?case using step.hyps(2) step.IH by auto
qed (simp add: assms(2))

section \<open>A run\<close>

text \<open>A session waits for its offer when the handshake of the next stream fails.\<close>

definition demo_left :: serving where
  "demo_left =
     \<lparr>sv_pc = Left HandshakeError, sv_defers = [],
      sv_closed = [WebSock, Mux, Stream 0, Messenger 0, PeerConn 0, Stream 1],
      sv_sessions = [Waiting None None True], sv_exited = False\<rparr>"

lemma demo_left_reach: "serve_reach allows connect demo_left"
proof -
  let ?s = "\<lambda>pc ds cs xs. \<lparr>sv_pc = pc, sv_defers = ds, sv_closed = cs, sv_sessions = xs, sv_exited = False\<rparr>"
  let ?w = "Waiting None None False" and ?d = "Waiting None None True"
  note close = serve_reach.step [OF _ serve_step.deferred]
  have "serve_reach allows connect (?s AtHandshake [Stream 0, Mux, WebSock] [] [])"
    using serve_reach.event [OF serve_reach.start serve_event.accepted, of allows connect]
    by (simp add: serving_started_def defer_close_def)
  from serve_reach.event [OF this serve_event.handshaken]
  have "serve_reach allows connect (?s AtPeer [Messenger 0, Stream 0, Mux, WebSock] [] [])"
    by (simp add: defer_close_def)
  from serve_reach.event [OF this serve_event.peer_made]
  have "serve_reach allows connect (?s AtAccept [PeerConn 0, Messenger 0, Stream 0, Mux, WebSock] [] [?w])"
    by (simp add: defer_close_def)
  from serve_reach.event [OF this serve_event.accepted]
  have "serve_reach allows connect
      (?s AtHandshake [Stream 1, PeerConn 0, Messenger 0, Stream 0, Mux, WebSock] [] [?w])"
    by (simp add: defer_close_def)
  from serve_reach.event [OF this serve_event.handshake_failed]
  have "serve_reach allows connect
      (?s (Leaving HandshakeError) [Stream 1, PeerConn 0, Messenger 0, Stream 0, Mux, WebSock] [] [?w])"
    by simp
  from close [OF this]
  have "serve_reach allows connect
      (?s (Leaving HandshakeError) [PeerConn 0, Messenger 0, Stream 0, Mux, WebSock] [Stream 1] [?w])"
    by (simp add: close_next_def)
  from close [OF this]
  have "serve_reach allows connect
      (?s (Leaving HandshakeError) [Messenger 0, Stream 0, Mux, WebSock] [PeerConn 0, Stream 1] [?d])"
    by (simp add: close_next_def)
  from close [OF this]
  have "serve_reach allows connect
      (?s (Leaving HandshakeError) [Stream 0, Mux, WebSock] [Messenger 0, PeerConn 0, Stream 1] [?d])"
    by (simp add: close_next_def)
  from close [OF this]
  have "serve_reach allows connect
      (?s (Leaving HandshakeError) [Mux, WebSock] [Stream 0, Messenger 0, PeerConn 0, Stream 1] [?d])"
    by (simp add: close_next_def)
  from close [OF this]
  have "serve_reach allows connect
      (?s (Leaving HandshakeError) [WebSock] [Mux, Stream 0, Messenger 0, PeerConn 0, Stream 1] [?d])"
    by (simp add: close_next_def)
  from close [OF this]
  have "serve_reach allows connect
      (?s (Leaving HandshakeError) [] [WebSock, Mux, Stream 0, Messenger 0, PeerConn 0, Stream 1] [?d])"
    by (simp add: close_next_def)
  from serve_reach.step [OF this serve_step.left] show ?thesis by (simp add: demo_left_def)
qed

section \<open>Properties\<close>



text \<open>C16. One failed handshake can end the whole process. When the ingress has returned, for whatever
  reason, and some session is still waiting for its offer, the process is on its way out: its peer
  connection is closed, so its context is cancelled, so its \<open>Start\<close> returns an error, which is fatal.
  Wherever the program's own steps lead, as long as the process lives two more steps can end it, and
  they cannot come to rest before it has ended.\<close>

theorem leaving_kills_waiting_sessions:
  assumes "serve_reach allows connect s" and "sv_pc s = Left e"
    and "k < length (sv_sessions s)" and "sv_sessions s ! k = Waiting c sc p"
    and "serve_step\<^sup>*\<^sup>* s s'"
  shows "sv_exited s' \<or> (\<exists>r. (serve_step s' r \<or> (\<exists>q. serve_step s' q \<and> serve_step q r)) \<and> sv_exited r)"
proof -
  have ok: "serving_ok allows connect s" by (rule serve_reach_ok [OF assms(1)])
  have "PeerConn k \<in> set (opened (length (sv_sessions s)))" using assms(3) by (auto simp: opened_def)
  then have "PeerConn k \<in> set (rev (sv_closed s) @ sv_defers s)" using ok by (auto simp: serving_ok_def)
  then have "PeerConn k \<in> set (sv_closed s)" using ok assms(2) by (auto simp: serving_ok_def)
  then have "peer_is_closed (sv_sessions s ! k)" using ok assms(3) by (simp add: serving_ok_def)
  then have "doomed k s"
    using nth_session_ok [OF ok assms(3)] assms(3,4) by (auto simp: doomed_def contexts_ok_def)
  from doomed_exits [OF doomed_steps [OF assms(5) this]] show ?thesis by blast
qed

theorem leaving_kills_waiting_sessions_witness:
  "\<exists>s. serve_reach [''*''] (\<lambda>_. True) s \<and> sv_closed s \<noteq> [] \<and> \<not> sv_exited s
     \<and> (\<exists>r. serve_step\<^sup>*\<^sup>* s r \<and> sv_exited r)"
proof -
  have w: "0 < length (sv_sessions demo_left)" "sv_sessions demo_left ! 0 = Waiting None None True"
    and l: "sv_pc demo_left = Left HandshakeError" "\<not> sv_exited demo_left" "sv_closed demo_left \<noteq> []"
    by (simp_all add: demo_left_def)
  from leaving_kills_waiting_sessions [OF demo_left_reach l(1) w rtranclp.rtrancl_refl] l(2)
  obtain r where "serve_step\<^sup>*\<^sup>* demo_left r" "sv_exited r"
    by (meson rtranclp.rtrancl_into_rtrancl rtranclp.rtrancl_refl)
  with l demo_left_reach [of "[''*'']" "\<lambda>_. True"] show ?thesis by blast
qed

end
