(* ===== verification/IngressClient.thy ===== *)
theory IngressClient
  imports SignalServer IngressServing
begin

text \<open>
  One attempt of \<open>runAetherlightIngress\<close> to connect: the server's public key is fetched over HTTP, a token
  made with it, the websocket opened and served. Beside it the answers of
  \<open>NewAetherlightHandler\<close> to the two requests, so that client and server can be put together.

  Outside: the HTTP client and the router of the server. \<open>http_answer\<close> is what the request for the
  key comes to, \<open>route\<close> the path parameter the router takes from a path.
\<close>

section \<open>The client\<close>

datatype http_answer = RequestRefused | NoAnswer | BrokenBody | Answer nat bytes

datatype token_error = ConstructFailed | SendingFailed | BodyUnread

definition public_key_path :: bytes where "public_key_path = ''/public-key''"
definition ingresses_path :: bytes where "ingresses_path = ''/ingresses/''"

text \<open>The body of the answer is the key, whatever its status.\<close>

definition fetch_key :: "http_answer \<Rightarrow> (token_error, bytes) res" where
  "fetch_key ans =
     (case ans of
        RequestRefused \<Rightarrow> Err ConstructFailed
      | NoAnswer \<Rightarrow> Err SendingFailed
      | BrokenBody \<Rightarrow> Err BodyUnread
      | Answer status res_body \<Rightarrow> Ok res_body)"

datatype ingress_error = TokenFailed token_error | WebsocketFailed | MuxFailed

text \<open>
  \<open>get url\<close> is the answer to a request for \<open>url\<close>, and \<open>dial url r\<close> whether the websocket opens with the
  headers \<open>r\<close>. The result is the state the serving starts in.
\<close>

definition runAetherlightIngress ::
    "auth_env \<Rightarrow> bytes \<Rightarrow> (bytes \<Rightarrow> http_answer) \<Rightarrow> (bytes \<Rightarrow> request \<Rightarrow> bool) \<Rightarrow> bool \<Rightarrow> identity
     \<Rightarrow> bytes \<Rightarrow> time \<Rightarrow> (ingress_error, serving) res" where
  "runAetherlightIngress A base get dial mux_ok i data date =
     rbind (map_err TokenFailed (fetch_key (get (base @ public_key_path)))) (\<lambda>res_body.
       let ingressID = ingress_id A (d_PublicKey (Details (i_cert i)));
           url = base @ ingresses_path @ ingressID in
       if \<not> dial url (ingress_request A data res_body (i_key i) date) then Err WebsocketFailed
       else if \<not> mux_ok then Err MuxFailed
       else Ok serving_started)"

section \<open>The server\<close>

text \<open>Its key pair, and whether a request for an ingress is upgraded.\<close>

definition serve_public_key :: "auth_env \<Rightarrow> bytes \<Rightarrow> bytes \<Rightarrow> bytes \<Rightarrow> http_answer" where
  "serve_public_key A key base url =
     (if url = base @ public_key_path then Answer 200 (box_public A key) else Answer 404 [])"

definition server_upgrades ::
    "auth_env \<Rightarrow> bytes \<Rightarrow> time \<Rightarrow> (bytes \<rightharpoonup> sess) \<Rightarrow> (bytes \<rightharpoonup> bytes) \<Rightarrow> bytes \<Rightarrow> request \<Rightarrow> bool" where
  "server_upgrades A key now tab route path r =
     (case route path of
        None \<Rightarrow> False
      | Some ingressID \<Rightarrow>
          (case start_point A key now r ingressID of
             Arrived m \<Rightarrow> (case look_up tab m ingressID of point.Accepting _ _ \<Rightarrow> True | _ \<Rightarrow> False)
           | _ \<Rightarrow> False))"

text \<open>A sealed box is longer than its plain text, so a token is never empty.\<close>

definition seal_overhead :: "auth_env \<Rightarrow> bool" where
  "seal_overhead A \<longleftrightarrow> (\<forall>m n p k. length m < length (box_seal A m n p k))"

lemma token_not_empty: "seal_overhead A \<Longrightarrow> h_x_token (ingress_request A data b k date) \<noteq> []"
proof -
  assume "seal_overhead A"
  then have "box_seal A m n p k' \<noteq> []" for m n p k'
    by (metis length_0_conv not_less_zero seal_overhead_def)
  moreover have "url_encode s = [] \<longleftrightarrow> s = []" for s by (cases s rule: url_encode.cases) simp_all
  ultimately show ?thesis by (simp add: ingress_request_def aetherlightToken_def)
qed

lemma server_upgrades_ingress:
  "h_x_token r \<noteq> [] \<Longrightarrow> route path = Some i \<Longrightarrow>
     server_upgrades A key now tab route path r \<longleftrightarrow> authenticate A now r key i = Ok () \<and> tab i = None"
  by (auto simp: server_upgrades_def start_point_def look_up_def Let_def split: res.splits)

section \<open>Client and server together\<close>

text \<open>C26. An ingress and the server work together: the node fetches the server's key, and its attempt gets
  to serving exactly when the server's clock is within five seconds of the second in which the
  token was dated and the table has no ingress of that id; otherwise the attempt ends as a failed
  dial, which the caller retries.\<close>

theorem ingress_attempt_served:
  assumes "auth_laws A" and "seal_overhead A" and "length (i_key i) = 32"
    and "d_PublicKey (Details (i_cert i)) = box_public A (i_key i)"
    and "length (box_public A (i_key i)) = 32" and "length (box_public A server_key) = 32"
    and "me = ingress_id A (d_PublicKey (Details (i_cert i)))" and "route (ingresses_path @ me) = Some me"
    and "\<And>url r. dial url r = server_upgrades A server_key now tab route (drop (length base) url) r"
  shows "runAetherlightIngress A base (serve_public_key A server_key base) dial True i data date
     = (if \<bar>now - date div 1000000000 * 1000000000\<bar> \<le> 5 * 1000000000 \<and> tab me = None
        then Ok serving_started else Err WebsocketFailed)"
proof -
  let ?r = "ingress_request A data (box_public A server_key) (i_key i) date"
  have "dial (base @ ingresses_path @ me) ?r \<longleftrightarrow> authenticate A now ?r server_key me = Ok () \<and> tab me = None"
    using server_upgrades_ingress [of ?r route "ingresses_path @ me" me A server_key now tab]
      token_not_empty [OF assms(2)] assms(8,9) by simp
  then have "dial (base @ ingresses_path @ me) ?r
      \<longleftrightarrow> \<bar>now - date div 1000000000 * 1000000000\<bar> \<le> 5 * 1000000000 \<and> tab me = None"
    using honest_ingress_authenticated [OF assms(1,3,5,6), of now data date] assms(4,7) by simp
  then show ?thesis
    using assms(7) by (simp add: runAetherlightIngress_def serve_public_key_def fetch_key_def)
qed

theorem ingress_attempt_served_witness:
  "runAetherlightIngress demo_auth ''https://a''
     (serve_public_key demo_auth (replicate 32 CHR 0x02) ''https://a'')
     (\<lambda>url r. server_upgrades demo_auth (replicate 32 CHR 0x02) 4000000000 Map.empty
        (\<lambda>p. Some (drop (length ingresses_path) p)) (drop (length ''https://a'') url) r) True
     \<lparr>i_key = replicate 32 CHR 0x01,
      i_cert = demo_ca\<lparr>Details := Details demo_ca\<lparr>d_PublicKey := replicate 32 CHR 0x01\<rparr>\<rparr>,
      i_caPool = NewCAPool, i_psk = [], i_payload = [], i_peerCert = None\<rparr>
     ''data'' 1500000000 = Ok serving_started"
proof -
  let ?i = "\<lparr>i_key = replicate 32 CHR 0x01,
      i_cert = demo_ca\<lparr>Details := Details demo_ca\<lparr>d_PublicKey := replicate 32 CHR 0x01\<rparr>\<rparr>,
      i_caPool = NewCAPool, i_psk = [], i_payload = [], i_peerCert = None\<rparr>"
  have p: "box_public demo_auth (replicate 32 c) = replicate 32 c" "length (box_public demo_auth k) = 32" for c k
    by (simp_all add: demo_auth_def)
  have s: "seal_overhead demo_auth" by (simp add: seal_overhead_def demo_auth_def)
  have k: "length (i_key ?i) = 32" "d_PublicKey (Details (i_cert ?i)) = box_public demo_auth (i_key ?i)"
    using p(1) [of "CHR 0x01"] by simp_all
  show ?thesis
    using ingress_attempt_served [OF demo_auth_laws s k p(2) p(2) refl, of "\<lambda>p. Some (drop (length ingresses_path) p)"
        "\<lambda>url r. server_upgrades demo_auth (replicate 32 CHR 0x02) 4000000000 Map.empty
           (\<lambda>p. Some (drop (length ingresses_path) p)) (drop (length ''https://a'') url) r"
        "replicate 32 CHR 0x02" 4000000000 Map.empty "''https://a''" "''data''" 1500000000]
    by simp
qed

end
