(* ===== verification/FramedMessenger.thy ===== *)
theory FramedMessenger
  imports Handshake ChunkedIO
begin

text \<open>
  The noised messenger of \<open>messenger-noised.go\<close> on the chunked one of \<open>messenger-chunked-io.go\<close>, as the
  two commands put them together: the handshake and the encrypted messages as frames on a
  connection.

  The locale \<open>messenger_refines\<close> says when one messenger stands for another: what the abstract one
  reads and writes successfully the concrete one does too. Its lemmas carry the four operations of
  the noised messenger over, and it is interpreted for the frames against the queues of messages
  the handshake was verified with.
\<close>

text \<open>The cipher texts of a list of messages, up to the first that cannot be encrypted.\<close>

fun cipher_texts :: "('h, 'c) noise_lib \<Rightarrow> bytes list \<Rightarrow> 'c \<Rightarrow> bytes list" where
  "cipher_texts N [] k = []"
| "cipher_texts N (m # ms) k =
     (case Encrypt N k m of
        (d, Some ct) \<Rightarrow> ct # cipher_texts N ms d
      | _ \<Rightarrow> [])"

section \<open>One messenger for another\<close>

locale messenger_refines =
  fixes A :: "('a, 'e) messenger"
    and C :: "('c, 'f) messenger"
    and rel :: "'a \<Rightarrow> 'c \<Rightarrow> bool"
    and good :: "bytes \<Rightarrow> bool"
  assumes read_refines: "rel a c \<Longrightarrow> m_Read A a = (a', Ok b) \<Longrightarrow> \<exists>c'. m_Read C c = (c', Ok b) \<and> rel a' c'"
    and write_refines: "rel a c \<Longrightarrow> good b \<Longrightarrow> m_Write A b a = (a', Ok ()) \<Longrightarrow>
      \<exists>c'. m_Write C b c = (c', Ok ()) \<and> rel a' c'"
begin

text \<open>The message each side writes is to be one that the concrete messenger carries.\<close>

lemma initiator_refines:
  fixes I :: "('i, 'v) noise_identity"
  assumes "NewNoisedMessengerI N ek A I a i = (a', i', Ok n)" and "rel a c"
    and "\<And>m a0 a1 b. m_Write A m a0 = (a1, Ok ()) \<Longrightarrow> m_Read A a1 = (a', Ok b) \<Longrightarrow> good m"
  shows "\<exists>c'. NewNoisedMessengerI N ek C I c i = (c', i', Ok n) \<and> rel a' c'"
proof -
  from assms(1) obtain e hsk nhsk msg ks a1 reply where s: "ek = Some e"
    "NewHandshakeState N True (initiator_psk (id_PresharedKeys I i)) (id_DHKey I i) e = Some hsk"
    "WriteMessage N hsk (id_Payload I i) = Some (nhsk, msg, ks)" "m_Write A msg a = (a1, Ok ())"
    "m_Read A a1 = (a', Ok reply)"
    and f: "initiator_finish N I i nhsk reply = (i', Ok n :: (('e, 'v) noised_error, _) res)"
    by (auto simp: NewNoisedMessengerI_def split: option.splits prod.splits res.splits)
  have "good msg" using assms(3) [OF s(4,5)] .
  from write_refines [OF assms(2) this s(4)] obtain c1 where c1: "m_Write C msg c = (c1, Ok ())" "rel a1 c1"
    by blast
  from read_refines [OF c1(2) s(5)] obtain c2 where c2: "m_Read C c1 = (c2, Ok reply)" "rel a' c2" by blast
  have "initiator_finish N I i nhsk reply = (i', Ok n :: (('f, 'v) noised_error, _) res)"
    using f by (auto simp: initiator_finish_def split: option.splits prod.splits res.splits)
  with s(1-3) c1 c2 show ?thesis by (simp add: NewNoisedMessengerI_def)
qed

lemma try_psks_Ok:
  "try_psks N dh e msg nhsk p psks = (Ok x :: (('e, 'v) noised_error, _) res) \<Longrightarrow>
     try_psks N dh e msg nhsk p psks = (Ok x :: (('f, 'w) noised_error, _) res)"
  by (induction psks arbitrary: nhsk p) (auto split: option.splits)

lemma responder_refines:
  fixes I :: "('i, 'v) noise_identity"
  assumes "NewNoisedMessengerR N ek A I a i = (a', i', Ok n)" and "rel a c"
    and "\<And>m a0. m_Write A m a0 = (a', Ok ()) \<Longrightarrow> good m"
  shows "\<exists>c'. NewNoisedMessengerR N ek C I c i = (c', i', Ok n) \<and> rel a' c'"
proof -
  from assms(1) obtain e a1 msg nhsk p where s: "ek = Some e" "m_Read A a = (a1, Ok msg)"
    "id_ValidatePeer I i p = (i', Ok ())"
    and t: "try_psks N (id_DHKey I i) e msg None [] (id_PresharedKeys I i)
      = (Ok (Some nhsk, p) :: (('e, 'v) noised_error, _) res)"
    and r: "responder_reply N A I a1 i' nhsk = (a', i', Ok n :: (('e, 'v) noised_error, _) res)"
    by (auto simp: NewNoisedMessengerR_def responder_reply_def split: option.splits prod.splits res.splits)
  from r obtain nhsk' m ki kr where w: "WriteMessage N nhsk (id_Payload I i') = Some (nhsk', m, Some (ki, kr))"
    "m_Write A m a1 = (a', Ok ())" "n = \<lparr>nm_dec = ki, nm_enc = kr, nm_hsk = nhsk'\<rparr>"
    by (auto simp: responder_reply_def split: option.splits prod.splits res.splits)
  from read_refines [OF assms(2) s(2)] obtain c1 where c1: "m_Read C c = (c1, Ok msg)" "rel a1 c1" by blast
  have "good m" using assms(3) [OF w(2)] .
  from write_refines [OF c1(2) this w(2)] obtain c2 where c2: "m_Write C m c1 = (c2, Ok ())" "rel a' c2"
    by blast
  have "try_psks N (id_DHKey I i) e msg None [] (id_PresharedKeys I i)
      = (Ok (Some nhsk, p) :: (('f, 'v) noised_error, _) res)"
    using try_psks_Ok [OF t] .
  with s c1 c2 w(1,3) show ?thesis by (simp add: NewNoisedMessengerR_def responder_reply_def)
qed

lemma noised_Read_refines:
  assumes "noised_Read N A a n = (a', n', Ok b)" and "rel a c"
  shows "\<exists>c'. noised_Read N C c n = (c', n', Ok b) \<and> rel a' c'"
proof -
  from assms(1) obtain ct d where s: "m_Read A a = (a', Ok ct)" "Decrypt N (nm_dec n) ct = (d, Some b)"
    "n' = n\<lparr>nm_dec := d\<rparr>"
    by (auto simp: noised_Read_def split: option.splits prod.splits res.splits)
  from read_refines [OF assms(2) s(1)] s(2,3) show ?thesis by (auto simp: noised_Read_def)
qed

lemma noised_Write_refines:
  assumes "noised_Write N A b a n = (a', n', Ok ())" and "rel a c"
    and "\<And>d ct. Encrypt N (nm_enc n) b = (d, Some ct) \<Longrightarrow> good ct"
  shows "\<exists>c'. noised_Write N C b c n = (c', n', Ok ()) \<and> rel a' c'"
proof -
  from assms(1) obtain ct d where s: "Encrypt N (nm_enc n) b = (d, Some ct)" "m_Write A ct a = (a', Ok ())"
    "n' = n\<lparr>nm_enc := d\<rparr>"
    by (auto simp: noised_Write_def split: option.splits prod.splits res.splits)
  from write_refines [OF assms(2) assms(3) [OF s(1)] s(2)] s(1,3) show ?thesis by (auto simp: noised_Write_def)
qed

lemma write_all_refines:
  "write_all N A ms a n = (a', n', Ok ()) \<Longrightarrow> rel a c \<Longrightarrow>
     \<forall>ct\<in>set (cipher_texts N ms (nm_enc n)). good ct \<Longrightarrow>
     \<exists>c'. write_all N C ms c n = (c', n', Ok ()) \<and> rel a' c'"
proof (induction ms arbitrary: a c n)
  case (Cons m ms)
  obtain a1 n1 where w: "noised_Write N A m a n = (a1, n1, Ok () :: (('e, unit) noised_error, unit) res)"
    "write_all N A ms a1 n1 = (a', n', Ok ())"
    using Cons.prems(1) by (auto split: prod.splits res.splits)
  obtain d ct where e: "Encrypt N (nm_enc n) m = (d, Some ct)" "nm_enc n1 = d"
    using w(1) by (auto simp: noised_Write_def split: prod.splits option.splits res.splits)
  with Cons.prems(3) have g: "good ct" "\<forall>ct\<in>set (cipher_texts N ms (nm_enc n1)). good ct" by simp_all
  obtain c1 where c1: "noised_Write N C m c n = (c1, n1, Ok () :: (('f, unit) noised_error, unit) res)" "rel a1 c1"
    using noised_Write_refines [OF w(1) Cons.prems(2)] e(1) g(1) by auto
  from Cons.IH [OF w(2) c1(2) g(2)] c1(1) show ?case by auto
qed simp

lemma apsnd_eq_pair: "apsnd (apfst f) x = (a, b, c) \<Longrightarrow> (\<And>b'. x = (a, b', c) \<Longrightarrow> b = f b' \<Longrightarrow> P) \<Longrightarrow> P"
  by (cases x) auto

lemma read_all_refines:
  "read_all N A k a n = (a', bs, n') \<Longrightarrow> length bs = k \<Longrightarrow> rel a c \<Longrightarrow>
     \<exists>c'. read_all N C k c n = (c', bs, n') \<and> rel a' c'"
proof (induction k arbitrary: a c n bs)
  case (Suc k)
  obtain a1 n1 b bs1 where r: "noised_Read N A a n = (a1, n1, Ok b :: (('e, unit) noised_error, bytes) res)"
    "read_all N A k a1 n1 = (a', bs1, n')" "bs = b # bs1"
    using Suc.prems(1,2) by (auto split: prod.splits res.splits elim!: apsnd_eq_pair)
  from noised_Read_refines [OF r(1) Suc.prems(3)] obtain c1
    where c1: "noised_Read N C c n = (c1, n1, Ok b :: (('f, unit) noised_error, bytes) res)" "rel a1 c1"
    by blast
  from Suc.IH [OF r(2) _ c1(2)] Suc.prems(2) c1(1) r(3) show ?case by fastforce
qed simp

end

section \<open>Frames on a connection\<close>

text \<open>
  One end of the connection: what it will read, and what it has written. The slice the library
  returns for a message has some room behind it, which the runtime decides. A read that waits has no
  result yet, here the error \<open>FrameWaits\<close>.
\<close>

record frame_end =
  fe_in :: conn
  fe_out :: bytes

datatype frame_error = FrameWaits | FrameRead read_err | FrameWrite chunk_error

definition lib_slice :: "(bytes \<Rightarrow> nat) \<Rightarrow> bytes \<Rightarrow> gslice" where
  "lib_slice spare b = \<lparr>sl_array = b @ replicate (spare b) CHR 0x00, sl_len = length b\<rparr>"

definition frame_Write :: "(bytes \<Rightarrow> nat) \<Rightarrow> bytes \<Rightarrow> frame_end \<Rightarrow> frame_end \<times> (frame_error, unit) res" where
  "frame_Write spare b s =
     (case (write_frame (lib_slice spare b) :: (chunk_error, _) res) of
        Ok (f, _) \<Rightarrow> s\<lparr>fe_out := fe_out s @ f\<rparr>
      | _ \<Rightarrow> s,
      map_err FrameWrite (fst (messenger_Write False (\<lambda>f. (length f, None)) (lib_slice spare b))))"

definition frame_Read :: "nat \<Rightarrow> frame_end \<Rightarrow> frame_end \<times> (frame_error, bytes) res" where
  "frame_Read mem s =
     (case messenger_Read False mem (fe_in s) of
        (r, c) \<Rightarrow>
          (s\<lparr>fe_in := c\<rparr>,
           case r of
             ReadBlocks \<Rightarrow> Err FrameWaits
           | ReadPanics \<Rightarrow> Panic
           | ReadRet b (Some e) \<Rightarrow> Err (FrameRead e)
           | ReadRet b None \<Rightarrow> Ok b))"

definition frame_messenger :: "(bytes \<Rightarrow> nat) \<Rightarrow> nat \<Rightarrow> (frame_end, frame_error) messenger" where
  "frame_messenger spare mem = \<lparr>m_Read = frame_Read mem, m_Write = frame_Write spare\<rparr>"

text \<open>The messages a frame carries, and the frame.\<close>

definition framable :: "(bytes \<Rightarrow> nat) \<Rightarrow> nat \<Rightarrow> bytes \<Rightarrow> bool" where
  "framable spare mem b \<longleftrightarrow>
     (let h = header_len (nbl_of (length b)) in
      h \<le> length b + spare b \<and> 8 \<le> h + length b \<and> h + length b \<le> mem
      \<and> length b < 2 ^ 63 \<and> clean_length (length b))"

definition frame_of :: "bytes \<Rightarrow> bytes" where
  "frame_of b = chunk_header (length b) @ b"

text \<open>The pieces in which the connection delivers a frame: any pieces, but ending with the frame.\<close>

definition pieces :: "bytes list \<Rightarrow> bytes \<Rightarrow> bool" where
  "pieces cs b \<longleftrightarrow> concat cs = frame_of b \<and> [] \<notin> set cs"

lemma frame_Write_framable:
  "framable spare mem b \<Longrightarrow> frame_Write spare b s = (s\<lparr>fe_out := fe_out s @ frame_of b\<rparr>, Ok ())"
  by (auto simp: framable_def frame_Write_def frame_of_def write_frame_def messenger_Write_def messenger_write_def
      lib_slice_def sl_data_def Let_def)

lemma frame_Read_pieces:
  assumes "framable spare mem b" and "pieces cs b" and "fe_in s = (cs @ rest, e)"
  shows "frame_Read mem s = (s\<lparr>fe_in := (rest, e)\<rparr>, Ok b)"
proof -
  let ?b = "\<lparr>sl_array = b, sl_len = length b\<rparr>"
  have "messenger_read mem (cs @ rest, e) = (ReadRet (sl_data ?b) None, rest, e)"
    using assms(1,2) by (intro messenger_read_frame)
      (auto simp: framable_def pieces_def frame_of_def sl_ok_def sl_data_def Let_def)
  then show ?thesis using assms(3) by (simp add: frame_Read_def messenger_Read_def sl_data_def)
qed

definition frames_rel ::
    "(bytes \<Rightarrow> nat) \<Rightarrow> nat \<Rightarrow> bytes list \<Rightarrow> conn_end \<Rightarrow> bytes list \<times> bytes list \<Rightarrow> frame_end \<Rightarrow> bool" where
  "frames_rel spare mem rest e q s \<longleftrightarrow>
     (\<exists>css. fe_in s = (concat css @ rest, e) \<and> list_all2 pieces css (fst q))
     \<and> (\<forall>b\<in>set (fst q). framable spare mem b)
     \<and> fe_out s = concat (map frame_of (snd q))"

interpretation frames: messenger_refines queue_messenger "frame_messenger spare mem"
    "frames_rel spare mem rest e" "framable spare mem" for spare mem rest e
proof
  fix q q' b s
  assume r: "frames_rel spare mem rest e q s" and m: "m_Read queue_messenger q = (q', Ok b)"
  obtain bs outs where q: "q = (b # bs, outs)" "q' = (bs, outs)"
    using m by (cases q; cases "fst q") (auto simp: queue_messenger_def)
  from r q(1) obtain cs css where c: "fe_in s = (cs @ concat css @ rest, e)" "pieces cs b" "list_all2 pieces css bs"
    and g: "framable spare mem b" "\<forall>b\<in>set bs. framable spare mem b" and o: "fe_out s = concat (map frame_of outs)"
    by (auto simp: frames_rel_def list_all2_Cons2)
  from frame_Read_pieces [OF g(1) c(2,1)] c(3) g(2) o
  show "\<exists>s'. m_Read (frame_messenger spare mem) s = (s', Ok b) \<and> frames_rel spare mem rest e q' s'"
    by (auto simp: frame_messenger_def frames_rel_def q(2))
next
  fix q q' b s
  assume r: "frames_rel spare mem rest e q s" "framable spare mem b" and m: "m_Write queue_messenger b q = (q', Ok ())"
  have q': "q' = (fst q, snd q @ [b])" using m by (cases q) auto
  from frame_Write_framable [OF r(2), of s] r(1)
  show "\<exists>s'. m_Write (frame_messenger spare mem) b s = (s', Ok ()) \<and> frames_rel spare mem rest e q' s'"
    by (auto simp: frame_messenger_def frames_rel_def q')
qed

end
