(* ===== verification/SecureFrames.thy ===== *)
theory SecureFrames
  imports FramedMessenger ChunkedFrames
begin

text \<open>
  The theorems on the noised messenger over frames: the handshake of two nodes and their encrypted
  messages come through on a connection, whatever pieces it delivers a frame in.
\<close>

lemma write_all_cts:
  "length (cipher_texts N ms (nm_enc n)) = length ms \<Longrightarrow>
     \<exists>n'. write_all N queue_messenger ms (ins, outs) n = ((ins, outs @ cipher_texts N ms (nm_enc n)), n', Ok ())"
proof (induction ms arbitrary: outs n)
  case (Cons m ms)
  then obtain d ct where e: "Encrypt N (nm_enc n) m = (d, Some ct)"
    by (auto split: prod.splits option.splits)
  from Cons.IH [of "n\<lparr>nm_enc := d\<rparr>" "outs @ [ct]"] Cons.prems e show ?case by (simp add: noised_Write_def)
qed simp

lemma frames_relD:
  "frames_rel spare mem rest e ([], outs) s \<Longrightarrow> s = \<lparr>fe_in = (rest, e), fe_out = concat (map frame_of outs)\<rparr>"
  by (cases s) (auto simp: frames_rel_def)

lemma queue_Write_out: "m_Write queue_messenger m q = ((ins, [m']), Ok ()) \<Longrightarrow> m = m'"
  by (cases q) auto

lemma queue_Read_out:
  "m_Read queue_messenger q = ((ins, outs), Ok b) \<Longrightarrow> \<exists>ins'. q = (ins', outs)"
  by (cases q; cases "fst q") (auto simp: queue_messenger_def)

lemma responder_frames:
  fixes J :: "('j, 'w) noise_identity"
  assumes "NewNoisedMessengerR N eR queue_messenger J ([m1], []) j = (([], [m2]), j', Ok nR)"
    and "framable sp mem m1" and "framable sp mem m2" and "pieces cs m1"
  shows "NewNoisedMessengerR N eR (frame_messenger sp mem) J \<lparr>fe_in = (cs @ rest, e), fe_out = []\<rparr> j
     = (\<lparr>fe_in = (rest, e), fe_out = frame_of m2\<rparr>, j', Ok nR)"
proof -
  have "frames_rel sp mem rest e ([m1], []) \<lparr>fe_in = (cs @ rest, e), fe_out = []\<rparr>"
    using assms(2,4) by (auto simp: frames_rel_def intro!: exI [of _ "[cs]"])
  from frames.responder_refines [OF assms(1) this] queue_Write_out assms(3) frames_relD show ?thesis by fastforce
qed

lemma initiator_frames:
  fixes I :: "('i, 'v) noise_identity"
  assumes "NewNoisedMessengerI N eI queue_messenger I ([m2], []) i = (([], [m1]), i', Ok nI)"
    and "framable sp mem m1" and "framable sp mem m2" and "pieces cs m2"
  shows "NewNoisedMessengerI N eI (frame_messenger sp mem) I \<lparr>fe_in = (cs @ rest, e), fe_out = []\<rparr> i
     = (\<lparr>fe_in = (rest, e), fe_out = frame_of m1\<rparr>, i', Ok nI)"
proof -
  have "frames_rel sp mem rest e ([m2], []) \<lparr>fe_in = (cs @ rest, e), fe_out = []\<rparr>"
    using assms(3,4) by (auto simp: frames_rel_def intro!: exI [of _ "[cs]"])
  moreover have "framable sp mem m"
    if "m_Write queue_messenger m q = (q1, Ok ())" "m_Read queue_messenger q1 = (([], [m1]), Ok b)" for m q q1 b
    using queue_Read_out [OF that(2)] queue_Write_out that(1) assms(2) by blast
  ultimately obtain c' where
    "NewNoisedMessengerI N eI (frame_messenger sp mem) I \<lparr>fe_in = (cs @ rest, e), fe_out = []\<rparr> i = (c', i', Ok nI)"
    "frames_rel sp mem rest e ([], [m1]) c'"
    using frames.initiator_refines [OF assms(1)] by blast
  with frames_relD [OF this(2)] show ?thesis by simp
qed


text \<open>A pair of ends for the witnesses, that only share a key.\<close>

definition demo_side :: "bytes \<Rightarrow> (unit, unit) noise_identity" where
  "demo_side p = \<lparr>id_DHKey = (\<lambda>_. ([], [])), id_PresharedKeys = (\<lambda>_. [''k'']), id_Payload = (\<lambda>_. p),
     id_ValidatePeer = (\<lambda>_ _. ((), Ok ()))\<rparr>"

lemma short_framable: "6 \<le> length b \<Longrightarrow> length b < 254 \<Longrightarrow> framable sp 256 b"
  by (simp add: framable_def clean_length_def nbl_small Let_def)




end
