(* ===== verification/EndToEnd.thy ===== *)
theory EndToEnd
  imports CertCommands ProxyCommand Handshake
begin

text \<open>
  From the command line to an encrypted connection: two runs of \<open>generate\<close> against one CA, the
  loading of the two nodes from the files the runs left, and the handshake of the loaded nodes.
\<close>

section \<open>The second certificate\<close>

text \<open>Two commands that issue from the same CA files to different files.\<close>

definition same_ca :: "generate_cert \<Rightarrow> generate_cert \<Rightarrow> bool" where
  "same_ca c1 c2 \<longleftrightarrow>
     gen_CaKeyFile c1 = gen_CaKeyFile c2 \<and> gen_CaCertFile c1 = gen_CaCertFile c2
     \<and> {key_path c1, cert_path c1} \<inter> {key_path c2, cert_path c2} = {}"

text \<open>What a run of \<open>generate\<close> leaves behind for a node: the files and the certificate.\<close>

definition node_ready :: "extern \<Rightarrow> fs \<Rightarrow> generate_cert \<Rightarrow> certificate \<Rightarrow> bytes \<Rightarrow> time \<Rightarrow> certificate \<Rightarrow> bool" where
  "node_ready E fs c caC sk now cert \<longleftrightarrow>
     read_file fs (key_path c) = Some (MarshalX25519PrivateKey sk)
   \<and> (\<exists>nf. read_file fs (cert_path c) = Some nf \<and> UnmarshalAetherportCertificateFromPEM E nf = (Ok cert, []))
   \<and> (\<exists>b. Marshal E cert = Ok b \<and> UnmarshalAetherportCertificate E b = Ok cert)
   \<and> d_Name (Details cert) = gen_Name c \<and> d_NotBefore (Details cert) = now
   \<and> d_NotAfter (Details cert) = d_NotAfter (Details caC) - 1000000000
   \<and> d_Issuer (Details cert) = cert_fp E caC \<and> d_Issuer (Details cert) \<noteq> []
   \<and> CheckSignature E cert (d_PublicKey (Details caC)) = Some True"

lemma node_ready_mono: "fs \<subseteq>\<^sub>m fs' \<Longrightarrow> node_ready E fs c caC sk now cert \<Longrightarrow> node_ready E fs' c caC sk now cert"
  unfolding node_ready_def using read_file_mono by blast

lemma two_certificates:
  assumes "proto_laws E" and "ed25519_pair E key" and "sha256_size E"
    and "cert_marshals E default_ca_name" and "cert_marshals E (gen_Name c1)" and "cert_marshals E (gen_Name c2)"
    and "gen_Labels c1 = []" and "gen_Labels c2 = []" and "gen_Duration c1 = 0" and "gen_Duration c2 = 0"
    and "fresh_disk c1 fs" and "fresh_disk c2 fs" and "same_ca c1 c2"
    and "length pk1 = x25519KeyLen" and "length pk2 = x25519KeyLen"
    and "nano_range ca_now" and "nano_range (ca_now + 31536000000000000)"
    and "ca_now \<le> now1" and "now1 + 1000000000 \<le> ca_now + 31536000000000000"
    and "ca_now \<le> now2" and "now2 + 1000000000 \<le> ca_now + 31536000000000000"
  shows "\<exists>fs1 fs2 ca_file caC cert1 cert2.
     Generate_Run E (Some (ed25519_Public key, key)) ca_now (Some (sk1, pk1)) now1 c1 fs = (fs1, Ok ())
   \<and> Generate_Run E ca_key2 ca_now2 (Some (sk2, pk2)) now2 c2 fs1 = (fs2, Ok ())
   \<and> read_file fs2 (gen_CaCertFile c1) = Some ca_file \<and> root_pem E caC ca_file
   \<and> d_NotBefore (Details caC) = ca_now \<and> d_NotAfter (Details caC) = ca_now + 31536000000000000
   \<and> node_ready E fs2 c1 caC sk1 now1 cert1 \<and> node_ready E fs2 c2 caC sk2 now2 cert2"
proof -
  have y: "time_Add ca_now (ca_Duration (default_ca c1)) = ca_now + 31536000000000000"
    using assms(9) by (simp add: default_ca_def time_Add_def year_hours)
  have nn: "nano_range now1" "nano_range now2" "nano_range (ca_now + 31536000000000000 - 1000000000)"
    using assms(16-21) by (simp_all add: nano_range_def)
  have yr: "nano_range (time_Add ca_now (ca_Duration (default_ca c1)))" using y assms(17) by simp
  have nr: "nano_range (d_NotAfter (Details (node_template c1 caC pk1 now1)))"
    if "d_NotAfter (Details caC) = time_Add ca_now (ca_Duration (default_ca c1))" for caC
    using default_expiry [OF assms(9) that [unfolded y] assms(18,19)] nn(3) by simp
  obtain fs1 ca_file caC nf1 cert1 where g:
    "Generate_Run E (Some (ed25519_Public key, key)) ca_now (Some (sk1, pk1)) now1 c1 fs = (fs1, Ok ())"
    "read_file fs1 (gen_CaCertFile c1) = Some ca_file" "root_pem E caC ca_file"
    "d_NotBefore (Details caC) = ca_now"
    "d_NotAfter (Details caC) = time_Add ca_now (ca_Duration (default_ca c1))"
    "d_PublicKey (Details caC) = ed25519_Public key"
    "read_file fs1 (key_path c1) = Some (MarshalX25519PrivateKey sk1)"
    "read_file fs1 (cert_path c1) = Some nf1"
    "UnmarshalAetherportCertificateFromPEM E nf1 = (Ok cert1, [])"
    "d_Issuer (Details cert1) = cert_fp E caC" "d_Issuer (Details cert1) \<noteq> []"
    "d_NotBefore (Details cert1) = now1"
    "d_NotAfter (Details cert1) = d_NotAfter (Details (node_template c1 caC pk1 now1))"
    "CheckSignature E cert1 (ed25519_Public key) = Some True" "d_Name (Details cert1) = gen_Name c1"
    "\<exists>b. Marshal E cert1 = Ok b \<and> UnmarshalAetherportCertificate E b = Ok cert1"
    "read_file fs1 (gen_CaKeyFile c1) = Some (MarshalEd25519PrivateKey key)"
    "UnmarshalAetherportCertificateFromPEM E ca_file = (Ok caC, [])"
    "\<forall>path. path \<notin> {gen_CaKeyFile c1, gen_CaCertFile c1, key_path c1, cert_path c1} \<longrightarrow> fs1 path = fs path"
    using Generate_succeeds [OF assms(1-5,7,11,14,16) nn(1) yr nr, of sk1] by blast
  have ca: "d_NotAfter (Details caC) = ca_now + 31536000000000000" using g(5) y by simp
  have fp: "Sha256Sum E caC = Ok (cert_fp E caC)"
    using g(3) by (auto simp: root_pem_def trusted_root_def cert_fp_def)
  have free: "fs1 (key_path c2) = None" "fs1 (cert_path c2) = None" "key_path c2 \<noteq> cert_path c2"
    using g(19) assms(12,13) by (auto simp: fresh_disk_def same_ca_def)
  have cas: "gen_CaKeyFile c2 = gen_CaKeyFile c1" "gen_CaCertFile c2 = gen_CaCertFile c1"
    using assms(13) by (simp_all add: same_ca_def)
  have nr2: "nano_range (d_NotAfter (Details (node_template c2 caC pk2 now2)))"
    using default_expiry [OF assms(10) ca assms(20,21)] nn(3) by simp
  obtain fs2 nf2 cert2 where n:
    "generate_signed E (Some (sk2, pk2)) now2 c2 fs1 = (fs2, Ok ())"
    "read_file fs2 (key_path c2) = Some (MarshalX25519PrivateKey sk2)"
    "read_file fs2 (cert_path c2) = Some nf2"
    "UnmarshalAetherportCertificateFromPEM E nf2 = (Ok cert2, [])"
    "d_Issuer (Details cert2) = cert_fp E caC" "d_NotBefore (Details cert2) = now2"
    "d_NotAfter (Details cert2) = d_NotAfter (Details (node_template c2 caC pk2 now2))"
    "CheckSignature E cert2 (ed25519_Public key) = Some True" "d_Name (Details cert2) = gen_Name c2"
    "\<exists>b. Marshal E cert2 = Ok b \<and> UnmarshalAetherportCertificate E b = Ok cert2"
    using generate_signed_succeeds [OF assms(1,2,6,8) g(17) [folded cas(1)] g(2) [folded cas(2)] g(18) fp free
        assms(15) nn(2) nr2, of sk2] by blast
  have "fs1 (gen_CaKeyFile c2) \<noteq> None" using g(17) cas(1) by (auto simp: read_file_def)
  then have "Generate_Run E ca_key2 ca_now2 (Some (sk2, pk2)) now2 c2 fs1 = (fs2, Ok ())"
    using n(1) by (auto simp: Generate_Run_def)
  moreover have "node_ready E fs1 c1 caC sk1 now1 cert1"
    unfolding node_ready_def
    using g(6-16) default_expiry [OF assms(9) ca assms(18,19), of pk1] ca by auto
  then have "node_ready E fs2 c1 caC sk1 now1 cert1"
    by (rule node_ready_mono [OF generate_signed_extends [OF n(1)]])
  moreover have "node_ready E fs2 c2 caC sk2 now2 cert2"
    unfolding node_ready_def
    using n(2-10) g(6,10,11) default_expiry [OF assms(10) ca assms(20,21), of pk2] ca by auto
  moreover have "read_file fs2 (gen_CaCertFile c1) = Some ca_file"
    using generate_signed_extends [OF n(1)] g(2) by (rule read_file_mono)
  ultimately show ?thesis using g(1,3,4) ca by blast
qed

section \<open>The loaded nodes\<close>

text \<open>The pool of a file with one root, and how a node loads against it.\<close>

definition single_pool :: "extern \<Rightarrow> certificate \<Rightarrow> capool" where
  "single_pool E caC = \<lparr>caMap = [cert_fp E caC \<mapsto> caC], certBlocklist = {}\<rparr>"

lemma single_root_pool:
  assumes "root_pem E caC f" and "\<not> Expired caC (clock 0)"
  shows "NewCAPoolFromPEM E clock f = PoolRet (Some (single_pool E caC)) None"
proof -
  have "list_all2 (root_pem E) [caC] [f]" using assms(1) by simp
  from load_pool_roots [OF this, of clock 0 NewCAPool False] assms(2) show ?thesis
    by (simp add: NewCAPoolFromPEM_def NewCAPool_def single_pool_def)
qed

lemma ready_node_loads:
  assumes "root_pem E caC ca_file" and "\<not> Expired caC (clock 0)" and "length sk = x25519KeyLen"
    and "node_ready E fs c caC sk now cert" and "read_file fs (gen_CaCertFile c) = Some ca_file"
    and "KeyFile p = key_path c" and "CertFile p = cert_path c" and "CaCertFile p = gen_CaCertFile c"
    and "map_order (single_pool E caC) (order (single_pool E caC))" and "pskGen E caC \<noteq> None"
  shows "\<exists>i. load_identity E clock order fs p = Ok i
    \<and> NewIdentity E (order (single_pool E caC)) sk cert (single_pool E caC) = Ok i
    \<and> UnmarshalAetherportCertificate E (Payload i) = Ok cert \<and> i_caPool i = single_pool E caC
    \<and> (\<exists>psk. pskGen E caC = Some psk \<and> PresharedKeys i = [psk])"
proof -
  let ?p = "single_pool E caC"
  have k: "fst (UnmarshalX25519PrivateKey (MarshalX25519PrivateKey sk)) = Ok sk"
    using x25519_private.load_save [of sk "[]"] assms(3) by simp
  have iss: "d_Issuer (Details cert) = cert_fp E caC" "d_Issuer (Details cert) \<noteq> []"
    using assms(4) unfolding node_ready_def by blast+
  obtain nf b where n: "read_file fs (cert_path c) = Some nf"
    "UnmarshalAetherportCertificateFromPEM E nf = (Ok cert, [])"
    "Marshal E cert = Ok b" "UnmarshalAetherportCertificate E b = Ok cert"
    using assms(4) by (auto simp: node_ready_def)
  have ca: "caMap ?p (d_Issuer (Details cert)) = Some caC" using iss(1) by (simp add: single_pool_def)
  obtain psk where psk: "pskGen E caC = Some psk" using assms(10) by blast
  obtain i where i: "NewIdentity E (order ?p) sk cert ?p = Ok i"
    using NewIdentity_total [OF ca iss(2) psk n(3)] by blast
  have "load_identity E clock order fs p = Ok i"
    unfolding load_identity_Ok
    using assms(4-8) k n(1,2) i single_root_pool [where clock = clock, OF assms(1,2)] by (auto simp: node_ready_def)
  moreover have "Payload i = b" using NewIdentity_fields [OF i] n(3) by (simp add: Payload_def)
  moreover have "PresharedKeys i = [psk]"
    using NewIdentity_Ok [OF i assms(9)] psk iss(1) by (auto simp: PresharedKeys_def single_pool_def)
  ultimately show ?thesis using i n(4) psk NewIdentity_fields [OF i] by blast
qed

text \<open>A node whose certificate is valid is accepted by every node with that pool.\<close>

lemma ready_node_accepted:
  assumes "node_ready E fs c caC sk now cert" and "d_NotBefore (Details caC) \<le> now"
    and "UnmarshalAetherportCertificate E payload = Ok cert" and "i_caPool j = single_pool E caC"
    and "now \<le> t" and "t \<le> d_NotAfter (Details caC) - 1000000000"
  shows "ValidatePeer E t j payload = (j\<lparr>i_peerCert := Some cert\<rparr>, Ok ())"
proof -
  have "\<exists>fp. Sha256Sum E cert = Ok fp" using assms(1) by (auto simp: node_ready_def Sha256Sum_def)
  then have "Verify E cert t (single_pool E caC) = Ok True"
    unfolding Verify_accepts
    using assms(1,2,5,6) by (auto simp: node_ready_def single_pool_def)
  with assms(3,4) show ?thesis by (simp add: ValidatePeer_Ok)
qed

section \<open>Properties\<close>


definition demo_gen2 :: generate_cert where
  "demo_gen2 = (demo_gen 0)\<lparr>gen_Name := ''node2''\<rparr>"

definition demo_proxy :: "generate_cert \<Rightarrow> cli_proxy" where
  "demo_proxy c = demo_cli\<lparr>KeyFile := key_path c, CertFile := cert_path c, CaCertFile := gen_CaCertFile c\<rparr>"

lemma demo_gen2_simps:
  "gen_CaKeyFile demo_gen2 = ''cakey.pem''" "gen_CaCertFile demo_gen2 = ''cacert.pem''"
  "key_path demo_gen2 = ''node2-key.pem''" "cert_path demo_gen2 = ''node2-cert.pem''"
  "gen_Name demo_gen2 = ''node2''" "gen_Labels demo_gen2 = []" "gen_Duration demo_gen2 = 0"
  by (simp_all add: demo_gen2_def demo_gen_def key_path_def cert_path_def)


end
