(* ===== verification/ServerRelay.thy ===== *)
theory ServerRelay
  imports SignalServer Utils
begin

text \<open>
  The relaying side of \<open>signal-server-aetherlight.go\<close>: \<open>newIngress\<close>, \<open>ingress.relay\<close>, and the status a
  handler of \<open>/ingresses/{ingressID}\<close> closes its websocket with.
\<close>

section \<open>Ingresses\<close>

text \<open>The entry of the table; \<open>session\<close> is what smux makes of the connection, \<open>None\<close> when it refuses.\<close>

record 'c ingress_entry =
  ing_id :: bytes
  ing_conn :: 'c
  ing_session :: sess

definition newIngress :: "bytes \<Rightarrow> 'c \<Rightarrow> sess option \<Rightarrow> (unit, 'c ingress_entry) res" where
  "newIngress i c session =
     (case session of
        None \<Rightarrow> Err ()
      | Some s \<Rightarrow> Ok \<lparr>ing_id = i, ing_conn = c, ing_session = s\<rparr>)"

text \<open>
  The errors of \<open>relay\<close>: no stream could be opened, with whether the session was closed, or those of the
  two copies. The context the caller passes is not looked at.
\<close>

datatype tunnel_error = OpenFailed bool | CopyErrors "copy_error list"

definition ingress_relay :: "bool option \<Rightarrow> copy_error list option \<Rightarrow> tunnel_error option" where
  "ingress_relay open_error relayed =
     (case open_error of
        Some closed \<Rightarrow> Some (OpenFailed closed)
      | None \<Rightarrow> map_option CopyErrors relayed)"

section \<open>The close of a handler\<close>

text \<open>
  What \<open>errors.Is\<close> finds in an error, through the list of the two copies. Which of the uses of a closed
  connection are \<open>io.ErrClosedPipe\<close> depends on the connection: those of smux are.
\<close>

record error_facts =
  ef_closed_pipe :: "copy_error \<Rightarrow> bool"
  ef_close_frame :: "tunnel_error \<Rightarrow> nat option"

fun wraps_read :: "read_err \<Rightarrow> tunnel_error \<Rightarrow> bool" where
  "wraps_read x (OpenFailed closed) = False"
| "wraps_read x (CopyErrors es) = (ReadErr x \<in> set es)"

fun wraps_closed_pipe :: "error_facts \<Rightarrow> tunnel_error \<Rightarrow> bool" where
  "wraps_closed_pipe F (OpenFailed closed) = closed"
| "wraps_closed_pipe F (CopyErrors es) = (\<exists>e\<in>set es. ef_closed_pipe F e)"

definition StatusNormalClosure :: int where "StatusNormalClosure = 1000"

text \<open>The library's \<open>CloseStatus\<close>: the code of the close frame in an error, else -1.\<close>

definition CloseStatus :: "error_facts \<Rightarrow> tunnel_error \<Rightarrow> int" where
  "CloseStatus F e = (case ef_close_frame F e of Some n \<Rightarrow> int n | None \<Rightarrow> -1)"

definition tunnel_status :: "error_facts \<Rightarrow> go_ctx \<Rightarrow> tunnel_error option \<Rightarrow> int" where
  "tunnel_status F ctx err =
     (case err of
        None \<Rightarrow> StatusNormalClosure
      | Some e \<Rightarrow>
          if ctx \<noteq> None \<and> wraps_read CtxDone e then StatusNormalClosure
          else if wraps_read EOF e then StatusNormalClosure
          else if wraps_closed_pipe F e then StatusNormalClosure
          else CloseStatus F e)"

text \<open>
  A handler past the upgrade of its request: of an ingress, which ends without an error or has no
  session, and of a client, which relays to the session it looked up.
\<close>

definition master_status :: "error_facts \<Rightarrow> sess option \<Rightarrow> int" where
  "master_status F session =
     (case newIngress [] () session of
        Err _ \<Rightarrow> StatusNormalClosure
      | _ \<Rightarrow> tunnel_status F None None)"

definition client_status ::
    "error_facts \<Rightarrow> go_ctx \<Rightarrow> bool option \<Rightarrow> copy_error option \<Rightarrow> copy_error option \<Rightarrow> int" where
  "client_status F ctx open_error errA errB =
     tunnel_status F ctx (ingress_relay open_error (relay_result errA errB))"

text \<open>When a client is closed with another status than the normal one: no stream could be opened on a
  session that is not closed, or both copies failed, neither with the end of a closed smux stream nor,
  once the minute of the handler is over, with its context. The code is then that of a close frame or,
  for every other error, -1, which no close frame may carry.\<close>

lemma client_status_abnormal:
  "client_status F ctx open_error errA errB \<noteq> StatusNormalClosure \<Longrightarrow>
     open_error = Some False
   \<or> open_error = None \<and> (\<exists>x y. errA = Some x \<and> errB = Some y \<and> ReadErr EOF \<notin> {x, y}
     \<and> \<not> ef_closed_pipe F x \<and> \<not> ef_closed_pipe F y \<and> (ctx = None \<or> ReadErr CtxDone \<notin> {x, y}))"
  by (auto simp: client_status_def ingress_relay_def tunnel_status_def relay_result_def
      split: option.splits if_splits)

lemma client_status_invalid:
  assumes "\<And>e. ef_close_frame F e = None"
  shows "client_status F ctx open_error errA errB \<in> {StatusNormalClosure, -1}
    \<and> client_status F ctx (Some False) errA errB = -1"
  by (simp add: client_status_def ingress_relay_def tunnel_status_def CloseStatus_def assms split: option.splits)

lemma master_status_normal: "master_status F session = StatusNormalClosure"
  by (simp add: master_status_def tunnel_status_def split: res.splits)

end
