(* ===== verification/Program.thy ===== *)
theory Program
  imports ProxyCommand CertCommands
begin

text \<open>
  The program: \<open>main.go\<close> and \<open>cli.go\<close> with the commands of \<open>cli-proxy.go\<close>, \<open>cli-signal.go\<close> and
  \<open>cli-certificate.go\<close>, from a parsed command line to the status the process exits with.

  Outside: the parsing of the command line by kong, and what the network answers.
\<close>

section \<open>Commands\<close>

record cli_signal =
  ListenAddr :: bytes

datatype cli_certificate = GenerateCmd generate_cert | GenerateCACmd generate_ca | ReSignCmd resign

datatype cli = ProxyCmd cli_proxy | SignalCmd cli_signal | CertificateCmd cli_certificate

text \<open>
  The outside of a run: keys and clocks; the files' order; whether a peer connection can be made;
  how \<open>Start\<close> ends on a terminal, \<open>None\<close> when it does not; how many attempts the loops of a node have
  made, and whether a session has failed in them; whether the server's key can be made, and how
  \<open>ListenAndServe\<close> ends, which is never without an error.
\<close>

record world =
  w_extern :: extern
  w_ca_key :: "(bytes \<times> bytes) option"
  w_node_key :: "(bytes \<times> bytes) option"
  w_ca_now :: time
  w_now :: time
  w_clock :: "nat \<Rightarrow> time"
  w_order :: "capool \<Rightarrow> bytes list"
  w_new_peer :: "bool \<Rightarrow> bytes list list \<Rightarrow> bool"
  w_tty_start :: "role \<Rightarrow> session_error option option"
  w_attempts :: nat
  w_session_failed :: bool
  w_server_key :: bool
  w_serve_ends :: bool

datatype run_error =
    ProxyFailed proxy_error | StartFailed session_error | CertificateFailed cli_error | ServeFailed

text \<open>How \<open>Run\<close> ends: with its error, by \<open>log.Fatalln\<close>, by a panic, or not.\<close>

datatype run_end = RunReturns "run_error option" | RunFatal | RunPanics | RunsOn

definition peer_ok :: "world \<Rightarrow> cli_proxy \<Rightarrow> bool" where
  "peer_ok w c = newWebRTCPeerConnection (w_new_peer w) c"

definition of_result :: "('e \<Rightarrow> run_error) \<Rightarrow> ('e, unit) res \<Rightarrow> run_end" where
  "of_result f r = (case r of Ok _ \<Rightarrow> RunReturns None | Err e \<Rightarrow> RunReturns (Some (f e)) | Panic \<Rightarrow> RunPanics)"

definition CliSignal_Run :: "world \<Rightarrow> cli_signal \<Rightarrow> run_end" where
  "CliSignal_Run w c =
     (if \<not> w_server_key w then RunFatal
      else if w_serve_ends w then RunReturns (Some ServeFailed) else RunsOn)"

definition CliCertificate_Run :: "world \<Rightarrow> cli_certificate \<Rightarrow> fs \<Rightarrow> fs \<times> run_end" where
  "CliCertificate_Run w cmd fs =
     (case cmd of
        GenerateCmd c \<Rightarrow>
          apsnd (of_result CertificateFailed)
            (Generate_Run (w_extern w) (w_ca_key w) (w_ca_now w) (w_node_key w) (w_now w) c fs)
      | GenerateCACmd c \<Rightarrow>
          apsnd (of_result CertificateFailed) (GenerateCA_Run (w_extern w) (w_ca_key w) (w_ca_now w) c fs)
      | ReSignCmd c \<Rightarrow> apsnd (of_result CertificateFailed) (ReSign_Run (w_extern w) (w_now w) c fs))"

text \<open>
  The proxy. Its context is the background one, which is never done: \<open>runAetherlight\<close> gets as many live
  contexts as it makes attempts. A session that fails ends the process.
\<close>

definition tty_end :: "world \<Rightarrow> cli_proxy \<Rightarrow> run_end" where
  "tty_end w c =
     (case runTTY_role (peer_ok w c) c of
        Ok r \<Rightarrow>
          (case w_tty_start w r of
             None \<Rightarrow> RunsOn
           | Some e \<Rightarrow>
               (case runTTY (peer_ok w c) c (\<lambda>_. e) of
                  TTYDone \<Rightarrow> RunReturns None
                | TTYStartFailed r x \<Rightarrow> RunReturns (Some (StartFailed x))
                | TTYRefused x \<Rightarrow> RunReturns (Some (ProxyFailed x))
                | TTYPanic \<Rightarrow> RunPanics))
      | Err e \<Rightarrow> RunReturns (Some (ProxyFailed e))
      | Panic \<Rightarrow> RunPanics)"

definition aetherlight_end :: "world \<Rightarrow> cli_proxy \<Rightarrow> (proxy_error, identity) res \<Rightarrow> run_end" where
  "aetherlight_end w c node =
     (let live = replicate (w_attempts w) None in
      case runAetherlight node c live live of
        Some r \<Rightarrow> of_result ProxyFailed r
      | None \<Rightarrow> if w_session_failed w then RunFatal else RunsOn)"

definition CliProxy_end :: "world \<Rightarrow> cli_proxy \<Rightarrow> fs \<Rightarrow> run_end" where
  "CliProxy_end w c fs =
     (case CliProxy_Run (w_extern w) (w_clock w) (w_order w) fs (peer_ok w c) c of
        RunTTY r \<Rightarrow> tty_end w c
      | RunAetherlight node loops \<Rightarrow> aetherlight_end w c node
      | RunNothing \<Rightarrow> RunReturns None)"

text \<open>\<open>main\<close>: the command is run, and its error is fatal. The disk is what the command leaves.\<close>

datatype exit = Exited nat | Running

definition exit_of :: "run_end \<Rightarrow> exit" where
  "exit_of r =
     (case r of
        RunReturns None \<Rightarrow> Exited 0
      | RunReturns (Some e) \<Rightarrow> Exited 1
      | RunFatal \<Rightarrow> Exited 1
      | RunPanics \<Rightarrow> Exited 2
      | RunsOn \<Rightarrow> Running)"

definition main :: "world \<Rightarrow> cli \<Rightarrow> fs \<Rightarrow> fs \<times> exit" where
  "main w cmd fs =
     (case cmd of
        ProxyCmd c \<Rightarrow> (fs, exit_of (CliProxy_end w c fs))
      | SignalCmd c \<Rightarrow> (fs, exit_of (CliSignal_Run w c))
      | CertificateCmd c \<Rightarrow> apsnd exit_of (CliCertificate_Run w c fs))"

section \<open>Lemmas\<close>

lemma exit_of_success: "exit_of r = Exited 0 \<longleftrightarrow> r = RunReturns None"
  by (simp add: exit_of_def split: run_end.splits option.splits)

lemma of_result_success: "of_result f r = RunReturns None \<longleftrightarrow> r = Ok ()"
  by (simp add: of_result_def split: res.splits)

lemma tty_end_success:
  "tty_end w c = RunReturns None \<longleftrightarrow> (\<exists>r. runTTY_role (peer_ok w c) c = Ok r \<and> w_tty_start w r = Some None)"
  by (auto simp: tty_end_def runTTY_def split: res.splits option.splits)

lemma live_loops: "runAetherlight (Ok i) c (replicate n None) (replicate m None) =
    (if Allows c = [] \<and> Forwards c = [] then Some (Ok ()) else None)"
  using runAetherlight_returns [of i c "replicate n None" "replicate m None"]
  by (auto simp: runAetherlight_def aetherlight_loops_def split: if_splits)

lemma aetherlight_end_success:
  "aetherlight_end w c node = RunReturns None \<longleftrightarrow> (\<exists>i. node = Ok i) \<and> Allows c = [] \<and> Forwards c = []"
proof (cases node)
  case (Ok i)
  then show ?thesis by (auto simp: aetherlight_end_def live_loops of_result_def)
qed (simp_all add: aetherlight_end_def runAetherlight_def of_result_def)

text \<open>A node that has something to serve and loads never ends but by a failed session.\<close>

lemma serving_node_runs_on:
  assumes "Allows c \<noteq> [] \<or> Forwards c \<noteq> []"
  shows "aetherlight_end w c (Ok i) = (if w_session_failed w then RunFatal else RunsOn)"
  using assms by (auto simp: aetherlight_end_def live_loops)

lemma main_disk: "fst (main w cmd fs) = (case cmd of CertificateCmd c \<Rightarrow> fst (CliCertificate_Run w c fs) | _ \<Rightarrow> fs)"
  by (simp add: main_def split: cli.splits)

section \<open>Properties\<close>

text \<open>C39. When the process exits with success: a certificate command whose run succeeded; a proxy on a
  terminal whose session ended without an error; a proxy on the server that has loaded its node and
  has nothing to serve; and a proxy with an unknown type of signalling, which does nothing. The
  signalling server never does, and neither does a node with something to serve, whatever it
  encounters.\<close>

theorem exit_success_iff:
  "snd (main w cmd fs) = Exited 0 \<longleftrightarrow>
     (case cmd of
        CertificateCmd (GenerateCmd c) \<Rightarrow>
          snd (Generate_Run (w_extern w) (w_ca_key w) (w_ca_now w) (w_node_key w) (w_now w) c fs) = Ok ()
      | CertificateCmd (GenerateCACmd c) \<Rightarrow>
          snd (GenerateCA_Run (w_extern w) (w_ca_key w) (w_ca_now w) c fs) = Ok ()
      | CertificateCmd (ReSignCmd c) \<Rightarrow> snd (ReSign_Run (w_extern w) (w_now w) c fs) = Ok ()
      | SignalCmd c \<Rightarrow> False
      | ProxyCmd c \<Rightarrow>
          if SignalType c = ''tty''
          then \<exists>r. runTTY_role (peer_ok w c) c = Ok r \<and> w_tty_start w r = Some None
          else if SignalType c = ''aetherlight''
          then (\<exists>i. load_identity (w_extern w) (w_clock w) (w_order w) fs c = Ok i) \<and> Allows c = [] \<and> Forwards c = []
          else True)"
proof (cases cmd)
  case (ProxyCmd c)
  then show ?thesis
    by (simp add: main_def exit_of_success CliProxy_end_def CliProxy_Run_def tty_end_success aetherlight_end_success)
next
  case (SignalCmd c)
  then show ?thesis by (simp add: main_def exit_of_success CliSignal_Run_def)
next
  case (CertificateCmd c)
  then show ?thesis
    by (cases c) (simp_all add: main_def exit_of_success CliCertificate_Run_def of_result_success)
qed

end
