(* ===== verification/FramedLink.thy ===== *)
theory FramedLink
  imports SignalLink FramedMessenger ChunkedFrames
begin

text \<open>
  The signalling of \<open>signal-messenger.go\<close> on the messengers it really has below it, the encrypting one
  on the framing one on a connection, and its relation to the encrypted link of \<open>SignalLink\<close>.
\<close>

section \<open>The framed link\<close>

text \<open>
  The two ends, the pieces on the way, and whether the reading end is open. \<open>fw_log\<close> is a record of the
  cipher texts that were written, which the program does not keep. The network cuts each frame into
  the pieces \<open>net\<close> gives. A read that waits is \<open>None\<close> and leaves the pieces where they are: when more
  arrive it starts again with the same ones.
\<close>

record ('h, 'c) fwire =
  fw_from :: "('h, 'c) noised"
  fw_conn :: "bytes list"
  fw_to :: "('h, 'c) noised"
  fw_open :: bool
  fw_log :: "bytes list"

type_synonym flink_error = "(frame_error, unit) noised_error"

definition framed_Write ::
    "('h, 'c) noise_lib \<Rightarrow> (bytes \<Rightarrow> nat) \<Rightarrow> nat \<Rightarrow> (bytes \<Rightarrow> bytes list) \<Rightarrow> bytes \<Rightarrow> ('h, 'c) fwire
     \<Rightarrow> ('h, 'c) fwire \<times> (flink_error, unit) res" where
  "framed_Write N sp mem net b s =
     (case noised_Write N (frame_messenger sp mem) b \<lparr>fe_in = ([], Waits), fe_out = []\<rparr> (fw_from s) of
        (e, c, r) \<Rightarrow>
          (s\<lparr>fw_from := c, fw_conn := fw_conn s @ net (fe_out e),
             fw_log := fw_log s @ (case snd (Encrypt N (nm_enc (fw_from s)) b) of Some ct \<Rightarrow> [ct] | None \<Rightarrow> [])\<rparr>, r))"

definition framed_Read ::
    "('h, 'c) noise_lib \<Rightarrow> (bytes \<Rightarrow> nat) \<Rightarrow> nat \<Rightarrow> ('h, 'c) fwire
     \<Rightarrow> (('h, 'c) fwire \<times> (flink_error, bytes) res) option" where
  "framed_Read N sp mem s =
     (if \<not> fw_open s then Some (s, Err (IOFailed (FrameRead ConnFailed)))
      else case noised_Read N (frame_messenger sp mem) \<lparr>fe_in = (fw_conn s, Waits), fe_out = []\<rparr> (fw_to s) of
        (e, c, r) \<Rightarrow>
          if r = Err (IOFailed FrameWaits) then None
          else Some (s\<lparr>fw_conn := fst (fe_in e), fw_to := c\<rparr>, r))"

definition framed_link ::
    "('h, 'c) noise_lib \<Rightarrow> (bytes \<Rightarrow> nat) \<Rightarrow> nat \<Rightarrow> (bytes \<Rightarrow> bytes list) \<Rightarrow> (('h, 'c) fwire, flink_error) link" where
  "framed_link N sp mem net =
     \<lparr>l_Read = framed_Read N sp mem, l_Write = framed_Write N sp mem net,
      l_Close = (\<lambda>s. (s\<lparr>fw_open := False\<rparr>, Ok ()))\<rparr>"

definition new_fwire :: "('h, 'c) noised \<Rightarrow> ('h, 'c) noised \<Rightarrow> ('h, 'c) fwire" where
  "new_fwire a b = \<lparr>fw_from = a, fw_conn = [], fw_to = b, fw_open = True, fw_log = []\<rparr>"

section \<open>One message at a time\<close>

text \<open>The network cuts frames into pieces that are not empty, and delivers all of them.\<close>

definition cuts :: "(bytes \<Rightarrow> bytes list) \<Rightarrow> bool" where
  "cuts net \<longleftrightarrow> (\<forall>f. concat (net f) = f \<and> [] \<notin> set (net f))"

lemma cuts_pieces: "cuts net \<Longrightarrow> pieces (net (frame_of ct)) ct"
  by (simp add: cuts_def pieces_def)

lemma cuts_Nil: "cuts net \<Longrightarrow> net [] = []"
  unfolding cuts_def by (metis concat_eq_Nil_conv last_in_set)

text \<open>A framed link stands for the link of whole cipher texts.\<close>

definition stands_for ::
    "('h, 'c) noise_lib \<Rightarrow> (bytes \<Rightarrow> nat) \<Rightarrow> nat \<Rightarrow> ('h, 'c) wire \<Rightarrow> ('h, 'c) fwire \<Rightarrow> bool" where
  "stands_for N sp mem w s \<longleftrightarrow>
     wire_ok N w \<and> w_from w = fw_from s \<and> w_to w = fw_to s \<and> w_open w = fw_open s
     \<and> (\<forall>ct\<in>set (w_queue w). framable sp mem ct)
     \<and> (\<exists>css. fw_conn s = concat css \<and> list_all2 pieces css (w_queue w))"

text \<open>Results that mean the same to the callers.\<close>

fun same_result :: "('e, 'a) res \<Rightarrow> ('f, 'a) res \<Rightarrow> bool" where
  "same_result (Ok a) (Ok b) = (a = b)"
| "same_result (Err e) (Err f) = True"
| "same_result r r' = False"

lemma framed_write_stands:
  assumes "stands_for N sp mem w s" and "cuts net" and "framed_Write N sp mem net b s = (s', r)"
    and "\<forall>ct\<in>set (fw_log s'). framable sp mem ct"
  shows "\<exists>w' r'. wire_Write N b w = (w', r') \<and> stands_for N sp mem w' s' \<and> same_result r r'"
proof -
  obtain d ct where e: "Encrypt N (nm_enc (fw_from s)) b = (d, ct)" by fastforce
  obtain css where c: "fw_conn s = concat css" "list_all2 pieces css (w_queue w)"
    using assms(1) by (auto simp: stands_for_def)
  have f: "w_from w = fw_from s" "wire_ok N w" using assms(1) by (simp_all add: stands_for_def)
  show ?thesis
  proof (cases ct)
    case None
    have "d = nm_enc (fw_from s)" using f(2) e None by (auto simp: wire_ok_def)
    then show ?thesis
      using assms(1,3) e None f(1) cuts_Nil [OF assms(2)]
      by (auto simp: framed_Write_def wire_Write_def noised_Write_def stands_for_def wire_ok_def)
  next
    case (Some x)
    have g: "framable sp mem x" using assms(3,4) e Some by (auto simp: framed_Write_def split: prod.splits)
    have s': "s' = s\<lparr>fw_from := (fw_from s)\<lparr>nm_enc := d\<rparr>, fw_conn := fw_conn s @ net (frame_of x), fw_log := fw_log s @ [x]\<rparr>"
      "r = Ok ()"
      using assms(3) e Some frame_Write_framable [OF g]
      by (auto simp: framed_Write_def noised_Write_def frame_messenger_def)
    let ?w = "w\<lparr>w_queue := w_queue w @ [x], w_from := (fw_from s)\<lparr>nm_enc := d\<rparr>\<rparr>"
    have w: "wire_Write N b w = (?w, Ok ())" using e Some f(1) by (simp add: wire_Write_def noised_Write_def)
    have "wire_ok N ?w" using noised.write_law [OF f(2), of b] w by (simp add: noised_link_def)
    moreover have "\<exists>css'. fw_conn s' = concat css' \<and> list_all2 pieces css' (w_queue w @ [x])"
      using c s' cuts_pieces [OF assms(2)]
      by (intro exI [of _ "css @ [net (frame_of x)]"]) (simp add: list_all2_appendI)
    ultimately have "stands_for N sp mem ?w s'" using assms(1) g s' by (auto simp: stands_for_def)
    with w s'(2) show ?thesis by simp
  qed
qed

lemma empty_waits: "messenger_Read False mem ([], Waits) = (ReadBlocks, [], Waits)"
  by (simp add: messenger_Read_def messenger_read_def peek_loop.simps [of 8 "[]"] bufsize_def)

lemma framed_read_stands:
  assumes "stands_for N sp mem w s" and "framed_Read N sp mem s = Some (s', r)"
  shows "\<exists>w' r'. wire_Read N w = Some (w', r') \<and> stands_for N sp mem w' s' \<and> same_result r r' \<and> fw_log s' = fw_log s"
proof (cases "fw_open s")
  case False
  with assms show ?thesis by (auto simp: framed_Read_def wire_Read_def stands_for_def)
next
  case True
  obtain css where c: "fw_conn s = concat css" "list_all2 pieces css (w_queue w)"
    using assms(1) by (auto simp: stands_for_def)
  have w: "w_to w = fw_to s" "w_open w" "wire_ok N w" using assms(1) True by (simp_all add: stands_for_def)
  show ?thesis
  proof (cases "w_queue w")
    case Nil
    with c have "fw_conn s = []" by simp
    with assms(2) True show ?thesis
      by (simp add: framed_Read_def noised_Read_def frame_messenger_def frame_Read_def empty_waits)
  next
    case (Cons ct q)
    with c obtain cs css' where cs: "fw_conn s = cs @ concat css'" "pieces cs ct" "list_all2 pieces css' q"
      by (auto simp: list_all2_Cons2)
    have g: "framable sp mem ct" using assms(1) Cons by (simp add: stands_for_def)
    obtain d p where dec: "Decrypt N (nm_dec (fw_to s)) ct = (d, Some p)"
      using w(1,3) Cons by (auto simp: wire_ok_def split: prod.splits option.splits)
    have fr: "frame_Read mem \<lparr>fe_in = (fw_conn s, Waits), fe_out = []\<rparr>
        = (\<lparr>fe_in = (concat css', Waits), fe_out = []\<rparr>, Ok ct)"
      using frame_Read_pieces [OF g cs(2), of "\<lparr>fe_in = (fw_conn s, Waits), fe_out = []\<rparr>" "concat css'" Waits] cs(1) by simp
    have s': "s' = s\<lparr>fw_conn := concat css', fw_to := (fw_to s)\<lparr>nm_dec := d\<rparr>\<rparr>" "r = Ok p"
      using assms(2) True fr dec by (auto simp: framed_Read_def noised_Read_def frame_messenger_def)
    let ?w = "w\<lparr>w_queue := q, w_to := (fw_to s)\<lparr>nm_dec := d\<rparr>\<rparr>"
    have r: "wire_Read N w = Some (?w, Ok p)" using Cons w dec by (simp add: wire_Read_def noised_Read_def)
    have "wire_ok N ?w" using noised.read_law [OF w(3), of ?w p] r by (simp add: noised_link_def)
    then have "stands_for N sp mem ?w s'" using assms(1) Cons cs(3) s' by (auto simp: stands_for_def)
    with r s' show ?thesis by simp
  qed
qed

section \<open>Runs\<close>

text \<open>A signaller over another link.\<close>

definition with_io :: "'t \<Rightarrow> ('s, 'c) signaller \<Rightarrow> ('t, 'c) signaller" where
  "with_io w \<sigma> = \<lparr>sg_io = w, sg_ctx = sg_ctx \<sigma>, sg_loop = sg_loop \<sigma>, sg_closed = sg_closed \<sigma>\<rparr>"

lemma with_io_simps [simp]:
  "sg_io (with_io w \<sigma>) = w" "sg_ctx (with_io w \<sigma>) = sg_ctx \<sigma>" "sg_loop (with_io w \<sigma>) = sg_loop \<sigma>"
  "sg_closed (with_io w \<sigma>) = sg_closed \<sigma>" "with_io w (\<sigma>\<lparr>sg_io := x\<rparr>) = with_io w \<sigma>"
  "(with_io w \<sigma>)\<lparr>sg_io := w'\<rparr> = with_io w' \<sigma>" "(with_io w \<sigma>)\<lparr>sg_loop := l\<rparr> = with_io w (\<sigma>\<lparr>sg_loop := l\<rparr>)"
  "(with_io w \<sigma>)\<lparr>sg_ctx := c\<rparr> = with_io w (\<sigma>\<lparr>sg_ctx := c\<rparr>)"
  by (simp_all add: with_io_def)

lemma with_io_chans [simp]:
  "offer_chan (with_io w \<sigma>) = offer_chan \<sigma>" "answer_chan (with_io w \<sigma>) = answer_chan \<sigma>"
  "ican_chan (with_io w \<sigma>) = ican_chan \<sigma>"
  by (simp_all add: offer_chan_def answer_chan_def ican_chan_def)

lemma with_io_close_kind [simp]: "close_kind k (with_io w \<sigma>) = with_io w (close_kind k \<sigma>)"
  by (simp add: close_kind_def with_io_def)

lemma with_io_readLoop_send:
  "\<sigma>' \<in> set (readLoop_send \<sigma>) \<Longrightarrow> with_io w \<sigma>' \<in> set (readLoop_send (with_io w \<sigma>))"
proof (cases "sg_loop \<sigma>")
  case (Sending x)
  then show "\<sigma>' \<in> set (readLoop_send \<sigma>) \<Longrightarrow> with_io w \<sigma>' \<in> set (readLoop_send (with_io w \<sigma>))"
    by (cases x) (auto simp: readLoop_send_def)
qed (simp_all add: readLoop_send_def)

lemma log_grows: "framed_Write N sp mem net b s = (s', r) \<Longrightarrow> set (fw_log s) \<subseteq> set (fw_log s')"
  by (auto simp: framed_Write_def split: prod.splits)

text \<open>The senders and the reading loop on both links.\<close>

lemma same_result_map_err [simp]: "same_result (map_err f r) (map_err g r') = same_result r r'"
  by (cases r; cases r') simp_all

lemma same_result_Ok: "same_result (Ok a) r' \<longleftrightarrow> r' = Ok a"
  by (cases r') auto

lemma same_result_Err: "same_result (Err e) r' \<longleftrightarrow> (\<exists>f. r' = Err f)"
  by (cases r') auto

lemma framed_send_stands:
  fixes f :: "flink_error \<Rightarrow> 'e" and g :: "link_error \<Rightarrow> 'f"
  assumes "stands_for N sp mem w s" and "cuts net"
    and "apsnd (map_err f) (l_Write (framed_link N sp mem net) b s) = (s', r)"
    and "\<forall>ct\<in>set (fw_log s'). framable sp mem ct"
  shows "\<exists>w' r'. apsnd (map_err g) (l_Write (noised_link N) b w) = (w', r') \<and> stands_for N sp mem w' s' \<and> same_result r r'"
proof -
  obtain q where q: "framed_Write N sp mem net b s = (s', q)" "r = map_err f q"
    using assms(3) by (cases "framed_Write N sp mem net b s") (auto simp: framed_link_def)
  from framed_write_stands [OF assms(1,2) q(1) assms(4)] q(2) show ?thesis
    by (force simp: noised_link_def)
qed

lemma loop_read_stands:
  assumes "stands_for N sp mem w (sg_io \<sigma>)" and "readLoop_read L (framed_link N sp mem net) \<sigma> = Some \<sigma>'"
  shows "\<exists>w'. readLoop_read L (noised_link N) (with_io w \<sigma>) = Some (with_io w' \<sigma>')
    \<and> stands_for N sp mem w' (sg_io \<sigma>') \<and> fw_log (sg_io \<sigma>') = fw_log (sg_io \<sigma>)"
proof (cases "sg_ctx \<sigma> = None")
  case False
  with assms show ?thesis by (auto simp: readLoop_read_def)
next
  case True
  with assms(2) obtain io r where r: "framed_Read N sp mem (sg_io \<sigma>) = Some (io, r)"
    by (auto simp: readLoop_read_def framed_link_def split: option.splits)
  obtain w' r' where w: "wire_Read N w = Some (w', r')" "stands_for N sp mem w' io" "same_result r r'"
    "fw_log io = fw_log (sg_io \<sigma>)"
    using framed_read_stands [OF assms(1) r] by blast
  show ?thesis
    using assms(2) True r w
    by (cases r; cases r')
      (auto simp: readLoop_read_def framed_link_def noised_link_def intro!: exI [of _ w'] split: option.splits)
qed

lemma close_stands:
  assumes "stands_for N sp mem w (sg_io \<sigma>)"
  shows "\<exists>w'. fst (signal_Close (noised_link N) (with_io w \<sigma>)) = with_io w' (fst (signal_Close (framed_link N sp mem net) \<sigma>))
    \<and> stands_for N sp mem w' (sg_io (fst (signal_Close (framed_link N sp mem net) \<sigma>)))
    \<and> fw_log (sg_io (fst (signal_Close (framed_link N sp mem net) \<sigma>))) = fw_log (sg_io \<sigma>)"
  using assms
  by (intro exI [of _ "w\<lparr>w_open := False\<rparr>"])
    (auto simp: signal_Close_def Let_def noised_link_def framed_link_def close_kind_def stands_for_def wire_ok_def)

lemma loop_send_io: "\<sigma>' \<in> set (readLoop_send \<sigma>) \<Longrightarrow> sg_io \<sigma>' = sg_io \<sigma>"
  using in_readLoop_send by fastforce

lemma framed_step_log:
  assumes "sig_step L (framed_link N sp mem net) \<sigma> l \<sigma>'"
  shows "set (fw_log (sg_io \<sigma>)) \<subseteq> set (fw_log (sg_io \<sigma>'))"
  using assms
proof (induction rule: sig_step.induct)
  case (send_offer s \<sigma> io)
  then show ?case using log_grows [of N sp mem net _ "sg_io \<sigma>"]
    by (fastforce simp: SendOffer_def framed_link_def apsnd_def map_prod_def split: prod.splits)
next
  case (send_answer s \<sigma> io)
  then show ?case using log_grows [of N sp mem net _ "sg_io \<sigma>"]
    by (fastforce simp: SendAnswer_def framed_link_def apsnd_def map_prod_def split: prod.splits)
next
  case (send_candidate k b \<sigma> io)
  then show ?case using log_grows [of N sp mem net _ "sg_io \<sigma>"]
    by (fastforce simp: SendICECandidate_def framed_link_def apsnd_def map_prod_def split: prod.splits)
next
  case (send_failed io e s \<sigma> k)
  then show ?case using log_grows [of N sp mem net _ "sg_io \<sigma>"]
    by (fastforce simp: SendOffer_def SendAnswer_def SendICECandidate_def framed_link_def apsnd_def map_prod_def
        split: prod.splits option.splits)
next
  case (read \<sigma> \<sigma>')
  then show ?case
    by (auto simp: readLoop_read_def framed_link_def framed_Read_def split: option.splits prod.splits res.splits if_splits)
next
  case (give_up \<sigma>' \<sigma>)
  then show ?case using loop_send_io by fastforce
next
  case (close_all \<sigma>)
  then show ?case by (simp add: signal_Close_rest framed_link_def)
qed (auto simp: SendICECandidate_def in_Recv)

lemma framed_step_stands:
  assumes "sig_step L (framed_link N sp mem net) \<sigma> l \<sigma>'" and "stands_for N sp mem w (sg_io \<sigma>)" and "cuts net"
    and "\<forall>ct\<in>set (fw_log (sg_io \<sigma>')). framable sp mem ct"
  shows "\<exists>w'. sig_step L (noised_link N) (with_io w \<sigma>) l (with_io w' \<sigma>') \<and> stands_for N sp mem w' (sg_io \<sigma>')"
  using assms
proof (induction rule: sig_step.induct)
  case (send_offer s \<sigma> io)
  from framed_send_stands [where f = LinkFailed and g = LinkFailed, OF send_offer(2,3) send_offer(1) [unfolded SendOffer_def]]
    send_offer(4)
  obtain w' where "SendOffer (noised_link N) s (sg_io (with_io w \<sigma>)) = (w', Ok ())" "stands_for N sp mem w' io"
    by (auto simp: same_result_Ok SendOffer_def)
  from sig_step.send_offer [OF this(1), of L] this(2) show ?case by (intro exI [of _ w']) simp
next
  case (send_answer s \<sigma> io)
  from framed_send_stands [where f = LinkFailed and g = LinkFailed, OF send_answer(2,3) send_answer(1) [unfolded SendAnswer_def]]
    send_answer(4)
  obtain w' where "SendAnswer (noised_link N) s (sg_io (with_io w \<sigma>)) = (w', Ok ())" "stands_for N sp mem w' io"
    by (auto simp: same_result_Ok SendAnswer_def)
  from sig_step.send_answer [OF this(1), of L] this(2) show ?case by (intro exI [of _ w']) simp
next
  case (send_candidate k b \<sigma> io)
  have "apsnd (map_err LinkFailed) (l_Write (framed_link N sp mem net)
      (marshal_msg \<lparr>msg_Type = signalMessengerIceCandidate, msg_Data = b\<rparr>) (sg_io \<sigma>)) = (io, Ok ())"
    using send_candidate(1,2) by (simp add: SendICECandidate_def)
  from framed_send_stands [where f = LinkFailed and g = LinkFailed, OF send_candidate(3,4) this] send_candidate(1,5)
  obtain w' where "SendICECandidate L (noised_link N) (Some k) (sg_io (with_io w \<sigma>)) = (w', Ok ())" "stands_for N sp mem w' io"
    by (auto simp: same_result_Ok SendICECandidate_def)
  from sig_step.send_candidate [OF send_candidate(1) this(1)] this(2) show ?case by (intro exI [of _ w']) simp
next
  case (send_nil \<sigma> io r)
  then show ?case
    using sig_step.send_nil [of L "noised_link N" "with_io w \<sigma>" w "Ok ()"]
    by (auto simp: SendICECandidate_def intro!: exI [of _ w])
next
  case (send_failed io e s \<sigma> k)
  have "\<exists>w' f. (w', Err f) \<in> {SendOffer (noised_link N) s w, SendAnswer (noised_link N) s w,
      SendICECandidate L (noised_link N) (Some k) w} \<and> stands_for N sp mem w' io"
  proof -
    note st = framed_send_stands [where f = LinkFailed and g = LinkFailed, OF send_failed(2,3)]
    from send_failed(1) consider (offer) "SendOffer (framed_link N sp mem net) s (sg_io \<sigma>) = (io, Err e)"
      | (answer) "SendAnswer (framed_link N sp mem net) s (sg_io \<sigma>) = (io, Err e)"
      | (candidate) "SendICECandidate L (framed_link N sp mem net) (Some k) (sg_io \<sigma>) = (io, Err e)" by auto
    then show ?thesis
    proof cases
      case offer
      from st [OF offer [unfolded SendOffer_def]] send_failed(4) show ?thesis
        by (fastforce simp: same_result_Err SendOffer_def)
    next
      case answer
      from st [OF answer [unfolded SendAnswer_def]] send_failed(4) show ?thesis
        by (fastforce simp: same_result_Err SendAnswer_def)
    next
      case candidate
      show ?thesis
      proof (cases "cand_JSON L k")
        case None
        with candidate send_failed(2) show ?thesis by (auto simp: SendICECandidate_def)
      next
        case (Some b)
        have "apsnd (map_err LinkFailed) (l_Write (framed_link N sp mem net)
            (marshal_msg \<lparr>msg_Type = signalMessengerIceCandidate, msg_Data = b\<rparr>) (sg_io \<sigma>)) = (io, Err e)"
          using candidate Some by (simp add: SendICECandidate_def)
        from st [OF this] send_failed(4) Some show ?thesis
          by (fastforce simp: same_result_Err SendICECandidate_def)
      qed
    qed
  qed
  then obtain w' f where "(w', Err f) \<in> {SendOffer (noised_link N) s (sg_io (with_io w \<sigma>)),
      SendAnswer (noised_link N) s (sg_io (with_io w \<sigma>)), SendICECandidate L (noised_link N) (Some k) (sg_io (with_io w \<sigma>))}"
      "stands_for N sp mem w' io" by auto
  from sig_step.send_failed [OF this(1)] this(2) show ?case by (intro exI [of _ w']) simp
next
  case (read \<sigma> \<sigma>')
  from loop_read_stands [OF read(3,2)] read(1) show ?case
    by (auto intro!: sig_step.read)
next
  case (got_offer \<sigma>' v ctx \<sigma>)
  then show ?case
    using sig_step.got_offer [where \<sigma> = "with_io w \<sigma>" and ctx = ctx] by (intro exI [of _ w]) (auto simp: in_RecvOffer)
next
  case (got_answer \<sigma>' v ctx \<sigma>)
  then show ?case
    using sig_step.got_answer [where \<sigma> = "with_io w \<sigma>" and ctx = ctx] by (intro exI [of _ w]) (auto simp: in_RecvAnswer)
next
  case (got_candidate \<sigma>' v ctx \<sigma>)
  then show ?case
    using sig_step.got_candidate [where \<sigma> = "with_io w \<sigma>" and ctx = ctx]
    by (intro exI [of _ w]) (auto simp: in_RecvICECandidate)
next
  case (give_up \<sigma>' \<sigma>)
  then show ?case
    using sig_step.give_up [OF with_io_readLoop_send [OF give_up(1)]] loop_send_io [OF give_up(1)]
    by (intro exI [of _ w]) simp
next
  case (cancel \<sigma> e)
  then show ?case
    using sig_step.cancel [of L "noised_link N" "with_io w \<sigma>" e] by (intro exI [of _ w]) simp
next
  case (close_all \<sigma>)
  obtain w' where w': "fst (signal_Close (noised_link N) (with_io w \<sigma>))
      = with_io w' (fst (signal_Close (framed_link N sp mem net) \<sigma>))"
    "stands_for N sp mem w' (sg_io (fst (signal_Close (framed_link N sp mem net) \<sigma>)))"
    using close_stands [OF close_all(1)] by blast
  from sig_step.close_all [of L "noised_link N" "with_io w \<sigma>"] w' show ?case by auto
qed

lemma framed_run_stands:
  "sig_run L (framed_link N sp mem net) \<sigma>0 ls \<sigma> \<Longrightarrow> stands_for N sp mem w (sg_io \<sigma>0) \<Longrightarrow> cuts net \<Longrightarrow>
     \<forall>ct\<in>set (fw_log (sg_io \<sigma>)). framable sp mem ct \<Longrightarrow>
     \<exists>w'. sig_run L (noised_link N) (with_io w \<sigma>0) ls (with_io w' \<sigma>) \<and> stands_for N sp mem w' (sg_io \<sigma>)"
proof (induction rule: sig_run.induct)
  case start
  then show ?case by (auto intro: sig_run.start)
next
  case (extend ls \<sigma> l \<sigma>')
  have "\<forall>ct\<in>set (fw_log (sg_io \<sigma>)). framable sp mem ct"
    using framed_step_log [OF extend(2)] extend(6) by blast
  with extend obtain w1 where w1: "sig_run L (noised_link N) (with_io w \<sigma>0) ls (with_io w1 \<sigma>)"
    "stands_for N sp mem w1 (sg_io \<sigma>)" by blast
  from framed_step_stands [OF extend(2) w1(2) extend(5,6)] w1(1) show ?case
    by (auto intro: sig_run.extend)
qed

section \<open>Properties\<close>


text \<open>A network that delivers every frame in one piece.\<close>

definition whole_frames :: "bytes \<Rightarrow> bytes list" where
  "whole_frames f = (if f = [] then [] else [f])"

lemma whole_frames_cuts: "cuts whole_frames"
  by (simp add: cuts_def whole_frames_def)

lemma demo_framed_write:
  "l_Write (framed_link demo_noise (\<lambda>_. 0) 256 whole_frames) m (new_fwire (demo_end n) (demo_end n))
     = (s', Ok ()) \<Longrightarrow> fw_log s' = [''k'' @ m]"
  by (auto simp: framed_link_def framed_Write_def demo_noise_def demo_end_def new_fwire_def split: prod.splits)


text \<open>The receiver before a frame \<open>f\<close> that it will misread, or after it has given up.\<close>

definition unread :: "('h, 'c) noised \<Rightarrow> bytes \<Rightarrow> (('h, 'c) fwire, 'd) signaller \<Rightarrow> bool" where
  "unread b f \<sigma> \<longleftrightarrow>
     sg_loop \<sigma> = Ended
   \<or> sg_loop \<sigma> = AtTop \<and> sg_ctx \<sigma> = None \<and> (\<exists>fs. fw_conn (sg_io \<sigma>) = f # fs) \<and> fw_to (sg_io \<sigma>) = b \<and> fw_open (sg_io \<sigma>)"

lemma misread_frame:
  assumes "2560 \<le> length ct" and "length ct < 2816" and "bufsize \<le> mem"
  shows "frame_Read mem \<lparr>fe_in = (frame_of ct # fs, e), fe_out = x\<rparr>
    = (\<lparr>fe_in = (fs, e), fe_out = x\<rparr>, Ok (take (length ct mod 256) (LF # ct)))"
  using newline_length_is_misread [of "\<lparr>sl_array = ct, sl_len = length ct\<rparr>" mem fs e] assms
  by (simp add: sl_ok_def sl_data_def frame_of_def frame_Read_def messenger_Read_def)

lemma unread_write:
  "fst (framed_Write N sp mem net m s) = s' \<Longrightarrow>
     fw_to s' = fw_to s \<and> fw_open s' = fw_open s \<and> (\<exists>cs. fw_conn s' = fw_conn s @ cs)"
  by (auto simp: framed_Write_def split: prod.splits)

lemma unread_io:
  assumes "unread b f \<sigma>" and "fst (l_Write (framed_link N sp mem net) m (sg_io \<sigma>)) = io"
  shows "unread b f (\<sigma>\<lparr>sg_io := io\<rparr>)"
  using assms(1) unread_write [of N sp mem net m "sg_io \<sigma>" io] assms(2) by (auto simp: unread_def framed_link_def)

lemma send_io:
  "SendOffer M s io = (io', r) \<Longrightarrow> \<exists>m. fst (l_Write M m io) = io'"
  "SendAnswer M s io = (io', r) \<Longrightarrow> \<exists>m. fst (l_Write M m io) = io'"
  "SendICECandidate L M k io = (io', r) \<Longrightarrow> io' = io \<or> (\<exists>m. fst (l_Write M m io) = io')"
  by (auto simp: SendOffer_def SendAnswer_def SendICECandidate_def apsnd_def map_prod_def split: prod.splits option.splits)
    (metis fst_conv)+

lemma unread_step:
  assumes "sig_step L (framed_link N sp mem net) \<sigma> l \<sigma>'" and "unread b (frame_of ct) \<sigma>" and "l \<noteq> Shut"
    and "2560 \<le> length ct" and "length ct < 2816" and "bufsize \<le> mem"
    and "snd (Decrypt N (nm_dec b) (take (length ct mod 256) (LF # ct))) = None"
  shows "unread b (frame_of ct) \<sigma>' \<and> got [l] = []"
  using assms
proof (induction rule: sig_step.induct)
  case (send_offer s \<sigma> io)
  with unread_io send_io(1) [OF send_offer(1)] show ?case by fastforce
next
  case (send_answer s \<sigma> io)
  with unread_io send_io(2) [OF send_answer(1)] show ?case by fastforce
next
  case (send_candidate k b \<sigma> io)
  with unread_io send_io(3) [OF send_candidate(2)] show ?case by fastforce
next
  case (send_nil \<sigma> io r)
  with unread_io send_io(3) [OF send_nil(1)] show ?case by fastforce
next
  case (send_failed io e s \<sigma> k)
  have "SendOffer (framed_link N sp mem net) s (sg_io \<sigma>) = (io, Err e)
      \<or> SendAnswer (framed_link N sp mem net) s (sg_io \<sigma>) = (io, Err e)
      \<or> SendICECandidate L (framed_link N sp mem net) (Some k) (sg_io \<sigma>) = (io, Err e)"
    using send_failed(1) by auto
  then have "io = sg_io \<sigma> \<or> (\<exists>m. fst (l_Write (framed_link N sp mem net) m (sg_io \<sigma>)) = io)"
    by (elim disjE) (drule send_io(1), blast, drule send_io(2), blast, drule send_io(3), blast)
  with unread_io [OF send_failed(2)] send_failed(2) show ?case by fastforce
next
  case (read \<sigma> \<sigma>')
  then obtain fs where c: "sg_ctx \<sigma> = None" "fw_conn (sg_io \<sigma>) = frame_of ct # fs" "fw_to (sg_io \<sigma>) = b" "fw_open (sg_io \<sigma>)"
    by (auto simp: unread_def)
  obtain d where d: "Decrypt N (nm_dec b) (take (length ct mod 256) (LF # ct)) = (d, None)"
    using read(8) by (metis prod.collapse)
  have "sg_loop \<sigma>' = Ended"
    using read(2) c d misread_frame [OF read(5-7), of fs Waits "[]"]
    by (auto simp: readLoop_read_def framed_link_def framed_Read_def noised_Read_def frame_messenger_def)
  then show ?case by (simp add: unread_def)
next
  case (give_up \<sigma>' \<sigma>)
  with in_readLoop_send [OF give_up(1)] show ?case by (auto simp: unread_def)
qed (auto simp: unread_def in_Recv)

lemma unread_run:
  assumes "2560 \<le> length ct" and "length ct < 2816" and "bufsize \<le> mem"
    and "snd (Decrypt N (nm_dec b) (take (length ct mod 256) (LF # ct))) = None"
  shows "sig_run L (framed_link N sp mem net) \<sigma>0 ls \<sigma> \<Longrightarrow> unread b (frame_of ct) \<sigma>0 \<Longrightarrow> Shut \<notin> set ls \<Longrightarrow>
    unread b (frame_of ct) \<sigma> \<and> got ls = []"
proof (induction rule: sig_run.induct)
  case (extend ls \<sigma> l \<sigma>')
  with unread_step [OF extend(2) _ _ assms] show ?case by auto
qed simp

text \<open>C11. An offer of an unlucky length stops the signalling. When the cipher text of an offer has 2560 to
  2815 bytes, \<open>SendOffer\<close> returns without an error, but the frame is misread; unless the misread bytes
  happen to decrypt, the reading loop ends, and until somebody shuts the receiver down nothing is
  received any more, neither the offer nor anything that is sent after it.\<close>

theorem unlucky_offer_stops_signalling:
  assumes "nm_dec b = nm_enc a" and "bufsize \<le> mem"
    and "Encrypt N (nm_enc a) (marshal_msg \<lparr>msg_Type = signalMessengerOffer, msg_Data = sdp\<rparr>) = (d, Some ct)"
    and "2560 \<le> length ct" and "length ct < 2816"
    and "snd (Decrypt N (nm_dec b) (take (length ct mod 256) (LF # ct))) = None"
  shows "\<exists>\<sigma>. sig_step L (framed_link N sp mem whole_frames) (NewSignalMessenger None (new_fwire a b))
        (Sent (Offer (to_valid sdp))) \<sigma>
    \<and> (\<forall>ls \<sigma>'. sig_run L (framed_link N sp mem whole_frames) \<sigma> ls \<sigma>' \<longrightarrow> Shut \<notin> set ls \<longrightarrow> got ls = [])"
proof -
  let ?M = "framed_link N sp mem whole_frames" and ?s0 = "NewSignalMessenger None (new_fwire a b)"
  let ?io = "(new_fwire a b)\<lparr>fw_from := a\<lparr>nm_enc := d\<rparr>, fw_conn := [frame_of ct], fw_log := [ct]\<rparr>"
  have n: "nbl_of (length ct) = 2" using assms(4,5) by (simp add: nbl_small)
  have "frame_Write sp ct x = (x\<lparr>fe_out := fe_out x @ frame_of ct\<rparr>, Ok ())" for x
    using n assms(4)
    by (auto simp: frame_Write_def frame_of_def write_frame_def messenger_Write_def messenger_write_def
        lib_slice_def sl_data_def Let_def)
  moreover have "frame_of ct \<noteq> []" using assms(4) by (auto simp: frame_of_def)
  ultimately have "SendOffer ?M sdp (sg_io ?s0) = (?io, Ok ())"
    using assms(3)
    by (simp add: SendOffer_def NewSignalMessenger_def framed_link_def framed_Write_def noised_Write_def
        frame_messenger_def whole_frames_def new_fwire_def)
  note s = sig_step.send_offer [OF this, of L]
  have "unread b (frame_of ct) (?s0\<lparr>sg_io := ?io\<rparr>)"
    by (simp add: unread_def NewSignalMessenger_def new_fwire_def)
  from s unread_run [OF assms(4,5,2,6) _ this] show ?thesis by blast
qed

theorem unlucky_offer_stops_signalling_witness:
  "\<exists>\<sigma>. sig_step demo_ice (framed_link demo_noise (\<lambda>_. 0) bufsize whole_frames)
        (NewSignalMessenger None (new_fwire (demo_end 0) (demo_end 0))) (Sent (Offer (replicate 2600 CHR ''v''))) \<sigma>
     \<and> (\<nexists>ls \<sigma>'. sig_run demo_ice (framed_link demo_noise (\<lambda>_. 0) bufsize whole_frames) \<sigma> ls \<sigma>' \<and> Shut \<notin> set ls \<and> got ls \<noteq> [])"
proof -
  let ?v = "replicate 2600 CHR ''v''"
  let ?m = "marshal_msg \<lparr>msg_Type = signalMessengerOffer, msg_Data = ?v\<rparr>"
  let ?b = "demo_end 0"
  have o: "length (json_quote signalMessengerOffer) = 7" "length (json_quote ''type'') = 6"
    "length (json_quote ''data'') = 6" by code_simp+
  have q: "quote_body (replicate n CHR ''v'') = replicate n CHR ''v''" for n
    by (induction n) (simp_all add: quote_body.simps(2) quote_ascii_def html_safe_def byte_val_def dquote_def bslash_def)
  have len: "length ?m = 2626"
    unfolding marshal_msg_def sm_msg.select_convs using o by (simp add: json_quote_def q)
  have v: "to_valid ?v = ?v" by (rule to_valid_ascii) (simp add: byte_val_def)
  have e: "Encrypt demo_noise (nm_enc ?b) ?m = ((''k'', 1), Some (''k'' @ ?m))"
    by (simp add: demo_noise_def demo_end_def)
  have b: "2560 \<le> length (''k'' @ ?m)" "length (''k'' @ ?m) < 2816" using len by simp_all
  have "length (''k'' @ ?m) mod 256 = Suc 66" using len by simp
  then have d: "snd (Decrypt demo_noise (nm_dec ?b) (take (length (''k'' @ ?m) mod 256) (LF # ''k'' @ ?m))) = None"
    by (simp only: take_Suc_Cons) (simp add: demo_noise_def demo_end_def LF_def)
  have n: "nm_dec ?b = nm_enc ?b" by (simp add: demo_end_def)
  from unlucky_offer_stops_signalling [OF n order.refl e b d, of demo_ice "\<lambda>_. 0"] v show ?thesis by auto
qed

end
