(* ===== verification/SendRace.thy ===== *)
theory SendRace
  imports SignalLink
begin

text \<open>
  \<open>NoisedMessenger.Write\<close> by several goroutines. The senders of \<open>signal-messenger.go\<close> share one
  messenger without a lock: \<open>proxy-egress.go\<close> sends its offer while the callback of \<open>ice.go\<close> sends
  candidates, and \<open>proxy-ingress.go\<close> does the same with its answer. A write is two steps, encrypting with the next
  nonce and passing the cipher text on, and the steps of different goroutines interleave. A call of
  \<open>chunkedIOMessenger.Write\<close> that returns because its context has ended leaves a goroutine behind that
  still writes; it is one of the goroutines here.
\<close>

section \<open>The goroutines\<close>

datatype sender = Free | Plain bytes | Sealed bytes | Returned "(link_error, unit) res"

text \<open>
  The cipher state, what was written, and the goroutines. \<open>ss_order\<close> is a record of the cipher texts
  in the order of encryption, with their messages, which the program does not keep.
\<close>

record 'c sending =
  ss_enc :: 'c
  ss_out :: "bytes list"
  ss_threads :: "nat \<Rightarrow> sender"
  ss_order :: "(bytes \<times> bytes) list"

definition new_sending :: "('h, 'c) noised \<Rightarrow> 'c sending" where
  "new_sending a = \<lparr>ss_enc = nm_enc a, ss_out = [], ss_threads = (\<lambda>_. Free), ss_order = []\<rparr>"

definition send_encrypt :: "('h, 'c) noise_lib \<Rightarrow> nat \<Rightarrow> bytes \<Rightarrow> 'c sending \<Rightarrow> 'c sending" where
  "send_encrypt N i b \<sigma> =
     (case Encrypt N (ss_enc \<sigma>) b of
        (d, None) \<Rightarrow> \<sigma>\<lparr>ss_enc := d, ss_threads := (ss_threads \<sigma>)(i := Returned (Err EncryptFailed))\<rparr>
      | (d, Some ct) \<Rightarrow>
          \<sigma>\<lparr>ss_enc := d, ss_threads := (ss_threads \<sigma>)(i := Sealed ct), ss_order := ss_order \<sigma> @ [(ct, b)]\<rparr>)"

definition send_put :: "nat \<Rightarrow> bytes \<Rightarrow> 'c sending \<Rightarrow> 'c sending" where
  "send_put i ct \<sigma> = \<sigma>\<lparr>ss_out := ss_out \<sigma> @ [ct], ss_threads := (ss_threads \<sigma>)(i := Returned (Ok ()))\<rparr>"

inductive send_step :: "('h, 'c) noise_lib \<Rightarrow> 'c sending \<Rightarrow> 'c sending \<Rightarrow> bool" for N where
  call: "ss_threads \<sigma> i = Free \<or> ss_threads \<sigma> i = Returned r \<Longrightarrow>
    send_step N \<sigma> (\<sigma>\<lparr>ss_threads := (ss_threads \<sigma>)(i := Plain b)\<rparr>)"
| encrypt: "ss_threads \<sigma> i = Plain b \<Longrightarrow> send_step N \<sigma> (send_encrypt N i b \<sigma>)"
| put: "ss_threads \<sigma> i = Sealed ct \<Longrightarrow> send_step N \<sigma> (send_put i ct \<sigma>)"
| put_fails: "ss_threads \<sigma> i = Sealed ct \<Longrightarrow>
    send_step N \<sigma> (\<sigma>\<lparr>ss_threads := (ss_threads \<sigma>)(i := Returned (Err (IOFailed ())))\<rparr>)"

inductive send_run :: "('h, 'c) noise_lib \<Rightarrow> 'c sending \<Rightarrow> 'c sending \<Rightarrow> bool" for N \<sigma>0 where
  start: "send_run N \<sigma>0 \<sigma>0"
| extend: "send_run N \<sigma>0 \<sigma> \<Longrightarrow> send_step N \<sigma> \<sigma>' \<Longrightarrow> send_run N \<sigma>0 \<sigma>'"

text \<open>Both steps of one goroutine together are \<open>NoisedMessenger.Write\<close>.\<close>

lemma steps_of_Write:
  assumes "noised_Write N queue_messenger b ([], ss_out \<sigma>) a = (io, a', r)" and "nm_enc a = ss_enc \<sigma>"
  shows "case ss_threads (send_encrypt N i b \<sigma>) i of
      Sealed ct \<Rightarrow> (let \<tau> = send_put i ct (send_encrypt N i b \<sigma>) in
        ss_out \<tau> = snd io \<and> ss_enc \<tau> = nm_enc a' \<and> ss_threads \<tau> i = Returned r)
    | t \<Rightarrow> ss_out \<sigma> = snd io \<and> ss_enc (send_encrypt N i b \<sigma>) = nm_enc a' \<and> t = Returned r"
  using assms by (auto simp: noised_Write_def send_encrypt_def send_put_def split: prod.splits option.splits)

section \<open>What the reading end makes of it\<close>

text \<open>The messages that are read up to the first error.\<close>

fun read_until_error :: "('h, 'c) noise_lib \<Rightarrow> ('h, 'c) noised \<Rightarrow> bytes list \<Rightarrow> bytes list" where
  "read_until_error N b [] = []"
| "read_until_error N b (ct # cts) =
     (case (noised_Read N queue_messenger (ct # cts, []) b :: _ \<times> _ \<times> (link_error, bytes) res) of
        (_, b', Ok p) \<Rightarrow> p # read_until_error N b' cts
      | _ \<Rightarrow> [])"

text \<open>
  A cipher state after some encryptions, and what the library promises: each message is encrypted
  with a nonce of its own, and opens with no other.
\<close>

definition after_enc :: "('h, 'c) noise_lib \<Rightarrow> 'c \<Rightarrow> bytes list \<Rightarrow> 'c" where
  "after_enc N c ps = fold (\<lambda>p c. fst (Encrypt N c p)) ps c"

definition own_nonce :: "('h, 'c) noise_lib \<Rightarrow> 'c \<Rightarrow> bool" where
  "own_nonce N c \<longleftrightarrow>
     (\<forall>ps qs m ct. length ps \<noteq> length qs \<longrightarrow> snd (Encrypt N (after_enc N c qs) m) = Some ct \<longrightarrow>
        snd (Decrypt N (after_enc N c ps) ct) = None)"

definition sealed_in_order :: "('h, 'c) noise_lib \<Rightarrow> 'c \<Rightarrow> (bytes \<times> bytes) list \<Rightarrow> bool" where
  "sealed_in_order N c xs \<longleftrightarrow>
     (\<forall>k<length xs. snd (Encrypt N (after_enc N c (map snd (take k xs))) (snd (xs ! k))) = Some (fst (xs ! k)))"

lemma after_enc_snoc: "after_enc N c (ps @ [p]) = fst (Encrypt N (after_enc N c ps) p)"
  by (simp add: after_enc_def)

lemma sealed_snoc:
  "sealed_in_order N c xs \<Longrightarrow> snd (Encrypt N (after_enc N c (map snd xs)) p) = Some ct \<Longrightarrow>
     sealed_in_order N c (xs @ [(ct, p)])"
  by (auto simp: sealed_in_order_def nth_append less_Suc_eq)

text \<open>The invariant: every cipher text on the way was encrypted, each with the nonce of its place.\<close>

definition send_inv :: "('h, 'c) noise_lib \<Rightarrow> 'c \<Rightarrow> 'c sending \<Rightarrow> bool" where
  "send_inv N c \<sigma> \<longleftrightarrow>
     ss_enc \<sigma> = after_enc N c (map snd (ss_order \<sigma>)) \<and> sealed_in_order N c (ss_order \<sigma>)
     \<and> set (ss_out \<sigma>) \<subseteq> set (map fst (ss_order \<sigma>))
     \<and> (\<forall>i ct. ss_threads \<sigma> i = Sealed ct \<longrightarrow> ct \<in> set (map fst (ss_order \<sigma>)))"

definition failed_encrypt_keeps :: "('h, 'c) noise_lib \<Rightarrow> bool" where
  "failed_encrypt_keeps N \<longleftrightarrow> (\<forall>c m d. Encrypt N c m = (d, None) \<longrightarrow> d = c)"

lemma connected_parts:
  "connected N a b \<Longrightarrow> noise_laws N \<and> failed_encrypt_keeps N \<and> nm_dec b = nm_enc a"
  by (simp add: connected_def failed_encrypt_keeps_def)

lemma send_step_inv:
  assumes "send_step N \<sigma> \<sigma>'" and "send_inv N c \<sigma>" and "failed_encrypt_keeps N"
  shows "send_inv N c \<sigma>'"
  using assms
proof (induction rule: send_step.induct)
  case (encrypt \<sigma> i b)
  obtain d ct where e: "Encrypt N (ss_enc \<sigma>) b = (d, ct)" by fastforce
  show ?case
  proof (cases ct)
    case None
    with e encrypt(3) have "d = ss_enc \<sigma>" by (auto simp: failed_encrypt_keeps_def)
    with e None encrypt show ?thesis by (auto simp: send_encrypt_def send_inv_def)
  next
    case (Some x)
    with e encrypt(2) have "sealed_in_order N c (ss_order \<sigma> @ [(x, b)])"
      by (auto simp: send_inv_def intro: sealed_snoc)
    with e Some encrypt show ?thesis
      by (auto simp: send_encrypt_def send_inv_def after_enc_snoc)
  qed
qed (auto simp: send_inv_def send_put_def)

lemma send_run_inv:
  "send_run N (new_sending a) \<sigma> \<Longrightarrow> failed_encrypt_keeps N \<Longrightarrow> send_inv N (nm_enc a) \<sigma>"
proof (induction rule: send_run.induct)
  case start
  then show ?case by (simp add: send_inv_def new_sending_def after_enc_def sealed_in_order_def)
qed (auto intro: send_step_inv)

section \<open>Which messages are read\<close>

lemma opens_in_place:
  assumes "noise_laws N" and "own_nonce N c" and "sealed_in_order N c xs"
    and "k \<le> length xs" and "j < length xs"
  shows "j = k \<Longrightarrow> Decrypt N (after_enc N c (map snd (take k xs))) (fst (xs ! j))
      = (after_enc N c (map snd (take (Suc k) xs)), Some (snd (xs ! j)))"
    and "j \<noteq> k \<Longrightarrow> snd (Decrypt N (after_enc N c (map snd (take k xs))) (fst (xs ! j))) = None"
proof -
  have e: "snd (Encrypt N (after_enc N c (map snd (take j xs))) (snd (xs ! j))) = Some (fst (xs ! j))"
    using assms(3,5) by (simp add: sealed_in_order_def)
  show "j = k \<Longrightarrow> Decrypt N (after_enc N c (map snd (take k xs))) (fst (xs ! j))
      = (after_enc N c (map snd (take (Suc k) xs)), Some (snd (xs ! j)))"
    using e assms(1,5) unfolding noise_laws_def
    by (simp add: take_Suc_conv_app_nth after_enc_snoc) (metis prod.collapse)
  assume "j \<noteq> k"
  then have "length (map snd (take k xs)) \<noteq> length (map snd (take j xs))" using assms(4,5) by simp
  with e assms(2) show "snd (Decrypt N (after_enc N c (map snd (take k xs))) (fst (xs ! j))) = None"
    unfolding own_nonce_def by blast
qed

lemma reads_common_prefix:
  assumes "noise_laws N" and "own_nonce N c" and "sealed_in_order N c xs"
  shows "k \<le> length xs \<Longrightarrow> set out \<subseteq> set (map fst xs) \<Longrightarrow> nm_dec b = after_enc N c (map snd (take k xs)) \<Longrightarrow>
    read_until_error N b out
      = map snd (take (length (longest_common_prefix out (map fst (drop k xs)))) (drop k xs))"
proof (induction out arbitrary: k b)
  case (Cons ct out)
  from Cons.prems(2) have "ct \<in> fst ` set xs" by auto
  then obtain j where j: "j < length xs" "ct = fst (xs ! j)" by (auto simp: in_set_conv_nth)
  note place = opens_in_place [OF assms Cons.prems(1) j(1)]
  show ?case
  proof (cases "j = k")
    case True
    with place(1) j have d: "Decrypt N (nm_dec b) ct
        = (after_enc N c (map snd (take (Suc k) xs)), Some (snd (xs ! k)))" using Cons.prems(3) by simp
    have x: "drop k xs = xs ! k # drop (Suc k) xs" using True j(1) by (simp add: Cons_nth_drop_Suc)
    have "read_until_error N (b\<lparr>nm_dec := after_enc N c (map snd (take (Suc k) xs))\<rparr>) out
        = map snd (take (length (longest_common_prefix out (map fst (drop (Suc k) xs)))) (drop (Suc k) xs))"
      using Cons.IH [of "Suc k" "b\<lparr>nm_dec := after_enc N c (map snd (take (Suc k) xs))\<rparr>"] Cons.prems(2) True j(1) by simp
    then show ?thesis using d x j(2) True by (simp add: noised_Read_def)
  next
    case False
    then obtain d where d: "Decrypt N (nm_dec b) ct = (d, None)"
      using place(2) j(2) Cons.prems(3) by (metis prod.collapse)
    have "k < length xs \<Longrightarrow> fst (xs ! k) \<noteq> ct"
      using opens_in_place(1) [OF assms Cons.prems(1), of k] d Cons.prems(3) by auto
    then have "longest_common_prefix (ct # out) (map fst (drop k xs)) = []"
      using Cons.prems(1) by (cases "k < length xs") (auto simp: Cons_nth_drop_Suc [symmetric])
    then show ?thesis using d by (simp add: noised_Read_def)
  qed
qed simp

section \<open>One write at a time\<close>

definition undisturbed :: "'c sending \<Rightarrow> bool" where
  "undisturbed \<sigma> \<longleftrightarrow>
     (\<forall>i j ct ct'. ss_threads \<sigma> i = Sealed ct \<and> ss_threads \<sigma> j = Sealed ct' \<longrightarrow> i = j)
     \<and> (\<forall>i. ss_threads \<sigma> i \<noteq> Returned (Err (IOFailed ())))"

inductive serial_run :: "('h, 'c) noise_lib \<Rightarrow> 'c sending \<Rightarrow> 'c sending \<Rightarrow> bool" for N \<sigma>0 where
  start: "serial_run N \<sigma>0 \<sigma>0"
| extend: "serial_run N \<sigma>0 \<sigma> \<Longrightarrow> send_step N \<sigma> \<sigma>' \<Longrightarrow> undisturbed \<sigma>' \<Longrightarrow> serial_run N \<sigma>0 \<sigma>'"

definition in_turn :: "'c sending \<Rightarrow> bool" where
  "in_turn \<sigma> \<longleftrightarrow>
     (\<forall>i ct. ss_threads \<sigma> i = Sealed ct \<longrightarrow> map fst (ss_order \<sigma>) = ss_out \<sigma> @ [ct])
     \<and> ((\<forall>i ct. ss_threads \<sigma> i \<noteq> Sealed ct) \<longrightarrow> map fst (ss_order \<sigma>) = ss_out \<sigma>)"

lemma send_step_in_turn:
  assumes "send_step N \<sigma> \<sigma>'" and "in_turn \<sigma>" and "undisturbed \<sigma>" and "undisturbed \<sigma>'"
  shows "in_turn \<sigma>'"
  using assms
proof (induction rule: send_step.induct)
  case (call \<sigma> i r b)
  then have "\<And>j ct. ss_threads (\<sigma>\<lparr>ss_threads := (ss_threads \<sigma>)(i := Plain b)\<rparr>) j = Sealed ct \<longleftrightarrow> ss_threads \<sigma> j = Sealed ct"
    by auto
  with call(2) show ?case unfolding in_turn_def by simp
next
  case (encrypt \<sigma> i b)
  obtain d ct where e: "Encrypt N (ss_enc \<sigma>) b = (d, ct)" by fastforce
  show ?case
  proof (cases ct)
    case None
    with e encrypt(1) have "\<And>j x. ss_threads (send_encrypt N i b \<sigma>) j = Sealed x \<longleftrightarrow> ss_threads \<sigma> j = Sealed x"
      by (auto simp: send_encrypt_def)
    with encrypt(2) e None show ?thesis unfolding in_turn_def by (simp add: send_encrypt_def)
  next
    case (Some x)
    have n: "ss_threads \<sigma> j \<noteq> Sealed y" for j y
    proof
      assume s: "ss_threads \<sigma> j = Sealed y"
      with encrypt(1) have "j \<noteq> i" by auto
      moreover from this s e Some have "ss_threads (send_encrypt N i b \<sigma>) j = Sealed y"
        "ss_threads (send_encrypt N i b \<sigma>) i = Sealed x" by (simp_all add: send_encrypt_def)
      ultimately show False using encrypt(4) unfolding undisturbed_def by blast
    qed
    with encrypt(2) e Some show ?thesis by (auto simp: in_turn_def send_encrypt_def)
  qed
next
  case (put \<sigma> i ct)
  have "ss_threads (send_put i ct \<sigma>) j \<noteq> Sealed y" for j y
    using put(1,3) unfolding undisturbed_def by (cases "j = i") (auto simp: send_put_def)
  moreover have "map fst (ss_order \<sigma>) = ss_out \<sigma> @ [ct]" using put(1,2) unfolding in_turn_def by blast
  ultimately show ?case by (simp add: in_turn_def send_put_def)
next
  case (put_fails \<sigma> i ct)
  have "ss_threads (\<sigma>\<lparr>ss_threads := (ss_threads \<sigma>)(i := Returned (Err (IOFailed ())))\<rparr>) i = Returned (Err (IOFailed ()))"
    by simp
  with put_fails(4) show ?case unfolding undisturbed_def by blast
qed

lemma serial_run_in_turn:
  "serial_run N (new_sending a) \<sigma> \<Longrightarrow> in_turn \<sigma> \<and> undisturbed \<sigma> \<and> send_run N (new_sending a) \<sigma>"
proof (induction rule: serial_run.induct)
  case start
  then show ?case by (simp add: in_turn_def undisturbed_def new_sending_def send_run.start)
next
  case (extend \<sigma> \<sigma>')
  with send_step_in_turn [OF extend(2) _ _ extend(3)] show ?case by (blast intro: send_run.extend)
qed

lemma common_prefix_of_prefix: "prefix xs ys \<Longrightarrow> longest_common_prefix xs ys = xs"
  by (simp add: longest_common_prefix_max_prefix longest_common_prefix_prefix1 prefix_order.antisym)

section \<open>A library with a counter in its cipher texts\<close>

definition count_prefix :: "bytes \<times> nat \<Rightarrow> bytes" where
  "count_prefix c = replicate (snd c) CHR ''x'' @ CHR ''.'' # fst c"

definition count_noise :: "(bytes \<times> bool, bytes \<times> nat) noise_lib" where
  "count_noise = demo_noise
     \<lparr>Encrypt := (\<lambda>c m. ((fst c, Suc (snd c)), Some (count_prefix c @ m))),
      Decrypt := (\<lambda>c ct. if prefix (count_prefix c) ct
         then ((fst c, Suc (snd c)), Some (drop (length (count_prefix c)) ct)) else (c, None))\<rparr>"

lemma noise_laws_other_cipher:
  "noise_laws N \<Longrightarrow> (\<And>c m c' ct. e c m = (c', Some ct) \<Longrightarrow> d c ct = (c', Some m)) \<Longrightarrow>
     noise_laws (N\<lparr>Encrypt := e, Decrypt := d\<rparr>)"
proof -
  assume a: "noise_laws N" "\<And>c m c' ct. e c m = (c', Some ct) \<Longrightarrow> d c ct = (c', Some m)"
  have q: "NewHandshakeState (N\<lparr>Encrypt := e, Decrypt := d\<rparr>) = NewHandshakeState N"
    "WriteMessage (N\<lparr>Encrypt := e, Decrypt := d\<rparr>) = WriteMessage N"
    "ReadMessage (N\<lparr>Encrypt := e, Decrypt := d\<rparr>) = ReadMessage N"
    "Encrypt (N\<lparr>Encrypt := e, Decrypt := d\<rparr>) = e" "Decrypt (N\<lparr>Encrypt := e, Decrypt := d\<rparr>) = d" by simp_all
  show ?thesis unfolding noise_laws_def q
    by (rule conjI [OF a(1) [unfolded noise_laws_def, THEN conjunct1]]) (use a(2) in blast)
qed

lemma count_connected: "connected count_noise (demo_end 0) (demo_end 0)"
proof -
  have "noise_laws count_noise"
    unfolding count_noise_def by (rule noise_laws_other_cipher [OF demo_noise_laws]) auto
  then show ?thesis by (simp add: connected_def demo_end_def count_noise_def)
qed

lemma after_count: "after_enc count_noise c ps = (fst c, snd c + length ps)"
  by (induction ps rule: rev_induct) (simp_all add: after_enc_def count_noise_def)

lemma count_prefix_differs:
  "m \<noteq> n \<Longrightarrow> \<not> prefix (replicate m CHR ''x'' @ CHR ''.'' # k) (replicate n CHR ''x'' @ CHR ''.'' # k')"
proof (induction m arbitrary: n)
  case 0
  then show ?case by (cases n) simp_all
next
  case (Suc m)
  then show ?case by (cases n) simp_all
qed

lemma count_own_nonce: "own_nonce count_noise c"
proof -
  have "snd (Encrypt count_noise (k, n) m) = Some ct \<Longrightarrow> ct = replicate n CHR ''x'' @ CHR ''.'' # k @ m"
    and "snd (Decrypt count_noise (k, l) (replicate n CHR ''x'' @ CHR ''.'' # k @ m)) = None" if "l \<noteq> n" for k l n m ct
    using that by (auto simp: count_noise_def count_prefix_def count_prefix_differs)
  then show ?thesis unfolding own_nonce_def after_count by (metis add_left_cancel)
qed

section \<open>Properties\<close>


text \<open>Two goroutines, the second overtakes the first.\<close>

definition overtaking :: "('h, 'c) noise_lib \<Rightarrow> ('h, 'c) noised \<Rightarrow> bytes \<Rightarrow> bytes \<Rightarrow> 'c sending" where
  "overtaking N a m n =
     send_encrypt N 1 n (send_encrypt N 0 m (new_sending a\<lparr>ss_threads := (\<lambda>_. Free)(0 := Plain m, 1 := Plain n)\<rparr>))"

lemma overtaking_run:
  assumes "ss_threads (overtaking N a m n) 0 = Sealed x" and "ss_threads (overtaking N a m n) 1 = Sealed y"
  shows "send_run N (new_sending a) (send_put 0 x (send_put 1 y (overtaking N a m n)))"
proof -
  let ?s0 = "new_sending a" and ?s1 = "new_sending a\<lparr>ss_threads := (\<lambda>_. Free)(0 := Plain m)\<rparr>"
  let ?s2 = "new_sending a\<lparr>ss_threads := (\<lambda>_. Free)(0 := Plain m, 1 := Plain n)\<rparr>"
  let ?s3 = "send_encrypt N 0 m ?s2"
  have 1: "send_step N ?s0 ?s1" using send_step.call [of ?s0 0] by (simp add: new_sending_def)
  have 2: "send_step N ?s1 ?s2" using send_step.call [of ?s1 1] by (simp add: new_sending_def)
  have 3: "send_step N ?s2 ?s3" by (rule send_step.encrypt) simp
  have "ss_threads ?s3 1 = Plain n" by (simp add: send_encrypt_def split: prod.splits option.splits)
  then have 4: "send_step N ?s3 (overtaking N a m n)" unfolding overtaking_def by (rule send_step.encrypt)
  have 5: "send_step N (overtaking N a m n) (send_put 1 y (overtaking N a m n))"
    by (rule send_step.put [OF assms(2)])
  have 6: "send_step N (send_put 1 y (overtaking N a m n)) (send_put 0 x (send_put 1 y (overtaking N a m n)))"
    by (rule send_step.put) (simp add: send_put_def assms(1))
  show ?thesis
    by (rule send_run.extend [OF send_run.extend [OF send_run.extend [OF send_run.extend [OF send_run.extend
            [OF send_run.extend [OF send_run.start 1] 2] 3] 4] 5] 6])
qed

text \<open>
  So a signal that overtakes another stops the signalling: both writes return without an error, and
  the loop of the other end reads one cipher text and ends.
\<close>

lemma overtaken_signal_ends_loop:
  assumes "connected N a b" and "own_nonce N (nm_enc a)"
    and "Encrypt N (nm_enc a) m = (d, Some x)" and "Encrypt N d n = (d', Some y)"
  shows "\<exists>\<tau>. send_run N (new_sending a) \<tau> \<and> ss_out \<tau> = [y, x]
    \<and> ss_threads \<tau> 0 = Returned (Ok ()) \<and> ss_threads \<tau> 1 = Returned (Ok ())
    \<and> read_until_error N b (ss_out \<tau>) = []
    \<and> (\<exists>\<sigma>. readLoop_read L (noised_link N) (NewSignalMessenger None (new_wire a b\<lparr>w_queue := ss_out \<tau>\<rparr>)) = Some \<sigma>
         \<and> sg_loop \<sigma> = Ended)"
proof -
  let ?t = "send_put 0 x (send_put 1 y (overtaking N a m n))"
  have o: "overtaking N a m n = \<lparr>ss_enc = d', ss_out = [],
      ss_threads = (\<lambda>_. Free)(0 := Sealed x, 1 := Sealed y), ss_order = [(x, m), (y, n)]\<rparr>"
    using assms(3,4) by (auto simp: overtaking_def send_encrypt_def new_sending_def fun_eq_iff)
  have run: "send_run N (new_sending a) ?t" by (rule overtaking_run) (simp_all add: o)
  have t: "ss_out ?t = [y, x]" "ss_threads ?t 0 = Returned (Ok ())" "ss_threads ?t 1 = Returned (Ok ())"
    by (simp_all add: o send_put_def)
  have "after_enc N (nm_enc a) [m] = d" using assms(3) by (simp add: after_enc_def)
  with assms(2,4) have none: "snd (Decrypt N (after_enc N (nm_enc a) []) y) = None"
    unfolding own_nonce_def by (metis length_0_conv not_Cons_self2 snd_conv)
  have "nm_dec b = nm_enc a" using connected_parts [OF assms(1)] by blast
  with none obtain e where e: "Decrypt N (nm_dec b) y = (e, None)" by (simp add: after_enc_def) (metis prod.collapse)
  then have "read_until_error N b (ss_out ?t) = []" unfolding t by (simp add: noised_Read_def)
  moreover have "\<exists>\<sigma>. readLoop_read L (noised_link N) (NewSignalMessenger None (new_wire a b\<lparr>w_queue := ss_out ?t\<rparr>)) = Some \<sigma>
      \<and> sg_loop \<sigma> = Ended"
    using e unfolding t by (simp add: readLoop_read_def NewSignalMessenger_def new_wire_def noised_link_def wire_Read_def noised_Read_def)
  ultimately show ?thesis using run t by blast
qed


end
