(* ===== verification/Exchange.thy ===== *)
theory Exchange
  imports SignalLink Sessions
begin

text \<open>
  The exchange of descriptions between two nodes: \<open>Start\<close> of \<open>proxy-egress.go\<close> on one node and of
  \<open>proxy-ingress.go\<close> on the other, each with the signalling of \<open>signal-messenger.go\<close> and the candidates of
  \<open>ice.go\<close>, over encrypted links in both directions.

  A node makes the calls of \<open>egress_setup\<close> or \<open>ingress_setup\<close> in their order. From \<open>GatherICE\<close> on, until its
  gathering ends, its callback sends candidates and its loop receives them; what the loop does with
  them is in \<open>Trickle\<close>. No context ends here.
\<close>

section \<open>Two nodes\<close>

datatype role = Egress | Ingress

fun peer :: "role \<Rightarrow> role" where
  "peer Egress = Ingress"
| "peer Ingress = Egress"

lemma peer_peer [simp]: "peer (peer r) = r" "peer r \<noteq> r" "r \<noteq> peer r"
  by (cases r; simp)+

lemma not_peer: "r \<noteq> peer q \<longleftrightarrow> r = q"
  by (cases r; cases q) simp_all

fun plan :: "role \<Rightarrow> calls_env \<Rightarrow> call list" where
  "plan Egress u = fst (egress_setup u)"
| "plan Ingress u = fst (ingress_setup u)"

fun send_description ::
    "('h, 'c) noise_lib \<Rightarrow> role \<Rightarrow> bytes \<Rightarrow> ('h, 'c) wire \<Rightarrow> ('h, 'c) wire \<times> (link_error send_error, unit) res" where
  "send_description N Egress s = SendOffer (noised_link N) s"
| "send_description N Ingress s = SendAnswer (noised_link N) s"

fun recv_description :: "role \<Rightarrow> ('s, 'd) signaller \<Rightarrow> (('s, 'd) signaller, bytes) outcomes" where
  "recv_description Egress \<sigma> = RecvAnswer None \<sigma>"
| "recv_description Ingress \<sigma> = RecvOffer None \<sigma>"

text \<open>
  A node has made some of its calls, and trickles candidates or not. The signals on the way to a
  node are in the messenger it receives with.
\<close>

record party =
  pt_calls :: nat
  pt_trickling :: bool

record ('h, 'c, 'd) exchange =
  ex_party :: "role \<Rightarrow> party"
  ex_to :: "role \<Rightarrow> (('h, 'c) wire, 'd) signaller"

text \<open>The messengers of egress and ingress after the handshake: \<open>a\<close> sends to \<open>b\<close>, \<open>c\<close> to \<open>d\<close>.\<close>

definition exchange_start ::
    "('h, 'c) noised \<Rightarrow> ('h, 'c) noised \<Rightarrow> ('h, 'c) noised \<Rightarrow> ('h, 'c) noised \<Rightarrow> ('h, 'c, 'd) exchange" where
  "exchange_start a b c d =
     \<lparr>ex_party = (\<lambda>_. \<lparr>pt_calls = 0, pt_trickling = False\<rparr>),
      ex_to = (\<lambda>r. NewSignalMessenger None (case r of Ingress \<Rightarrow> new_wire a b | Egress \<Rightarrow> new_wire c d))\<rparr>"

definition calls_made :: "(role \<Rightarrow> calls_env) \<Rightarrow> role \<Rightarrow> ('h, 'c, 'd) exchange \<Rightarrow> call list" where
  "calls_made u r x = take (pt_calls (ex_party x r)) (plan r (u r))"

definition next_call :: "(role \<Rightarrow> calls_env) \<Rightarrow> role \<Rightarrow> ('h, 'c, 'd) exchange \<Rightarrow> call option" where
  "next_call u r x =
     (let k = pt_calls (ex_party x r) in if k < length (plan r (u r)) then Some (plan r (u r) ! k) else None)"

definition made :: "role \<Rightarrow> call \<Rightarrow> ('h, 'c, 'd) exchange \<Rightarrow> ('h, 'c, 'd) exchange" where
  "made r c x = x\<lparr>ex_party := (ex_party x)(r :=
     \<lparr>pt_calls = Suc (pt_calls (ex_party x r)), pt_trickling = (pt_trickling (ex_party x r) \<or> c = GatherICE)\<rparr>)\<rparr>"

definition put_signals :: "role \<Rightarrow> (('h, 'c) wire, 'd) signaller \<Rightarrow> ('h, 'c, 'd) exchange \<Rightarrow> ('h, 'c, 'd) exchange" where
  "put_signals r \<sigma> x = x\<lparr>ex_to := (ex_to x)(r := \<sigma>)\<rparr>"

definition gathered :: "role \<Rightarrow> ('h, 'c, 'd) exchange \<Rightarrow> ('h, 'c, 'd) exchange" where
  "gathered r x = x\<lparr>ex_party := (ex_party x)(r := (ex_party x r)\<lparr>pt_trickling := False\<rparr>)\<rparr>"

lemma exchange_simps [simp]:
  "ex_to (made r c x) = ex_to x" "ex_to (gathered r x) = ex_to x" "ex_party (put_signals r \<sigma> x) = ex_party x"
  "ex_to (put_signals r \<sigma> x) q = (if q = r then \<sigma> else ex_to x q)"
  "ex_party (gathered r x) q = (if q = r then (ex_party x r)\<lparr>pt_trickling := False\<rparr> else ex_party x q)"
  "ex_party (made r c x) q = (if q = r then \<lparr>pt_calls = Suc (pt_calls (ex_party x r)),
     pt_trickling = (pt_trickling (ex_party x r) \<or> c = GatherICE)\<rparr> else ex_party x q)"
  by (simp_all add: made_def gathered_def put_signals_def)

text \<open>
  The steps: a call to the WebRTC library, sending and receiving the description, the callback for a
  candidate, the loop that receives candidates, the end of the gathering, and a turn of the reading
  loop. \<open>calls_env\<close> has what the calls answer; a step is possible when the answer is the one it has.
\<close>

inductive exchange_step ::
    "('k, 'd) ice_lib \<Rightarrow> ('h, 'c) noise_lib \<Rightarrow> (role \<Rightarrow> calls_env) \<Rightarrow> ('h, 'c, 'd) exchange \<Rightarrow> ('h, 'c, 'd) exchange \<Rightarrow> bool"
  for L N u where
  library: "next_call u r x = Some c \<Longrightarrow> c \<noteq> RecvDescription \<Longrightarrow> (\<nexists>s. c = SendDescription s) \<Longrightarrow>
    exchange_step L N u x (made r c x)"
| send: "next_call u r x = Some (SendDescription s) \<Longrightarrow>
    send_description N r s (sg_io (ex_to x (peer r))) = (io, res) \<Longrightarrow> su_send (u r) = (res = Ok ()) \<Longrightarrow>
    exchange_step L N u x (put_signals (peer r) ((ex_to x (peer r))\<lparr>sg_io := io\<rparr>) (made r (SendDescription s) x))"
| receive: "next_call u r x = Some RecvDescription \<Longrightarrow> su_received (u r) = Some v \<Longrightarrow>
    (\<sigma>, Ok v) \<in> set (recv_description r (ex_to x r)) \<Longrightarrow>
    exchange_step L N u x (put_signals r \<sigma> (made r RecvDescription x))"
| send_candidate: "pt_trickling (ex_party x r) \<Longrightarrow>
    SendICECandidate L (noised_link N) k (sg_io (ex_to x (peer r))) = (io, res) \<Longrightarrow>
    exchange_step L N u x (put_signals (peer r) ((ex_to x (peer r))\<lparr>sg_io := io\<rparr>) x)"
| take_candidate: "pt_trickling (ex_party x r) \<Longrightarrow> (\<sigma>, Ok v) \<in> set (RecvICECandidate None (ex_to x r)) \<Longrightarrow>
    exchange_step L N u x (put_signals r \<sigma> x)"
| gather: "exchange_step L N u x (gathered r x)"
| turn: "loop_turn L (noised_link N) (ex_to x r) \<sigma> \<Longrightarrow> exchange_step L N u x (put_signals r \<sigma> x)"

inductive exchange_run ::
    "('k, 'd) ice_lib \<Rightarrow> ('h, 'c) noise_lib \<Rightarrow> (role \<Rightarrow> calls_env) \<Rightarrow> ('h, 'c, 'd) exchange \<Rightarrow> ('h, 'c, 'd) exchange \<Rightarrow> bool"
  for L N u x0 where
  start: "exchange_run L N u x0 x0"
| extend: "exchange_run L N u x0 x \<Longrightarrow> exchange_step L N u x y \<Longrightarrow> exchange_run L N u x0 y"

lemma exchange_run_trans: "exchange_run L N u y z \<Longrightarrow> exchange_run L N u x y \<Longrightarrow> exchange_run L N u x z"
  by (induction rule: exchange_run.induct) (auto intro: exchange_run.extend)

section \<open>The links\<close>

definition sound :: "('h, 'c) noise_lib \<Rightarrow> ('h, 'c, 'd) exchange \<Rightarrow> bool" where
  "sound N x \<longleftrightarrow> (\<forall>r. wire_ok N (sg_io (ex_to x r)) \<and> noised.running (ex_to x r))"

definition signals_to :: "('k, 'd) ice_lib \<Rightarrow> ('h, 'c) noise_lib \<Rightarrow> role \<Rightarrow> ('h, 'c, 'd) exchange \<Rightarrow> 'd signal list" where
  "signals_to L N r x = queue (abs_fifo L (wire_pending N) (ex_to x r))"

text \<open>The description a node waits for.\<close>

fun described :: "role \<Rightarrow> bytes \<Rightarrow> 'd signal" where
  "described Egress v = Answer v"
| "described Ingress v = Offer v"

lemma described_not_candidate [simp]: "described r v \<noteq> Candidate c" "Candidate c \<noteq> described r v"
  by (cases r; simp)+

lemma described_inject [simp]: "described r v = described r w \<longleftrightarrow> v = w"
  by (cases r) simp_all

lemma link_step:
  assumes "sig_step L (noised_link N) \<sigma> l \<sigma>'" and "l \<noteq> Shut" and "wire_ok N (sg_io \<sigma>)" and "noised.running \<sigma>"
  shows "wire_ok N (sg_io \<sigma>') \<and> noised.running \<sigma>' \<and> fifo_step (abs_fifo L (wire_pending N) \<sigma>) l (abs_fifo L (wire_pending N) \<sigma>')"
  using noised.step_refines [OF assms(1,3)] noised.step_running [OF assms(1,3,2,4)] by blast

lemma sent_description:
  assumes "send_description N r s (sg_io \<sigma>) = (io, res)" and "wire_ok N (sg_io \<sigma>)"
  shows "sig_step L (noised_link N) \<sigma> (if res = Ok () then Sent (described (peer r) (to_valid s)) else Internal) (\<sigma>\<lparr>sg_io := io\<rparr>)"
proof -
  obtain m where "apsnd (map_err LinkFailed) (l_Write (noised_link N) m (sg_io \<sigma>)) = (io, res)"
    using assms(1) by (cases r) (simp_all add: SendOffer_def SendAnswer_def)
  from noised.send_law [OF assms(2) this] have "res \<noteq> Panic" by simp
  then consider "res = Ok ()" | e where "res = Err e" by (cases res) auto
  then show ?thesis
  proof cases
    case 1
    then show ?thesis using assms(1) by (cases r) (auto intro: sig_step.intros)
  next
    case (2 e)
    then have "(io, Err e) \<in> {SendOffer (noised_link N) s (sg_io \<sigma>), SendAnswer (noised_link N) s (sg_io \<sigma>),
        SendICECandidate L (noised_link N) (Some undefined) (sg_io \<sigma>)}"
      using assms(1) by (cases r) auto
    from sig_step.send_failed [OF this] 2 show ?thesis by simp
  qed
qed

lemma sent_candidate:
  assumes "SendICECandidate L (noised_link N) k (sg_io \<sigma>) = (io, res)" and "wire_ok N (sg_io \<sigma>)"
  shows "\<exists>l. sig_step L (noised_link N) \<sigma> l (\<sigma>\<lparr>sg_io := io\<rparr>) \<and> (l = Internal \<or> (\<exists>c. l = Sent (Candidate c)))"
proof (cases k)
  case None
  from sig_step.send_nil [OF assms(1) [unfolded None]] show ?thesis by auto
next
  case (Some j)
  have "res \<noteq> Panic"
  proof (cases "cand_JSON L j")
    case None
    with assms(1) Some show ?thesis by (auto simp: SendICECandidate_def)
  next
    case (Some b)
    with assms(1) \<open>k = Some j\<close> obtain m where
      "apsnd (map_err LinkFailed) (l_Write (noised_link N) m (sg_io \<sigma>)) = (io, res)" by (simp add: SendICECandidate_def)
    from noised.send_law [OF assms(2) this] show ?thesis by simp
  qed
  then consider "res = Ok ()" | e where "res = Err e" by (cases res) auto
  then show ?thesis
  proof cases
    case 1
    with assms(1) Some obtain b where "cand_JSON L j = Some b"
      by (auto simp: SendICECandidate_def split: option.splits)
    from sig_step.send_candidate [OF this assms(1) [unfolded Some 1]] show ?thesis by auto
  next
    case (2 e)
    with assms(1) Some have "(io, Err e) \<in> {SendOffer (noised_link N) [] (sg_io \<sigma>), SendAnswer (noised_link N) [] (sg_io \<sigma>),
        SendICECandidate L (noised_link N) (Some j) (sg_io \<sigma>)}" by simp
    from sig_step.send_failed [OF this] show ?thesis by auto
  qed
qed

lemma received_description:
  "(\<sigma>', Ok v) \<in> set (recv_description r \<sigma>) \<Longrightarrow> sig_step L M \<sigma> (Got (described r v)) \<sigma>'"
  by (cases r) (auto intro: sig_step.intros)

text \<open>What a step does to the signals on the way to a node.\<close>

lemma exchange_step_signals:
  assumes "exchange_step L N u x y" and "sound N x"
  shows "sound N y \<and>
    (signals_to L N r y = signals_to L N r x
   \<or> (\<exists>c. signals_to L N r y = signals_to L N r x @ [Candidate c])
   \<or> (\<exists>s. signals_to L N r y = signals_to L N r x @ [described r (to_valid s)] \<and> next_call u (peer r) x = Some (SendDescription s))
   \<or> (\<exists>c. signals_to L N r x = Candidate c # signals_to L N r y \<and> pt_trickling (ex_party x r))
   \<or> (\<exists>v. signals_to L N r x = described r v # signals_to L N r y \<and> next_call u r x = Some RecvDescription))"
  using assms
proof (induction rule: exchange_step.induct)
  case (send q x s io res)
  have ok: "wire_ok N (sg_io (ex_to x (peer q)))" "noised.running (ex_to x (peer q))" using send(4) by (simp_all add: sound_def)
  from link_step [OF sent_description [OF send(2) ok(1), of L] _ ok] send show ?case
    by (cases "r = peer q") (auto simp: sound_def signals_to_def split: if_splits)
next
  case (receive q x v \<sigma>)
  have ok: "wire_ok N (sg_io (ex_to x q))" "noised.running (ex_to x q)" using receive(4) by (simp_all add: sound_def)
  from link_step [OF received_description [OF receive(3), of L] _ ok] receive(1,4) show ?case
    by (cases "r = q") (auto simp: sound_def signals_to_def)
next
  case (send_candidate x q k io res)
  have ok: "wire_ok N (sg_io (ex_to x (peer q)))" "noised.running (ex_to x (peer q))" using send_candidate(3) by (simp_all add: sound_def)
  obtain l where l: "sig_step L (noised_link N) (ex_to x (peer q)) l ((ex_to x (peer q))\<lparr>sg_io := io\<rparr>)"
    "l = Internal \<or> (\<exists>c. l = Sent (Candidate c))" using sent_candidate [OF send_candidate(2) ok(1)] by blast
  from link_step [OF l(1) _ ok] l(2) send_candidate(3) show ?case
    by (cases "r = peer q") (auto simp: sound_def signals_to_def)
next
  case (take_candidate x q \<sigma> v)
  have ok: "wire_ok N (sg_io (ex_to x q))" "noised.running (ex_to x q)" using take_candidate(3) by (simp_all add: sound_def)
  from link_step [OF sig_step.got_candidate [OF take_candidate(2), of L] _ ok] take_candidate(1,3) show ?case
    by (cases "r = q") (auto simp: sound_def signals_to_def)
next
  case (turn x q \<sigma>)
  have ok: "wire_ok N (sg_io (ex_to x q))" "noised.running (ex_to x q)" using turn(2) by (simp_all add: sound_def)
  have "sig_step L (noised_link N) (ex_to x q) Internal \<sigma>" using turn(1) by (simp add: loop_turn_def sig_step.read)
  from link_step [OF this _ ok] turn(2) show ?case
    by (cases "r = q") (auto simp: sound_def signals_to_def)
qed (simp_all add: sound_def signals_to_def)

text \<open>What it does to the node.\<close>

lemma exchange_step_party:
  assumes "exchange_step L N u x y" and "sound N x"
  shows "ex_party y r = ex_party x r \<or> ex_party y r = (ex_party x r)\<lparr>pt_trickling := False\<rparr>
   \<or> (\<exists>c. next_call u r x = Some c \<and> ex_party y r = \<lparr>pt_calls = Suc (pt_calls (ex_party x r)),
          pt_trickling = (pt_trickling (ex_party x r) \<or> c = GatherICE)\<rparr>
        \<and> (c = RecvDescription \<longrightarrow> (\<exists>v. signals_to L N r x = described r v # signals_to L N r y)))"
  using assms
proof (induction rule: exchange_step.induct)
  case (receive q x v \<sigma>)
  have ok: "wire_ok N (sg_io (ex_to x q))" "noised.running (ex_to x q)" using receive(4) by (simp_all add: sound_def)
  from link_step [OF received_description [OF receive(3), of L] _ ok] receive(1) show ?case
    by (cases "r = q") (auto simp: signals_to_def)
qed auto

lemma exchange_run_sound: "exchange_run L N u x y \<Longrightarrow> sound N x \<Longrightarrow> sound N y"
  by (induction rule: exchange_run.induct) (auto dest: exchange_step_signals)

lemma start_sound:
  assumes "connected N a b" and "connected N c d"
  shows "sound N (exchange_start a b c d :: ('a, 'b, 'd) exchange)"
proof -
  let ?x = "exchange_start a b c d :: ('a, 'b, 'd) exchange"
  have "wire_ok N (sg_io (ex_to ?x r)) \<and> noised.running (ex_to ?x r)" for r
    using assms by (cases r) (simp_all add: exchange_start_def new_signaller new_wire_ok)
  then show ?thesis by (simp add: sound_def)
qed

section \<open>The order of the calls\<close>

text \<open>The calls when all goes well; a plan is a beginning of them.\<close>

fun whole_plan :: "role \<Rightarrow> calls_env \<Rightarrow> call list" where
  "whole_plan Egress u = [CreateDummyChannel, CreateDescription, SetLocalDescription, GatherICE,
     SendDescription (su_local u), RecvDescription, SetRemoteDescription (the (su_received u))]"
| "whole_plan Ingress u = [ListenForChannels, RecvDescription, SetRemoteDescription (the (su_received u)),
     CreateDescription, SetLocalDescription, GatherICE, SendDescription (su_local u)]"

lemma plan_prefix: "prefix (plan r u) (whole_plan r u)"
  by (cases r) (auto simp: egress_setup_def ingress_setup_def createDummyDataChannel_def Let_def split: option.splits)

lemma plan_nth: "k < length (plan r u) \<Longrightarrow> plan r u ! k = whole_plan r u ! k \<and> k < 7"
proof -
  assume k: "k < length (plan r u)"
  moreover have "length (whole_plan r u) = 7" by (cases r) simp_all
  moreover obtain zs where "whole_plan r u = plan r u @ zs" using plan_prefix by (auto simp: prefix_def)
  ultimately show ?thesis by (simp add: nth_append)
qed

lemma calls_made_prefix: "k \<le> length (plan r u) \<Longrightarrow> take k (plan r u) = take k (whole_plan r u)"
  using plan_prefix [of r u] by (auto simp: prefix_def)

fun receive_index :: "role \<Rightarrow> nat" where
  "receive_index Egress = 5"
| "receive_index Ingress = 1"

lemma whole_plan_nth:
  assumes "k < 7"
  shows "whole_plan r u ! k = RecvDescription \<longleftrightarrow> k = receive_index r"
    and "whole_plan Ingress u ! k = SendDescription s \<longleftrightarrow> k = 6 \<and> s = su_local u"
proof -
  from assms consider "k = 0" | "k = 1" | "k = 2" | "k = 3" | "k = 4" | "k = 5" | "k = 6" by linarith
  note k = this
  show "whole_plan r u ! k = RecvDescription \<longleftrightarrow> k = receive_index r"
    using k by cases (cases r; simp)+
  show "whole_plan Ingress u ! k = SendDescription s \<longleftrightarrow> k = 6 \<and> s = su_local u"
    using k by cases auto
qed

lemma next_call_nth:
  "next_call u r x = Some c \<Longrightarrow> pt_calls (ex_party x r) < length (plan r (u r))
     \<and> c = whole_plan r (u r) ! pt_calls (ex_party x r) \<and> pt_calls (ex_party x r) < 7"
  using plan_nth [of "pt_calls (ex_party x r)" r "u r"] by (auto simp: next_call_def Let_def split: if_splits)

lemma waiting_index: "next_call u r x = Some RecvDescription \<Longrightarrow> pt_calls (ex_party x r) = receive_index r"
  using next_call_nth whole_plan_nth(1) by metis

lemma waiting_calls:
  assumes "next_call u r x = Some RecvDescription"
  shows "RecvDescription \<notin> set (calls_made u r x)" and "r = Ingress \<Longrightarrow> GatherICE \<notin> set (calls_made u r x)"
proof -
  have "calls_made u r x = take (receive_index r) (whole_plan r (u r))"
    using next_call_nth [OF assms] waiting_index [OF assms] calls_made_prefix by (simp add: calls_made_def)
  then show "RecvDescription \<notin> set (calls_made u r x)" "r = Ingress \<Longrightarrow> GatherICE \<notin> set (calls_made u r x)"
    by (cases r; simp add: eval_nat_numeral)+
qed

lemma call_is_made:
  "next_call u r x = Some c \<Longrightarrow> pt_calls (ex_party y r) = Suc (pt_calls (ex_party x r)) \<Longrightarrow>
     calls_made u r y = calls_made u r x @ [c]"
  by (auto simp: calls_made_def next_call_def Let_def take_Suc_conv_app_nth split: if_splits)

lemma calls_made_cong: "pt_calls (ex_party y r) = pt_calls (ex_party x r) \<Longrightarrow>
    calls_made u r y = calls_made u r x \<and> next_call u r y = next_call u r x"
  by (simp add: calls_made_def next_call_def)

text \<open>Who trickles has called \<open>GatherICE\<close>.\<close>

lemma trickling_calls:
  "exchange_run L N u (exchange_start a b c d) x \<Longrightarrow> connected N a b \<Longrightarrow> connected N c d \<Longrightarrow>
     pt_trickling (ex_party x r) \<Longrightarrow> GatherICE \<in> set (calls_made u r x)"
proof (induction rule: exchange_run.induct)
  case start
  then show ?case by (simp add: exchange_start_def)
next
  case (extend x y)
  have s: "sound N x" by (rule exchange_run_sound [OF extend(1) start_sound [OF extend(4,5)]])
  from exchange_step_party [OF extend(2) s, of r] show ?case
  proof (elim disjE exE conjE)
    assume "ex_party y r = ex_party x r"
    with extend(3-6) show ?thesis using calls_made_cong [of y r x u] by simp
  next
    assume "ex_party y r = (ex_party x r)\<lparr>pt_trickling := False\<rparr>"
    with extend(6) show ?thesis by simp
  next
    fix k
    assume k: "next_call u r x = Some k" "ex_party y r = \<lparr>pt_calls = Suc (pt_calls (ex_party x r)),
      pt_trickling = (pt_trickling (ex_party x r) \<or> k = GatherICE)\<rparr>"
    with extend(3-6) call_is_made [OF k(1), of y] show ?thesis by auto
  qed
qed

section \<open>A candidate in front\<close>

definition blocked :: "('k, 'd) ice_lib \<Rightarrow> ('h, 'c) noise_lib \<Rightarrow> (role \<Rightarrow> calls_env) \<Rightarrow> role \<Rightarrow> ('h, 'c, 'd) exchange \<Rightarrow> bool" where
  "blocked L N u r x \<longleftrightarrow>
     next_call u r x = Some RecvDescription \<and> \<not> pt_trickling (ex_party x r)
     \<and> (\<exists>c q. signals_to L N r x = Candidate c # q)"

lemma blocked_step:
  assumes "exchange_step L N u x y" and "sound N x" and "blocked L N u r x"
  shows "blocked L N u r y"
proof -
  obtain c q where b: "next_call u r x = Some RecvDescription" "\<not> pt_trickling (ex_party x r)" "signals_to L N r x = Candidate c # q"
    using assms(3) by (auto simp: blocked_def)
  have "ex_party y r = ex_party x r \<or> ex_party y r = (ex_party x r)\<lparr>pt_trickling := False\<rparr>"
    using exchange_step_party [OF assms(1,2), of r] b by auto
  then have "next_call u r y = Some RecvDescription" "\<not> pt_trickling (ex_party y r)"
    using b calls_made_cong [of y r x u] by auto
  moreover have "\<exists>q'. signals_to L N r y = Candidate c # q'"
    using exchange_step_signals [OF assms(1,2), of r] b by auto
  ultimately show ?thesis by (auto simp: blocked_def)
qed

lemma blocked_run: "exchange_run L N u x y \<Longrightarrow> sound N x \<Longrightarrow> blocked L N u r x \<Longrightarrow> blocked L N u r y"
proof (induction rule: exchange_run.induct)
  case (extend y z)
  with blocked_step [OF extend(2) exchange_run_sound [OF extend(1,4)]] show ?case by blast
qed

section \<open>A description that can be had\<close>

lemma turns_of_exchange:
  "(loop_turn L (noised_link N))\<^sup>*\<^sup>* (ex_to x r) \<sigma> \<Longrightarrow> exchange_run L N u x (put_signals r \<sigma> x)"
proof (induction rule: rtranclp_induct)
  case base
  show ?case by (simp add: put_signals_def exchange_run.start)
next
  case (step \<sigma> \<sigma>')
  have "exchange_step L N u (put_signals r \<sigma> x) (put_signals r \<sigma>' (put_signals r \<sigma> x))"
    by (rule exchange_step.turn) (simp add: step(2))
  with step(3) show ?case by (auto simp: put_signals_def intro: exchange_run.extend)
qed

lemma head_is_offered:
  assumes "sound N x" and "signals_to L N r x = s # q"
  shows "\<exists>\<sigma>. exchange_run L N u x (put_signals r \<sigma> x) \<and> sg_loop \<sigma> = Sending s \<and> noised.running \<sigma> \<and> wire_ok N (sg_io \<sigma>)
    \<and> signals_to L N r (put_signals r \<sigma> x) = s # q"
proof -
  have "wire_ok N (sg_io (ex_to x r))" "noised.running (ex_to x r)" using assms(1) by (simp_all add: sound_def)
  from noised.head_turns [OF this assms(2) [unfolded signals_to_def]] obtain \<sigma> where
    "(loop_turn L (noised_link N))\<^sup>*\<^sup>* (ex_to x r) \<sigma>" "wire_ok N (sg_io \<sigma>)" "noised.running \<sigma>" "sg_loop \<sigma> = Sending s"
    "abs_fifo L (wire_pending N) \<sigma> = abs_fifo L (wire_pending N) (ex_to x r)" by blast
  with turns_of_exchange assms(2) show ?thesis unfolding signals_to_def
    by (intro exI [of _ \<sigma>]) (simp add: turns_of_exchange)
qed

lemma description_arrives:
  assumes "sound N x" and "next_call u r x = Some RecvDescription" and "su_received (u r) = Some v"
    and "signals_to L N r x = map Candidate cs @ described r v # q" and "cs = [] \<or> pt_trickling (ex_party x r)"
  shows "\<exists>y. exchange_run L N u x y \<and> RecvDescription \<in> set (calls_made u r y)"
  using assms
proof (induction cs arbitrary: x)
  case Nil
  then obtain \<sigma> where o: "exchange_run L N u x (put_signals r \<sigma> x)" "sg_loop \<sigma> = Sending (described r v)" "noised.running \<sigma>"
    using head_is_offered [OF Nil(1), of L r "described r v" q u] by auto
  have "(\<sigma>\<lparr>sg_loop := AtTop\<rparr>, Ok v) \<in> set (recv_description r \<sigma>)"
    using o(2,3) by (cases r) (simp_all add: in_Recv noised.running_def)
  moreover have "next_call u r (put_signals r \<sigma> x) = Some RecvDescription" using Nil(2) by (simp add: next_call_def)
  ultimately have "exchange_step L N u (put_signals r \<sigma> x)
      (put_signals r (\<sigma>\<lparr>sg_loop := AtTop\<rparr>) (made r RecvDescription (put_signals r \<sigma> x)))"
    using Nil(3) by (intro exchange_step.receive) simp_all
  from exchange_run.extend [OF o(1) this] call_is_made [OF Nil(2)] show ?case
    by (metis exchange_simps(3) exchange_simps(6) in_set_conv_decomp party.select_convs(1))
next
  case (Cons c cs)
  then obtain \<sigma> where o: "exchange_run L N u x (put_signals r \<sigma> x)" "sg_loop \<sigma> = Sending (Candidate c)" "noised.running \<sigma>"
    "wire_ok N (sg_io \<sigma>)" "signals_to L N r (put_signals r \<sigma> x) = Candidate c # map Candidate cs @ described r v # q"
    using head_is_offered [OF Cons(2), of L r "Candidate c" "map Candidate cs @ described r v # q" u] by auto
  let ?x = "put_signals r \<sigma> x"
  let ?y = "put_signals r (\<sigma>\<lparr>sg_loop := AtTop\<rparr>) ?x"
  have got: "(\<sigma>\<lparr>sg_loop := AtTop\<rparr>, Ok c) \<in> set (RecvICECandidate None \<sigma>)"
    using o(2,3) by (simp add: in_Recv noised.running_def)
  then have s: "exchange_step L N u ?x ?y"
    using Cons(6) by (intro exchange_step.take_candidate) simp_all
  have "sound N ?y" using exchange_run_sound [OF exchange_run.extend [OF o(1) s] Cons(2)] .
  moreover have "signals_to L N r ?y = map Candidate cs @ described r v # q"
    using link_step [OF sig_step.got_candidate [OF got, of L] _ o(4,3)] o(5) by (simp add: signals_to_def)
  moreover have "next_call u r ?y = Some RecvDescription" using Cons(3) by (simp add: next_call_def)
  ultimately obtain y where "exchange_run L N u ?y y" "RecvDescription \<in> set (calls_made u r y)"
    using Cons(1) [of ?y] Cons(4,6) by auto
  with exchange_run_trans exchange_run.extend [OF o(1) s] show ?case by blast
qed

section \<open>Properties\<close>

text \<open>C13. When a description gets through. A node that waits for the description of the other, with the
  description behind some candidates on the way to it, can go on to receive it exactly when there is no
  candidate in front or the node trickles: the ingress never does while it waits, and the egress
  does until its own gathering ends.\<close>

theorem description_received_iff:
  assumes "connected N a b" and "connected N c d"
    and "exchange_run L N u (exchange_start a b c d) x"
    and "next_call u r x = Some RecvDescription" and "su_received (u r) = Some v"
    and "signals_to L N r x = map Candidate cs @ described r v # q"
  shows "((\<exists>y. exchange_run L N u x y \<and> RecvDescription \<in> set (calls_made u r y)) \<longleftrightarrow> cs = [] \<or> pt_trickling (ex_party x r))
    \<and> \<not> (r = Ingress \<and> pt_trickling (ex_party x r))"
proof -
  have s: "sound N x" by (rule exchange_run_sound [OF assms(3) start_sound [OF assms(1,2)]])
  have "RecvDescription \<notin> set (calls_made u r y)"
    if "exchange_run L N u x y" "\<not> (cs = [] \<or> pt_trickling (ex_party x r))" for y
  proof -
    have "blocked L N u r x" using that(2) assms(4,6) by (cases cs) (auto simp: blocked_def)
    from blocked_run [OF that(1) s this] show ?thesis unfolding blocked_def using waiting_calls(1) by blast
  qed
  moreover have "\<not> (r = Ingress \<and> pt_trickling (ex_party x r))"
    using trickling_calls [OF assms(3,1,2), of r] waiting_calls(2) [OF assms(4)] by blast
  ultimately show ?thesis using description_arrives [OF s assms(4-6)] by blast
qed

text \<open>Before the ingress has an offer, nothing but candidates goes to the egress.\<close>

definition no_answer :: "('k, 'd) ice_lib \<Rightarrow> ('h, 'c) noise_lib \<Rightarrow> (role \<Rightarrow> calls_env) \<Rightarrow> ('h, 'c, 'd) exchange \<Rightarrow> bool" where
  "no_answer L N u x \<longleftrightarrow>
     (pt_calls (ex_party x Ingress) \<le> 1 \<longrightarrow>
        RecvDescription \<notin> set (calls_made u Egress x) \<and> set (signals_to L N Egress x) \<subseteq> range Candidate)"

lemma no_answer_step:
  assumes "exchange_step L N u x y" and "sound N x" and "no_answer L N u x"
  shows "no_answer L N u y"
  unfolding no_answer_def
proof (intro impI)
  assume i: "pt_calls (ex_party y Ingress) \<le> 1"
  have "pt_calls (ex_party x Ingress) \<le> pt_calls (ex_party y Ingress)"
    using exchange_step_party [OF assms(1,2), of Ingress] by auto
  with i have x: "pt_calls (ex_party x Ingress) \<le> 1" by simp
  with assms(3) have n: "RecvDescription \<notin> set (calls_made u Egress x)" "set (signals_to L N Egress x) \<subseteq> range Candidate"
    by (simp_all add: no_answer_def)
  have "next_call u Ingress x \<noteq> Some (SendDescription s)" for s
  proof
    assume "next_call u Ingress x = Some (SendDescription s)"
    note c = next_call_nth [OF this]
    then have "pt_calls (ex_party x Ingress) = 6"
      using whole_plan_nth(2) [of "pt_calls (ex_party x Ingress)" "u Ingress" s] by simp
    with x show False by simp
  qed
  then have q: "set (signals_to L N Egress y) \<subseteq> range Candidate"
    using exchange_step_signals [OF assms(1,2), of Egress] n(2) by auto
  have "RecvDescription \<notin> set (calls_made u Egress y)"
    using exchange_step_party [OF assms(1,2), of Egress]
  proof (elim disjE exE conjE)
    assume "ex_party y Egress = ex_party x Egress"
    with n(1) calls_made_cong [of y Egress x u] show ?thesis by simp
  next
    assume "ex_party y Egress = (ex_party x Egress)\<lparr>pt_trickling := False\<rparr>"
    with n(1) calls_made_cong [of y Egress x u] show ?thesis by simp
  next
    fix k
    assume k: "next_call u Egress x = Some k" "ex_party y Egress = \<lparr>pt_calls = Suc (pt_calls (ex_party x Egress)),
      pt_trickling = (pt_trickling (ex_party x Egress) \<or> k = GatherICE)\<rparr>"
      "k = RecvDescription \<longrightarrow> (\<exists>v. signals_to L N Egress x = described Egress v # signals_to L N Egress y)"
    have "k \<noteq> RecvDescription" using k(3) n(2) by auto
    with n(1) call_is_made [OF k(1), of y] k(2) show ?thesis by simp
  qed
  with q show "RecvDescription \<notin> set (calls_made u Egress y) \<and> set (signals_to L N Egress y) \<subseteq> range Candidate" by simp
qed

lemma no_answer_run:
  "exchange_run L N u x y \<Longrightarrow> sound N x \<Longrightarrow> no_answer L N u x \<Longrightarrow> no_answer L N u y"
proof (induction rule: exchange_run.induct)
  case (extend y z)
  with no_answer_step [OF extend(2) exchange_run_sound [OF extend(1,4)]] show ?case by blast
qed

lemma start_no_answer: "no_answer L N u (exchange_start a b c d)"
  by (simp add: no_answer_def calls_made_def exchange_start_def signals_to_def new_signaller)

text \<open>C12. An early candidate is fatal. If a candidate of the egress is the first signal on its way while
  the ingress waits for the offer, the two wait for each other as long as no context ends: whatever else is sent, neither
  ever receives a description.\<close>

theorem early_candidate_deadlocks:
  assumes "connected N a b" and "connected N c d"
    and "exchange_run L N u (exchange_start a b c d) x"
    and "next_call u Ingress x = Some RecvDescription" and "signals_to L N Ingress x = Candidate k # q"
    and "exchange_run L N u x y"
  shows "next_call u Ingress y = Some RecvDescription \<and> RecvDescription \<notin> set (calls_made u r y)"
proof -
  have st: "sound N (exchange_start a b c d :: ('a, 'b, 'd) exchange)" by (rule start_sound [OF assms(1,2)])
  have s: "sound N x" by (rule exchange_run_sound [OF assms(3) st])
  have "\<not> pt_trickling (ex_party x Ingress)"
    using trickling_calls [OF assms(3,1,2), of Ingress] waiting_calls(2) [OF assms(4)] by blast
  then have "blocked L N u Ingress x" using assms(4,5) by (simp add: blocked_def)
  then have w: "next_call u Ingress y = Some RecvDescription" using blocked_run [OF assms(6) s] by (simp add: blocked_def)
  have "no_answer L N u y" by (rule no_answer_run [OF assms(6) s no_answer_run [OF assms(3) st start_no_answer]])
  with waiting_index [OF w] have "RecvDescription \<notin> set (calls_made u Egress y)" by (simp add: no_answer_def)
  with w waiting_calls(1) [OF w] show ?thesis by (cases r) simp_all
qed

section \<open>A concrete exchange\<close>

text \<open>The ingress listens; the egress gathers, sends a candidate and then, or before, its offer.\<close>

definition demo_calls :: "role \<Rightarrow> calls_env" where
  "demo_calls r = \<lparr>su_dummy = True, su_create = True, su_set_local = True, su_local = ''v=0'', su_send = True,
     su_received = Some ''v=0'', su_set_remote = True\<rparr>"

definition demo_at :: "nat \<Rightarrow> nat \<Rightarrow> bool \<Rightarrow> (bytes \<times> bool, bytes \<times> nat) wire
    \<Rightarrow> (bytes \<times> bool, bytes \<times> nat, bytes) exchange" where
  "demo_at i e t w =
     \<lparr>ex_party = (\<lambda>r. case r of Ingress \<Rightarrow> \<lparr>pt_calls = i, pt_trickling = False\<rparr> | Egress \<Rightarrow> \<lparr>pt_calls = e, pt_trickling = t\<rparr>),
      ex_to = (\<lambda>r. NewSignalMessenger None (case r of Ingress \<Rightarrow> w | Egress \<Rightarrow> new_wire (demo_end 0) (demo_end 0)))\<rparr>"

abbreviation demo_exchange :: "(bytes \<times> bool, bytes \<times> nat, bytes) exchange" where
  "demo_exchange \<equiv> exchange_start (demo_end 0) (demo_end 0) (demo_end 0) (demo_end 0)"

lemma demo_next:
  "next_call demo_calls Ingress (demo_at i e t w) = (if i < 7 then Some (whole_plan Ingress (demo_calls Ingress) ! i) else None)"
  "next_call demo_calls Egress (demo_at i e t w) = (if e < 7 then Some (whole_plan Egress (demo_calls Egress) ! e) else None)"
  by (simp_all add: next_call_def demo_at_def demo_calls_def egress_setup_def ingress_setup_def
      createDummyDataChannel_def Let_def)

lemma demo_made:
  "c \<noteq> GatherICE \<Longrightarrow> made Ingress c (demo_at i e t w) = demo_at (Suc i) e t w"
  "made Egress c (demo_at i e t w) = demo_at i (Suc e) (t \<or> c = GatherICE) w"
  by (auto simp: demo_at_def made_def fun_eq_iff split: role.splits)

lemma demo_put:
  "ex_to (demo_at i e t w) Ingress = NewSignalMessenger None w"
  "put_signals Ingress ((NewSignalMessenger None w)\<lparr>sg_io := w'\<rparr>) (demo_at i e t w) = demo_at i e t w'"
  by (auto simp: demo_at_def put_signals_def NewSignalMessenger_def fun_eq_iff split: role.splits)

lemma demo_gathers:
  "exchange_run demo_ice demo_noise demo_calls demo_exchange (demo_at 1 4 True (new_wire (demo_end 0) (demo_end 0)))"
proof -
  let ?w = "new_wire (demo_end 0) (demo_end 0)"
  have 0: "demo_exchange = demo_at 0 0 False ?w"
    by (auto simp: exchange_start_def demo_at_def fun_eq_iff split: role.splits)
  have i: "exchange_step demo_ice demo_noise demo_calls (demo_at 0 0 False ?w) (demo_at 1 0 False ?w)"
    using exchange_step.library [of demo_calls Ingress "demo_at 0 0 False ?w" ListenForChannels]
    by (simp add: demo_next demo_made(1))
  have e: "exchange_step demo_ice demo_noise demo_calls (demo_at 1 n False ?w) (demo_at 1 (Suc n) (n = 3) ?w)" if "n < 4" for n
  proof -
    from that consider "n = 0" | "n = 1" | "n = 2" | "n = 3" by linarith
    then show ?thesis
      using exchange_step.library [of demo_calls Egress "demo_at 1 n False ?w" "whole_plan Egress (demo_calls Egress) ! n"]
      by cases (simp_all add: demo_next demo_made(2))
  qed
  have n: "exchange_step demo_ice demo_noise demo_calls (demo_at 1 0 False ?w) (demo_at 1 1 False ?w)"
    "exchange_step demo_ice demo_noise demo_calls (demo_at 1 1 False ?w) (demo_at 1 2 False ?w)"
    "exchange_step demo_ice demo_noise demo_calls (demo_at 1 2 False ?w) (demo_at 1 3 False ?w)"
    "exchange_step demo_ice demo_noise demo_calls (demo_at 1 3 False ?w) (demo_at 1 4 True ?w)"
    using e [of 0] e [of 1] e [of 2] e [of 3] by (simp_all add: eval_nat_numeral)
  show ?thesis unfolding 0
    by (rule exchange_run.extend [OF exchange_run.extend [OF exchange_run.extend [OF exchange_run.extend [OF
          exchange_run.extend [OF exchange_run.start i] n(1)] n(2)] n(3)] n(4)])
qed

lemma demo_sends:
  obtains w where
    "exchange_run demo_ice demo_noise demo_calls (demo_at 1 4 True (new_wire (demo_end 0) (demo_end 0))) (demo_at 1 5 True w)"
    and "signals_to demo_ice demo_noise Ingress (demo_at 1 5 True w) = [Candidate ''c'', Offer ''v=0'']"
proof -
  let ?w = "new_wire (demo_end 0) (demo_end 0)" and ?M = "noised_link demo_noise"
  have wr: "\<exists>s'. l_Write ?M m s = (s', Ok ())" for m s
    by (auto simp: noised_link_def wire_Write_def noised_Write_def demo_noise_def split: prod.splits)
  obtain w1 where "l_Write ?M (marshal_msg \<lparr>msg_Type = signalMessengerIceCandidate, msg_Data = ''c''\<rparr>) ?w = (w1, Ok ())"
    using wr by blast
  then have c: "SendICECandidate demo_ice ?M (Some ''c'') ?w = (w1, Ok ())"
    by (simp add: SendICECandidate_def demo_ice_def)
  obtain w2 where "l_Write ?M (marshal_msg \<lparr>msg_Type = signalMessengerOffer, msg_Data = ''v=0''\<rparr>) w1 = (w2, Ok ())"
    using wr by blast
  then have o: "send_description demo_noise Egress ''v=0'' w1 = (w2, Ok ())" by (simp add: SendOffer_def)
  have 1: "exchange_step demo_ice demo_noise demo_calls (demo_at 1 4 True ?w) (demo_at 1 4 True w1)"
    using exchange_step.send_candidate [of "demo_at 1 4 True ?w" Egress demo_ice demo_noise "Some ''c''" w1 "Ok ()" demo_calls] c
    by (simp add: demo_put new_signaller) (simp add: demo_at_def)
  have 2: "exchange_step demo_ice demo_noise demo_calls (demo_at 1 4 True w1) (demo_at 1 5 True w2)"
    using exchange_step.send [of demo_calls Egress "demo_at 1 4 True w1" "''v=0''" demo_noise w2 "Ok ()" demo_ice] o
    by (simp add: demo_next demo_made demo_put new_signaller demo_calls_def)
  note run = exchange_run.extend [OF exchange_run.extend [OF exchange_run.start 1] 2]
  have v: "to_valid ''c'' = ''c''" "to_valid ''v=0'' = ''v=0''"
    by (rule to_valid_ascii, simp add: byte_val_def)+
  have "sig_step demo_ice ?M demo_start (Sent (Candidate ''c'')) (demo_start\<lparr>sg_io := w1\<rparr>)"
    using sig_step.send_candidate [of demo_ice "''c''" "''c''" ?M demo_start w1] c v(1) by (simp add: demo_ice_def new_signaller)
  moreover have "SendOffer ?M ''v=0'' (sg_io (demo_start\<lparr>sg_io := w1\<rparr>)) = (w2, Ok ())" using o by simp
  from sig_step.send_offer [OF this, of demo_ice] v(2)
  have "sig_step demo_ice ?M (demo_start\<lparr>sg_io := w1\<rparr>) (Sent (Offer ''v=0'')) (demo_start\<lparr>sg_io := w1, sg_io := w2\<rparr>)" by simp
  ultimately have r: "sig_run demo_ice ?M demo_start [Sent (Candidate ''c''), Sent (Offer ''v=0'')] (demo_start\<lparr>sg_io := w1, sg_io := w2\<rparr>)"
    by (intro sig_run_Cons [OF _ sig_run_Cons [OF _ sig_run.start]])
  have "demo_start\<lparr>sg_io := w1, sg_io := w2\<rparr> = NewSignalMessenger None w2" by (simp add: NewSignalMessenger_def)
  with signals_in_order [OF demo_connected r]
  have "signals_to demo_ice demo_noise Ingress (demo_at 1 5 True w2) = [Candidate ''c'', Offer ''v=0'']"
    by (simp add: signals_to_def demo_put)
  with run that show ?thesis by blast
qed

theorem description_received_iff_witness:
  "\<exists>x. exchange_run demo_ice demo_noise demo_calls demo_exchange x
     \<and> signals_to demo_ice demo_noise Ingress x = [Candidate ''c'', Offer ''v=0'']
     \<and> (\<nexists>y. exchange_run demo_ice demo_noise demo_calls x y \<and> RecvDescription \<in> set (calls_made demo_calls Ingress y))"
proof -
  obtain w where w: "exchange_run demo_ice demo_noise demo_calls (demo_at 1 4 True (new_wire (demo_end 0) (demo_end 0))) (demo_at 1 5 True w)"
    "signals_to demo_ice demo_noise Ingress (demo_at 1 5 True w) = [Candidate ''c'', Offer ''v=0'']" by (rule demo_sends)
  note run = exchange_run_trans [OF w(1) demo_gathers]
  have n: "next_call demo_calls Ingress (demo_at 1 5 True w) = Some RecvDescription" by (simp add: demo_next)
  have v: "su_received (demo_calls Ingress) = Some ''v=0''" by (simp add: demo_calls_def)
  have s: "signals_to demo_ice demo_noise Ingress (demo_at 1 5 True w)
      = map Candidate [''c''] @ described Ingress ''v=0'' # []" using w(2) by simp
  from description_received_iff [OF demo_connected demo_connected run n v s] run w(2) show ?thesis by blast
qed

theorem early_candidate_deadlocks_witness:
  "\<exists>x. exchange_run demo_ice demo_noise demo_calls demo_exchange x
     \<and> next_call demo_calls Ingress x = Some RecvDescription \<and> next_call demo_calls Egress x = Some RecvDescription
     \<and> (\<nexists>y. exchange_run demo_ice demo_noise demo_calls x y \<and> RecvDescription \<in> set (calls_made demo_calls Egress y))"
proof -
  obtain w where w: "exchange_run demo_ice demo_noise demo_calls (demo_at 1 4 True (new_wire (demo_end 0) (demo_end 0))) (demo_at 1 5 True w)"
    "signals_to demo_ice demo_noise Ingress (demo_at 1 5 True w) = [Candidate ''c'', Offer ''v=0'']" by (rule demo_sends)
  note run = exchange_run_trans [OF w(1) demo_gathers]
  have n: "next_call demo_calls Ingress (demo_at 1 5 True w) = Some RecvDescription"
    "next_call demo_calls Egress (demo_at 1 5 True w) = Some RecvDescription" by (simp_all add: demo_next)
  from early_candidate_deadlocks [OF demo_connected demo_connected run n(1) w(2), of _ Egress] run n show ?thesis by blast
qed

end
